(* ===== verification/Prelude.thy ===== *)
theory Prelude
  imports "HOL-Library.Word"
begin

text \<open>
  Shared vocabulary of the simple-router development.

  \<^item> Machine integers: bytes and the 16/32-bit words of the C code, with the little-endian
    memory layout that \<^verbatim>\<open>sr_protocol.h\<close> selects for Linux, and the byte-order conversions
    \<^verbatim>\<open>htons\<close>/\<^verbatim>\<open>ntohs\<close>/\<^verbatim>\<open>htonl\<close>/\<^verbatim>\<open>ntohl\<close> of a little-endian host.
  \<^item> Faults: a C run that leaves its defined behaviour (a read or write outside an allocation,
    a null or dangling pointer, a failed assertion) is a value \<open>Inl f\<close>; \<open>rbind\<close> sequences
    operations that may fault.
  \<^item> Memory blocks as byte lists, with bounds-checked \<^verbatim>\<open>memcpy\<close> in both directions and a
    locale \<open>struct_layout\<close> for packed C structs overlaid on a block.
  \<^item> C strings in fixed-size \<^verbatim>\<open>char\<close> arrays (\<^verbatim>\<open>strncpy\<close>, \<^verbatim>\<open>strncmp\<close>).
\<close>

unbundle bit_operations_syntax

type_synonym byte = "8 word"
type_synonym u16 = "16 word"
type_synonym u32 = "32 word"

named_theorems byte_simps \<open>evaluation of byte and word layout functions\<close>
named_theorems mem_simps \<open>slices and splices of memory blocks\<close>
named_theorems fault_elims \<open>inversion of computations that end without a fault\<close>

section \<open>Faults and sequencing\<close>

datatype cfault = OutOfBounds | NullDeref | UseAfterFree | AssertFail | Uninitialised

type_synonym 'a res = "cfault + 'a"

definition rbind :: "'a res \<Rightarrow> ('a \<Rightarrow> 'b res) \<Rightarrow> 'b res" where
  "rbind m f = (case m of Inl e \<Rightarrow> Inl e | Inr x \<Rightarrow> f x)"

lemma rbind_simps [simp]:
  "rbind (Inl e) f = Inl e"
  "rbind (Inr x) f = f x"
  by (simp_all add: rbind_def)

lemma rbind_eq_Inr [fault_elims]:
  "rbind m f = Inr y \<longleftrightarrow> (\<exists>x. m = Inr x \<and> f x = Inr y)"
  by (cases m) auto

lemma rbind_cong [fundef_cong]:
  "m = m' \<Longrightarrow> (\<And>x. m' = Inr x \<Longrightarrow> f x = f' x) \<Longrightarrow> rbind m f = rbind m' f'"
  by (cases m') auto

lemma rbind_assoc: "rbind (rbind m f) g = rbind m (\<lambda>x. rbind (f x) g)"
  by (cases m) auto

text \<open>A computation is safe when it does not fault; \<open>rpost\<close> is its total postcondition.\<close>

definition rpost :: "'a res \<Rightarrow> ('a \<Rightarrow> bool) \<Rightarrow> bool" where
  "rpost m P = (case m of Inl e \<Rightarrow> False | Inr x \<Rightarrow> P x)"

lemma rpost_simps [simp]:
  "rpost (Inr x) P = P x"
  "\<not> rpost (Inl e) P"
  by (simp_all add: rpost_def)

lemma rpost_iff: "rpost m P \<longleftrightarrow> (\<exists>x. m = Inr x \<and> P x)"
  by (cases m) auto

lemma rpost_bind: "rpost (rbind m f) P \<longleftrightarrow> rpost m (\<lambda>x. rpost (f x) P)"
  by (cases m) auto

lemma rpost_mono: "rpost m P \<Longrightarrow> (\<And>x. m = Inr x \<Longrightarrow> P x \<Longrightarrow> Q x) \<Longrightarrow> rpost m Q"
  by (cases m) auto

lemma rpost_if: "(c \<Longrightarrow> rpost x P) \<Longrightarrow> (\<not> c \<Longrightarrow> rpost y P) \<Longrightarrow> rpost (if c then x else y) P"
  by simp

lemma rpost_seq: "rpost m (\<lambda>_. True) \<Longrightarrow> (\<And>x. rpost (f x) P) \<Longrightarrow> rpost (rbind m f) P"
  by (auto simp: rpost_iff)

section \<open>Bytes and words\<close>

definition mk16 :: "byte \<Rightarrow> byte \<Rightarrow> u16" where
  "mk16 b0 b1 = ucast b0 OR push_bit 8 (ucast b1)"

definition lo16 :: "u16 \<Rightarrow> byte" where
  "lo16 v = ucast v"

definition hi16 :: "u16 \<Rightarrow> byte" where
  "hi16 v = ucast (drop_bit 8 v)"

definition mk32 :: "byte \<Rightarrow> byte \<Rightarrow> byte \<Rightarrow> byte \<Rightarrow> u32" where
  "mk32 b0 b1 b2 b3 =
     ucast b0 OR push_bit 8 (ucast b1) OR push_bit 16 (ucast b2) OR push_bit 24 (ucast b3)"

definition byte_of :: "nat \<Rightarrow> u32 \<Rightarrow> byte" where
  "byte_of k v = ucast (drop_bit (8 * k) v)"

lemma lo16_mk16 [simp]: "lo16 (mk16 a b) = a"
  by (rule bit_word_eqI) (auto simp: lo16_def mk16_def bit_simps)

lemma hi16_mk16 [simp]: "hi16 (mk16 a b) = b"
  by (rule bit_word_eqI) (auto simp: hi16_def mk16_def bit_simps dest: bit_imp_le_length)

lemma mk16_lo_hi [simp]: "mk16 (lo16 v) (hi16 v) = v"
  by (rule bit_word_eqI) (auto simp: hi16_def lo16_def mk16_def bit_simps)

lemma byte_of_mk32 [simp]:
  "byte_of 0 (mk32 a b c d) = a"
  "byte_of (Suc 0) (mk32 a b c d) = b"
  "byte_of 2 (mk32 a b c d) = c"
  "byte_of 3 (mk32 a b c d) = d"
  by (rule bit_word_eqI; auto simp: byte_of_def mk32_def bit_simps dest: bit_imp_le_length)+

lemma mk32_byte_of [simp]:
  "mk32 (byte_of 0 v) (byte_of (Suc 0) v) (byte_of 2 v) (byte_of 3 v) = v"
proof (rule bit_word_eqI)
  fix n assume "n < LENGTH(32)"
  then consider "n < 8" | "8 \<le> n" "n < 16" | "16 \<le> n" "n < 24" | "24 \<le> n" "n < 32"
    by fastforce
  then show "bit (mk32 (byte_of 0 v) (byte_of (Suc 0) v) (byte_of 2 v) (byte_of 3 v)) n = bit v n"
    by cases (auto simp: byte_of_def mk32_def bit_simps)
qed

lemma unat_mk16: "unat (mk16 a b) = unat a + 256 * unat b"
proof -
  have "mk16 a b = ucast a + push_bit 8 (ucast b)"
    unfolding mk16_def
    by (rule disjunctive_add [symmetric]) (auto simp: bit_simps dest: bit_imp_le_length)
  moreover have "unat a < 256" "unat b < 256"
    using unsigned_less [of a] unsigned_less [of b] by simp_all
  ultimately show ?thesis
    by (simp add: push_bit_eq_mult unat_word_ariths unsigned_ucast_eq take_bit_nat_eq_self)
qed

definition htons :: "u16 \<Rightarrow> u16" where
  "htons v = mk16 (hi16 v) (lo16 v)"

definition htonl :: "u32 \<Rightarrow> u32" where
  "htonl v = mk32 (byte_of 3 v) (byte_of 2 v) (byte_of 1 v) (byte_of 0 v)"

abbreviation ntohs :: "u16 \<Rightarrow> u16" where "ntohs \<equiv> htons"
abbreviation ntohl :: "u32 \<Rightarrow> u32" where "ntohl \<equiv> htonl"

lemma htons_htons [simp]: "htons (htons v) = v"
  by (simp add: htons_def)

lemma htonl_htonl [simp]: "htonl (htonl v) = v"
  by (simp add: htonl_def)

lemma htons_eq_iff [simp]: "htons a = htons b \<longleftrightarrow> a = b"
  by (metis htons_htons)

lemma htonl_eq_iff [simp]: "htonl a = htonl b \<longleftrightarrow> a = b"
  by (metis htonl_htonl)

lemma htons_0 [simp]: "htons 0 = 0"
  by (simp add: htons_def mk16_def hi16_def lo16_def)

lemma htonl_0 [simp]: "htonl 0 = 0"
  by (simp add: htonl_def mk32_def byte_of_def)

lemma htonl_eq_0_iff [simp]: "htonl v = 0 \<longleftrightarrow> v = 0"
  by (metis htonl_0 htonl_htonl)

lemmas word_layout_defs [byte_simps] =
  mk16_def lo16_def hi16_def mk32_def byte_of_def htons_def htonl_def

section \<open>Memory blocks\<close>

text \<open>
  A memory block is the list of bytes from a pointer to the end of its allocation, so pointer
  arithmetic \<open>p + k\<close> is \<^term>\<open>drop k\<close>. \<open>mslice\<close> and \<open>msplice\<close> are the bytes a
  \<^verbatim>\<open>memcpy\<close> reads and the block after one has written.
\<close>

definition mslice :: "byte list \<Rightarrow> nat \<Rightarrow> nat \<Rightarrow> byte list" where
  "mslice b i n = take n (drop i b)"

definition msplice :: "byte list \<Rightarrow> nat \<Rightarrow> byte list \<Rightarrow> byte list" where
  "msplice b i xs = take i b @ xs @ drop (i + length xs) b"

definition rd_bytes :: "byte list \<Rightarrow> nat \<Rightarrow> nat \<Rightarrow> byte list res" where
  "rd_bytes b i n = (if i + n \<le> length b then Inr (mslice b i n) else Inl OutOfBounds)"

definition wr_bytes :: "byte list \<Rightarrow> nat \<Rightarrow> byte list \<Rightarrow> byte list res" where
  "wr_bytes b i xs =
     (if i + length xs \<le> length b then Inr (msplice b i xs) else Inl OutOfBounds)"

definition rd8 :: "byte list \<Rightarrow> nat \<Rightarrow> byte res" where
  "rd8 b i = (if i < length b then Inr (b ! i) else Inl OutOfBounds)"

definition rd16 :: "byte list \<Rightarrow> nat \<Rightarrow> u16 res" where
  "rd16 b i = (if i + 1 < length b then Inr (mk16 (b ! i) (b ! (i + 1))) else Inl OutOfBounds)"

definition wr8 :: "byte list \<Rightarrow> nat \<Rightarrow> byte \<Rightarrow> byte list res" where
  "wr8 b i v = wr_bytes b i [v]"

definition wr16 :: "byte list \<Rightarrow> nat \<Rightarrow> u16 \<Rightarrow> byte list res" where
  "wr16 b i v = wr_bytes b i [lo16 v, hi16 v]"

lemma length_mslice [simp]: "i + n \<le> length b \<Longrightarrow> length (mslice b i n) = n"
  by (simp add: mslice_def)

lemma length_msplice [simp]: "i + length xs \<le> length b \<Longrightarrow> length (msplice b i xs) = length b"
  by (simp add: msplice_def)

lemma mslice_take: "i + n \<le> len \<Longrightarrow> mslice (take len b) i n = mslice b i n"
  by (simp add: mslice_def drop_take min_def)

lemma mslice_msplice_same [mem_simps]:
  "i + length xs \<le> length b \<Longrightarrow> n = length xs \<Longrightarrow> mslice (msplice b i xs) i n = xs"
  by (simp add: mslice_def msplice_def)

lemma mslice_msplice_before [mem_simps]:
  "j + n \<le> i \<Longrightarrow> i + length xs \<le> length b \<Longrightarrow> mslice (msplice b i xs) j n = mslice b j n"
  by (simp add: mslice_def msplice_def drop_take min_absorb1)

lemma mslice_msplice_after [mem_simps]:
  assumes "i + length xs \<le> j" "i + length xs \<le> length b"
  shows "mslice (msplice b i xs) j n = mslice b j n"
proof -
  have "drop j (msplice b i xs) = drop j b"
    using assms by (simp add: msplice_def)
  then show ?thesis by (simp add: mslice_def)
qed

lemma msplice_mslice_same [mem_simps]: "i + n \<le> length b \<Longrightarrow> msplice b i (mslice b i n) = b"
  by (simp add: msplice_def mslice_def) (metis add.commute append_take_drop_id drop_drop)

lemma msplice_msplice_same [mem_simps]:
  "i + length xs \<le> length b \<Longrightarrow> length ys = length xs \<Longrightarrow>
     msplice (msplice b i xs) i ys = msplice b i ys"
  by (simp add: msplice_def)

lemma msplice_at_append:
  "i = length as \<Longrightarrow> length xs = length bs \<Longrightarrow> msplice (as @ bs @ cs) i xs = as @ xs @ cs"
  by (simp add: msplice_def)

lemma mslice_at_append:
  "i = length as \<Longrightarrow> n = length bs \<Longrightarrow> mslice (as @ bs @ cs) i n = bs"
  by (simp add: mslice_def)

lemma drop_msplice_before:
  "i + length xs \<le> j \<Longrightarrow> i + length xs \<le> length b \<Longrightarrow> drop j (msplice b i xs) = drop j b"
  by (simp add: msplice_def)

lemma rd_bytes_ok [simp]: "i + n \<le> length b \<Longrightarrow> rd_bytes b i n = Inr (mslice b i n)"
  by (simp add: rd_bytes_def)

lemma rd_bytes_oob [simp]: "length b < i + n \<Longrightarrow> rd_bytes b i n = Inl OutOfBounds"
  by (simp add: rd_bytes_def)

lemma wr_bytes_ok [simp]:
  "i + length xs \<le> length b \<Longrightarrow> wr_bytes b i xs = Inr (msplice b i xs)"
  by (simp add: wr_bytes_def)

lemma wr_bytes_oob [simp]: "length b < i + length xs \<Longrightarrow> wr_bytes b i xs = Inl OutOfBounds"
  by (simp add: wr_bytes_def)

lemma rd8_ok [simp]: "i < length b \<Longrightarrow> rd8 b i = Inr (b ! i)"
  by (simp add: rd8_def)

lemma wr8_ok [simp]: "i < length b \<Longrightarrow> wr8 b i v = Inr (msplice b i [v])"
  by (simp add: wr8_def)

lemma wr16_ok [simp]: "i + 2 \<le> length b \<Longrightarrow> wr16 b i v = Inr (msplice b i [lo16 v, hi16 v])"
  by (simp add: wr16_def)

section \<open>Packed structs on a block\<close>

text \<open>
  A packed C struct is given by its size and the two directions of its layout. \<open>rd_struct\<close>
  is an access through a struct pointer at offset \<open>i\<close>, \<open>wr_struct\<close> the assignment of the
  whole struct there; both fault when the struct does not fit in the block.
\<close>

definition rd_struct :: "nat \<Rightarrow> (byte list \<Rightarrow> 'a) \<Rightarrow> byte list \<Rightarrow> nat \<Rightarrow> 'a res" where
  "rd_struct n dec b i = rbind (rd_bytes b i n) (\<lambda>bs. Inr (dec bs))"

definition wr_struct :: "('a \<Rightarrow> byte list) \<Rightarrow> byte list \<Rightarrow> nat \<Rightarrow> 'a \<Rightarrow> byte list res" where
  "wr_struct enc b i x = wr_bytes b i (enc x)"

lemma rd_struct_ok [simp]: "i + n \<le> length b \<Longrightarrow> rd_struct n dec b i = Inr (dec (mslice b i n))"
  by (simp add: rd_struct_def)

lemma rd_struct_oob [simp]: "length b < i + n \<Longrightarrow> rd_struct n dec b i = Inl OutOfBounds"
  by (simp add: rd_struct_def)

locale struct_layout =
  fixes sz :: nat
    and enc :: "'a \<Rightarrow> byte list"
    and dec :: "byte list \<Rightarrow> 'a"
    and valid :: "'a \<Rightarrow> bool"
  assumes enc_len: "valid x \<Longrightarrow> length (enc x) = sz"
    and dec_enc: "valid x \<Longrightarrow> dec (enc x) = x"
    and enc_dec: "length bs = sz \<Longrightarrow> enc (dec bs) = bs"
    and dec_valid: "length bs = sz \<Longrightarrow> valid (dec bs)"
begin

lemma wr_ok:
  "valid x \<Longrightarrow> i + sz \<le> length b \<Longrightarrow> wr_struct enc b i x = Inr (msplice b i (enc x))"
  by (simp add: wr_struct_def enc_len)

lemma wr_oob:
  "valid x \<Longrightarrow> length b < i + sz \<Longrightarrow> wr_struct enc b i x = Inl OutOfBounds"
  by (simp add: wr_struct_def enc_len)

lemma read_after_write:
  assumes "valid x" "wr_struct enc b i x = Inr b'"
  shows "rd_struct sz dec b' i = Inr x"
proof -
  from assms have "i + sz \<le> length b" and "b' = msplice b i (enc x)"
    by (auto simp: wr_struct_def wr_bytes_def enc_len split: if_splits)
  with assms(1) show ?thesis
    by (simp add: enc_len dec_enc mslice_msplice_same)
qed

lemma write_back:
  assumes "rd_struct sz dec b i = Inr x"
  shows "wr_struct enc b i x = Inr b"
proof -
  from assms have "i + sz \<le> length b" and "x = dec (mslice b i sz)"
    by (auto simp: rd_struct_def rd_bytes_def split: if_splits)
  then show ?thesis
    by (simp add: wr_struct_def enc_dec msplice_mslice_same)
qed

lemma enc_inj: "valid x \<Longrightarrow> valid y \<Longrightarrow> enc x = enc y \<Longrightarrow> x = y"
  by (metis dec_enc)

lemma read_prefix: "valid x \<Longrightarrow> rd_struct sz dec (enc x @ rest) 0 = Inr x"
  by (simp add: enc_len dec_enc mslice_def)

end

section \<open>C strings in fixed-size arrays\<close>

text \<open>
  A C string is the list of its characters before the terminating NUL. Copying it with
  \<^verbatim>\<open>strncpy(dst, s, n)\<close> into a \<^verbatim>\<open>char[n]\<close> keeps its first \<open>n\<close> characters (and pads with
  NULs); \<^verbatim>\<open>strncmp(a, b, n) == 0\<close> compares the first \<open>n\<close> characters.
\<close>

definition strncpy :: "string \<Rightarrow> nat \<Rightarrow> string" where
  "strncpy s n = take n s"

definition strncmp_eq :: "string \<Rightarrow> string \<Rightarrow> nat \<Rightarrow> bool" where
  "strncmp_eq a b n \<longleftrightarrow> take n a = take n b"

lemma strncmp_eq_refl [simp]: "strncmp_eq a a n"
  by (simp add: strncmp_eq_def)

lemma strncmp_eq_strncpy [simp]:
  "strncmp_eq (strncpy a n) b n = strncmp_eq a b n"
  "strncmp_eq a (strncpy b n) n = strncmp_eq a b n"
  by (simp_all add: strncmp_eq_def strncpy_def)

lemma length_strncpy: "length (strncpy s n) \<le> n"
  by (simp add: strncpy_def)

section \<open>Searching a linked list\<close>

text \<open>
  The code walks a singly linked list and returns the first node that satisfies a test. Every such
  walk satisfies the two unfolding laws; the facts a caller needs follow from them.
\<close>

locale list_search =
  fixes search :: "'k \<Rightarrow> 'a list \<Rightarrow> 'a option"
    and hit :: "'k \<Rightarrow> 'a \<Rightarrow> bool"
  assumes search_Nil: "search k [] = None"
    and search_Cons: "search k (x # xs) = (if hit k x then Some x else search k xs)"
begin

lemma search_None_iff: "search k xs = None \<longleftrightarrow> (\<forall>x \<in> set xs. \<not> hit k x)"
  by (induction xs) (auto simp: search_Nil search_Cons)

lemma search_Some_iff:
  "search k xs = Some x \<longleftrightarrow>
     (\<exists>pre post. xs = pre @ x # post \<and> hit k x \<and> (\<forall>y \<in> set pre. \<not> hit k y))"
proof
  assume "search k xs = Some x"
  then show "\<exists>pre post. xs = pre @ x # post \<and> hit k x \<and> (\<forall>y \<in> set pre. \<not> hit k y)"
  proof (induction xs)
    case (Cons a xs)
    show ?case
    proof (cases "hit k a")
      case True
      with Cons.prems have "a = x" "hit k x" by (simp_all add: search_Cons)
      then show ?thesis by (intro exI [of _ "[]"] exI [of _ xs]) simp
    next
      case False
      with Cons obtain pre post where
        "xs = pre @ x # post" "hit k x" "\<forall>y \<in> set pre. \<not> hit k y" by (auto simp: search_Cons)
      with False show ?thesis by (intro exI [of _ "a # pre"] exI [of _ post]) simp
    qed
  qed (simp add: search_Nil)
next
  have walk: "search k (pre @ x # post) = Some x" if "hit k x" "\<forall>y \<in> set pre. \<not> hit k y" for pre post
    using that by (induction pre) (auto simp: search_Cons)
  assume "\<exists>pre post. xs = pre @ x # post \<and> hit k x \<and> (\<forall>y \<in> set pre. \<not> hit k y)"
  then show "search k xs = Some x" using walk by blast
qed

lemma search_hit: "search k xs = Some x \<Longrightarrow> hit k x \<and> x \<in> set xs"
  by (auto simp: search_Some_iff)

lemma search_append:
  "search k (xs @ ys) = (case search k xs of None \<Rightarrow> search k ys | Some x \<Rightarrow> Some x)"
  by (induction xs) (auto simp: search_Nil search_Cons)

lemma search_unique:
  assumes "x \<in> set xs" "hit k x" "\<And>y. y \<in> set xs \<Longrightarrow> hit k y \<Longrightarrow> y = x"
  shows "search k xs = Some x"
proof (cases "search k xs")
  case None
  with assms(1,2) show ?thesis by (simp add: search_None_iff)
next
  case (Some y)
  with assms(3) show ?thesis using search_hit by blast
qed

end

section \<open>Characters as bytes\<close>

lemma unat_of_char: "unat (of_char c :: byte) = of_char c"
proof -
  have "(of_char c :: byte) = of_nat (of_char c)" by (simp add: of_nat_of_char)
  then show ?thesis by (simp add: unat_of_nat del: of_nat_of_char)
qed

lemma char_of_byte [simp]: "char_of (unat (of_char c :: byte)) = c"
  by (simp add: unat_of_char)

lemma of_char_eq_0: "(of_char c :: byte) = 0 \<longleftrightarrow> c = CHR 0x00"
proof
  assume "(of_char c :: byte) = 0"
  then have "of_char c = (0 :: nat)" using unat_of_char [of c] by simp
  then have "c = char_of (0 :: nat)" by (metis char_of_char)
  then show "c = CHR 0x00" by (simp add: char_of_def)
qed simp

end
