(* ===== verification/Protocol.thy ===== *)
theory Protocol
  imports Prelude
begin

text \<open>
  The wire formats of \<^verbatim>\<open>sr_protocol.h\<close>: the packed header structs as records with their
  little-endian memory layout (the branch \<^verbatim>\<open>__BYTE_ORDER == __LITTLE_ENDIAN\<close> that
  \<^verbatim>\<open>_LINUX_\<close> selects), the protocol constants, and the accessors \<^verbatim>\<open>ethertype\<close> and
  \<^verbatim>\<open>ip_protocol\<close> of \<^verbatim>\<open>sr_utils.c\<close>. A multi-byte field holds the value that C reads from
  memory, so network-order fields are compared and converted with \<open>ntohs\<close>/\<open>ntohl\<close> as in the
  source. Every struct is shown to be a \<open>struct_layout\<close>, which gives read-after-write and
  write-back for overlaid headers.
\<close>

section \<open>Constants\<close>

abbreviation (input) ETHER_ADDR_LEN :: nat where "ETHER_ADDR_LEN \<equiv> 6"
abbreviation (input) ICMP_DATA_SIZE :: nat where "ICMP_DATA_SIZE \<equiv> 28"
abbreviation (input) sr_IFACE_NAMELEN :: nat where "sr_IFACE_NAMELEN \<equiv> 32"

definition ip_protocol_icmp :: byte where "ip_protocol_icmp = 0x01"
definition ethertype_arp :: u16 where "ethertype_arp = 0x0806"
definition ethertype_ip :: u16 where "ethertype_ip = 0x0800"
definition arp_op_request :: u16 where "arp_op_request = 0x0001"
definition arp_op_reply :: u16 where "arp_op_reply = 0x0002"
definition arp_hrd_ethernet :: u16 where "arp_hrd_ethernet = 0x0001"

lemmas protocol_consts [byte_simps] =
  ip_protocol_icmp_def ethertype_arp_def ethertype_ip_def
  arp_op_request_def arp_op_reply_def arp_hrd_ethernet_def

section \<open>Field layouts\<close>

datatype mac = MAC byte byte byte byte byte byte

fun enc_mac :: "mac \<Rightarrow> byte list" where
  "enc_mac (MAC a b c d e f) = [a, b, c, d, e, f]"

definition dec_mac :: "byte list \<Rightarrow> mac" where
  "dec_mac bs = MAC (bs ! 0) (bs ! 1) (bs ! 2) (bs ! 3) (bs ! 4) (bs ! 5)"

definition enc16 :: "u16 \<Rightarrow> byte list" where
  "enc16 v = [lo16 v, hi16 v]"

definition dec16 :: "byte list \<Rightarrow> u16" where
  "dec16 bs = mk16 (bs ! 0) (bs ! 1)"

definition enc32 :: "u32 \<Rightarrow> byte list" where
  "enc32 v = [byte_of 0 v, byte_of 1 v, byte_of 2 v, byte_of 3 v]"

definition dec32 :: "byte list \<Rightarrow> u32" where
  "dec32 bs = mk32 (bs ! 0) (bs ! 1) (bs ! 2) (bs ! 3)"

lemma length_enc_field [simp]:
  "length (enc_mac m) = 6" "length (enc16 v) = 2" "length (enc32 w) = 4"
  by (cases m; simp add: enc16_def enc32_def)+

lemma dec_enc_field [simp]:
  "dec_mac (enc_mac m @ r) = m" "dec16 (enc16 v @ r) = v" "dec32 (enc32 w @ r) = w"
  "dec_mac (enc_mac m) = m" "dec16 (enc16 v) = v" "dec32 (enc32 w) = w"
  by (cases m; simp add: dec_mac_def dec16_def dec32_def enc16_def enc32_def)+

lemma enc_dec_mac: "length bs = 6 \<Longrightarrow> enc_mac (dec_mac bs) = bs"
  by (auto simp: dec_mac_def length_Suc_conv numeral_eq_Suc)

lemma enc_dec16: "length bs = 2 \<Longrightarrow> enc16 (dec16 bs) = bs"
  by (auto simp: dec16_def enc16_def length_Suc_conv numeral_eq_Suc)

lemma enc_dec32: "length bs = 4 \<Longrightarrow> enc32 (dec32 bs) = bs"
  by (auto simp: dec32_def enc32_def length_Suc_conv eval_nat_numeral
      byte_of_mk32 [unfolded numeral_2_eq_2 numeral_3_eq_3])

text \<open>The fields of a packed struct follow each other without padding.\<close>

definition field :: "byte list \<Rightarrow> nat \<Rightarrow> nat \<Rightarrow> byte list" where
  "field bs i n = take n (drop i bs)"

lemma length_field [simp]: "i + n \<le> length bs \<Longrightarrow> length (field bs i n) = n"
  by (simp add: field_def)

lemma field_chain:
  "j = i + m \<Longrightarrow> field bs i m @ field bs j n = field bs i (m + n)"
  "j = i + m \<Longrightarrow> field bs i m @ field bs j n @ r = field bs i (m + n) @ r"
  by (simp_all add: field_def take_add add.commute)

lemma field_all: "length bs = n \<Longrightarrow> field bs 0 n = bs"
  by (simp add: field_def)

lemma field_byte: "i < length bs \<Longrightarrow> bs ! i # r = field bs i 1 @ r"
  by (simp add: field_def take_Suc hd_drop_conv_nth)

lemma field_skip:
  "field (x # xs) i n = (if i = 0 then field (x # xs) 0 n else field xs (i - 1) n)"
  by (cases i) (simp_all add: field_def)

lemma field_append:
  "i = length xs \<Longrightarrow> n \<le> length ys \<Longrightarrow> field (xs @ ys) i n = field ys 0 n"
  "length xs \<le> i \<Longrightarrow> field (xs @ ys) i n = field ys (i - length xs) n"
  "length xs = n \<Longrightarrow> field (xs @ ys) 0 n = xs"
  "length xs = n \<Longrightarrow> field xs 0 n = xs"
  by (simp_all add: field_def)

section \<open>Ethernet\<close>

record sr_ethernet_hdr =
  ether_dhost :: mac
  ether_shost :: mac
  ether_type :: u16

definition enc_eth :: "sr_ethernet_hdr \<Rightarrow> byte list" where
  "enc_eth h = enc_mac (ether_dhost h) @ enc_mac (ether_shost h) @ enc16 (ether_type h)"

definition dec_eth :: "byte list \<Rightarrow> sr_ethernet_hdr" where
  "dec_eth bs = \<lparr>ether_dhost = dec_mac (field bs 0 6), ether_shost = dec_mac (field bs 6 6),
     ether_type = dec16 (field bs 12 2)\<rparr>"

abbreviation (input) sizeof_eth :: nat where "sizeof_eth \<equiv> 14"

section \<open>ARP\<close>

record sr_arp_hdr =
  ar_hrd :: u16
  ar_pro :: u16
  ar_hln :: byte
  ar_pln :: byte
  ar_op :: u16
  ar_sha :: mac
  ar_sip :: u32
  ar_tha :: mac
  ar_tip :: u32

definition enc_arp :: "sr_arp_hdr \<Rightarrow> byte list" where
  "enc_arp h = enc16 (ar_hrd h) @ enc16 (ar_pro h) @ [ar_hln h] @ [ar_pln h] @ enc16 (ar_op h) @
     enc_mac (ar_sha h) @ enc32 (ar_sip h) @ enc_mac (ar_tha h) @ enc32 (ar_tip h)"

definition dec_arp :: "byte list \<Rightarrow> sr_arp_hdr" where
  "dec_arp bs = \<lparr>ar_hrd = dec16 (field bs 0 2), ar_pro = dec16 (field bs 2 2),
     ar_hln = bs ! 4, ar_pln = bs ! 5, ar_op = dec16 (field bs 6 2),
     ar_sha = dec_mac (field bs 8 6), ar_sip = dec32 (field bs 14 4),
     ar_tha = dec_mac (field bs 18 6), ar_tip = dec32 (field bs 24 4)\<rparr>"

abbreviation (input) sizeof_arp :: nat where "sizeof_arp \<equiv> 28"

section \<open>IP\<close>

text \<open>The two bit-fields share the first byte: \<open>ip_hl\<close> is its low nibble.\<close>

record sr_ip_hdr =
  ip_hl :: "4 word"
  ip_v :: "4 word"
  ip_tos :: byte
  ip_len :: u16
  ip_id :: u16
  ip_off :: u16
  ip_ttl :: byte
  ip_p :: byte
  ip_sum :: u16
  ip_src :: u32
  ip_dst :: u32

definition mk_nibbles :: "4 word \<Rightarrow> 4 word \<Rightarrow> byte" where
  "mk_nibbles lo hi = ucast lo OR push_bit 4 (ucast hi)"

definition lo_nibble :: "byte \<Rightarrow> 4 word" where "lo_nibble b = ucast b"
definition hi_nibble :: "byte \<Rightarrow> 4 word" where "hi_nibble b = ucast (drop_bit 4 b)"

lemma nibbles [simp]:
  "lo_nibble (mk_nibbles a b) = a"
  "hi_nibble (mk_nibbles a b) = b"
  "mk_nibbles (lo_nibble c) (hi_nibble c) = c"
  by (rule bit_word_eqI;
      auto simp: lo_nibble_def hi_nibble_def mk_nibbles_def bit_simps dest: bit_imp_le_length)+

lemmas nibble_defs [byte_simps] = mk_nibbles_def lo_nibble_def hi_nibble_def

definition enc_ip :: "sr_ip_hdr \<Rightarrow> byte list" where
  "enc_ip h = [mk_nibbles (ip_hl h) (ip_v h)] @ [ip_tos h] @ enc16 (ip_len h) @ enc16 (ip_id h) @
     enc16 (ip_off h) @ [ip_ttl h] @ [ip_p h] @ enc16 (ip_sum h) @
     enc32 (ip_src h) @ enc32 (ip_dst h)"

definition dec_ip :: "byte list \<Rightarrow> sr_ip_hdr" where
  "dec_ip bs = \<lparr>ip_hl = lo_nibble (bs ! 0), ip_v = hi_nibble (bs ! 0), ip_tos = bs ! 1,
     ip_len = dec16 (field bs 2 2), ip_id = dec16 (field bs 4 2), ip_off = dec16 (field bs 6 2),
     ip_ttl = bs ! 8, ip_p = bs ! 9, ip_sum = dec16 (field bs 10 2),
     ip_src = dec32 (field bs 12 4), ip_dst = dec32 (field bs 16 4)\<rparr>"

abbreviation (input) sizeof_ip :: nat where "sizeof_ip \<equiv> 20"

section \<open>ICMP\<close>

record sr_icmp_hdr =
  icmp_type :: byte
  icmp_code :: byte
  icmp_sum :: u16

definition enc_icmp :: "sr_icmp_hdr \<Rightarrow> byte list" where
  "enc_icmp h = [icmp_type h] @ [icmp_code h] @ enc16 (icmp_sum h)"

definition dec_icmp :: "byte list \<Rightarrow> sr_icmp_hdr" where
  "dec_icmp bs = \<lparr>icmp_type = bs ! 0, icmp_code = bs ! 1, icmp_sum = dec16 (field bs 2 2)\<rparr>"

abbreviation (input) sizeof_icmp :: nat where "sizeof_icmp \<equiv> 4"

record sr_icmp_t3_hdr =
  t3_icmp_type :: byte
  t3_icmp_code :: byte
  t3_icmp_sum :: u16
  t3_unused :: u16
  t3_next_mtu :: u16
  t3_data :: "byte list"

definition enc_icmp_t3 :: "sr_icmp_t3_hdr \<Rightarrow> byte list" where
  "enc_icmp_t3 h = [t3_icmp_type h] @ [t3_icmp_code h] @ enc16 (t3_icmp_sum h) @
     enc16 (t3_unused h) @ enc16 (t3_next_mtu h) @ t3_data h"

definition dec_icmp_t3 :: "byte list \<Rightarrow> sr_icmp_t3_hdr" where
  "dec_icmp_t3 bs = \<lparr>t3_icmp_type = bs ! 0, t3_icmp_code = bs ! 1,
     t3_icmp_sum = dec16 (field bs 2 2), t3_unused = dec16 (field bs 4 2),
     t3_next_mtu = dec16 (field bs 6 2), t3_data = field bs 8 28\<rparr>"

abbreviation (input) sizeof_icmp_t3 :: nat where "sizeof_icmp_t3 \<equiv> 36"

lemmas layout_enc_defs = enc_eth_def enc_arp_def enc_ip_def enc_icmp_def enc_icmp_t3_def
lemmas layout_dec_defs = dec_eth_def dec_arp_def dec_ip_def dec_icmp_def dec_icmp_t3_def

section \<open>Every header is a struct layout\<close>

lemma length_enc_hdr [simp]:
  "length (enc_eth e) = 14" "length (enc_arp a) = 28" "length (enc_ip p) = 20"
  "length (enc_icmp c) = 4" "length (enc_icmp_t3 t) = 8 + length (t3_data t)"
  by (simp_all add: layout_enc_defs)

lemmas layout_simps =
  field_append field_skip nth_append nth_Cons' enc_dec_mac enc_dec16 enc_dec32

interpretation eth: struct_layout 14 enc_eth dec_eth "\<lambda>_. True"
proof (unfold_locales, goal_cases)
  case (2 x) then show ?case by (simp add: enc_eth_def dec_eth_def field_append)
next
  case (3 bs) then show ?case
    by (simp add: enc_eth_def dec_eth_def enc_dec_mac enc_dec16 field_chain field_all)
qed simp_all

interpretation arp: struct_layout 28 enc_arp dec_arp "\<lambda>_. True"
proof (unfold_locales, goal_cases)
  case (2 x) then show ?case by (simp add: enc_arp_def dec_arp_def layout_simps)
next
  case (3 bs) then show ?case
    by (simp add: enc_arp_def dec_arp_def enc_dec_mac enc_dec16 enc_dec32 field_byte
        field_chain field_all)
qed simp_all

interpretation ip: struct_layout 20 enc_ip dec_ip "\<lambda>_. True"
proof (unfold_locales, goal_cases)
  case (2 x) then show ?case by (simp add: enc_ip_def dec_ip_def layout_simps)
next
  case (3 bs) then show ?case
    by (simp add: enc_ip_def dec_ip_def enc_dec16 enc_dec32 field_byte field_chain field_all)
qed simp_all

interpretation icmp: struct_layout 4 enc_icmp dec_icmp "\<lambda>_. True"
proof (unfold_locales, goal_cases)
  case (2 x) then show ?case by (simp add: enc_icmp_def dec_icmp_def layout_simps)
next
  case (3 bs) then show ?case
    by (simp add: enc_icmp_def dec_icmp_def enc_dec16 field_byte field_chain field_all)
qed simp_all

interpretation icmp_t3: struct_layout 36 enc_icmp_t3 dec_icmp_t3 "\<lambda>h. length (t3_data h) = 28"
proof (unfold_locales, goal_cases)
  case (2 x) then show ?case by (simp add: enc_icmp_t3_def dec_icmp_t3_def layout_simps)
next
  case (3 bs) then show ?case
    by (simp add: enc_icmp_t3_def dec_icmp_t3_def enc_dec16 field_byte field_chain field_all)
qed (simp_all add: dec_icmp_t3_def)

section \<open>Frames as sequences of headers\<close>

text \<open>
  Every long enough block is an Ethernet header followed by an IP or ARP header and a rest, so
  statements about frames can be made over their headers; overlaid accesses then reduce to the
  headers themselves.
\<close>

lemma take_drop_chain: "take a p @ take b (drop a p) @ drop (a + b) p = p"
  by (metis add.commute append_take_drop_id drop_drop)

lemma frame_eth_cases:
  assumes "14 \<le> length p"
  obtains e r where "p = enc_eth e @ r"
proof
  show "p = enc_eth (dec_eth (take 14 p)) @ drop 14 p"
    using assms by (simp add: eth.enc_dec)
qed

lemma frame_ip_cases:
  assumes "34 \<le> length p"
  obtains e h pl where "p = enc_eth e @ enc_ip h @ pl"
proof
  show "p = enc_eth (dec_eth (take 14 p)) @ enc_ip (dec_ip (take 20 (drop 14 p))) @ drop 34 p"
    using assms take_drop_chain [of 14 p 20] by (simp add: eth.enc_dec ip.enc_dec)
qed

lemma frame_arp_cases:
  assumes "42 \<le> length p"
  obtains e h pl where "p = enc_eth e @ enc_arp h @ pl"
proof
  show "p = enc_eth (dec_eth (take 14 p)) @ enc_arp (dec_arp (take 28 (drop 14 p))) @ drop 42 p"
    using assms take_drop_chain [of 14 p 28] by (simp add: eth.enc_dec arp.enc_dec)
qed

lemma icmp_cases:
  assumes "4 \<le> length p"
  obtains i d where "p = enc_icmp i @ d"
proof
  show "p = enc_icmp (dec_icmp (take 4 p)) @ drop 4 p"
    using assms by (simp add: icmp.enc_dec)
qed

lemma rd_frame [simp]:
  "rd_struct 14 dec_eth (enc_eth e @ r) 0 = Inr e"
  "rd_struct 20 dec_ip (enc_eth e @ enc_ip h @ r) 14 = Inr h"
  "rd_struct 28 dec_arp (enc_eth e @ enc_arp a @ r) 14 = Inr a"
  "rd_struct 28 dec_arp (enc_eth e @ enc_arp a) 14 = Inr a"
  by (simp_all add: mslice_def eth.dec_enc ip.dec_enc arp.dec_enc)

lemma wr_frame [simp]:
  "wr_struct enc_eth (enc_eth e @ r) 0 e' = Inr (enc_eth e' @ r)"
  "wr_struct enc_ip (enc_eth e @ enc_ip h @ r) 14 h' = Inr (enc_eth e @ enc_ip h' @ r)"
  "wr_struct enc_icmp (enc_eth e @ enc_ip h @ enc_icmp i @ r) 34 i' =
     Inr (enc_eth e @ enc_ip h @ enc_icmp i' @ r)"
  by (simp_all add: wr_struct_def msplice_def)

lemma frame_parts [simp]:
  "take 14 (enc_eth e @ r) = enc_eth e" "drop 14 (enc_eth e @ r) = r"
  "drop 34 (enc_eth e @ enc_ip h @ r) = r"
  "dec_eth (enc_eth e) = e" "dec_ip (enc_ip h) = h" "dec_arp (enc_arp a) = a"
  by (simp_all add: eth.dec_enc ip.dec_enc arp.dec_enc)

section \<open>Accessors of \<^verbatim>\<open>sr_utils.c\<close>\<close>

definition ethertype :: "byte list \<Rightarrow> u16 res" where
  "ethertype buf = rbind (rd_struct 14 dec_eth buf 0) (\<lambda>ehdr. Inr (ntohs (ether_type ehdr)))"

text \<open>\<^verbatim>\<open>iphdr->ip_p\<close> is the byte at offset 9 of the header.\<close>

definition ip_protocol :: "byte list \<Rightarrow> byte res" where
  "ip_protocol buf = rd8 buf 9"

end
