(* ===== verification/Interfaces.thy ===== *)
theory Interfaces
  imports Protocol
begin

text \<open>
  The router's interface list: \<^verbatim>\<open>struct sr_if\<close> and the operations of \<^verbatim>\<open>sr_if.c\<close>, and the
  lookup by IP address of \<^verbatim>\<open>sr_router.c\<close>. The linked list is the HOL list of its nodes. A node
  that \<^verbatim>\<open>malloc\<close> has just returned holds whatever was in memory; that content is the argument
  \<open>junk\<close> of \<open>sr_add_interface\<close>.
\<close>

section \<open>Data and operations\<close>

record sr_if =
  if_name :: string
  if_addr :: mac
  if_ip :: u32
  if_speed :: u32

fun sr_get_interface :: "sr_if list \<Rightarrow> string \<Rightarrow> sr_if option" where
  "sr_get_interface [] name = None"
| "sr_get_interface (if_walker # rest) name =
     (if strncmp_eq (if_name if_walker) name sr_IFACE_NAMELEN then Some if_walker
      else sr_get_interface rest name)"

fun sr_get_interface_by_ip :: "sr_if list \<Rightarrow> u32 \<Rightarrow> sr_if option" where
  "sr_get_interface_by_ip [] ip = None"
| "sr_get_interface_by_ip (iface # rest) ip =
     (if if_ip iface = ip then Some iface else sr_get_interface_by_ip rest ip)"

fun sr_add_interface :: "sr_if \<Rightarrow> sr_if list \<Rightarrow> string \<Rightarrow> sr_if list" where
  "sr_add_interface junk [] name = [junk\<lparr>if_name := strncpy name sr_IFACE_NAMELEN\<rparr>]"
| "sr_add_interface junk (if_walker # rest) name = if_walker # sr_add_interface junk rest name"

text \<open>The two setters act on the last node and assert that there is one.\<close>

fun sr_set_ether_addr :: "sr_if list \<Rightarrow> mac \<Rightarrow> sr_if list res" where
  "sr_set_ether_addr [] addr = Inl AssertFail"
| "sr_set_ether_addr [if_walker] addr = Inr [if_walker\<lparr>if_addr := addr\<rparr>]"
| "sr_set_ether_addr (if_walker # nxt # rest) addr =
     rbind (sr_set_ether_addr (nxt # rest) addr) (\<lambda>r. Inr (if_walker # r))"

fun sr_set_ether_ip :: "sr_if list \<Rightarrow> u32 \<Rightarrow> sr_if list res" where
  "sr_set_ether_ip [] ip_nbo = Inl AssertFail"
| "sr_set_ether_ip [if_walker] ip_nbo = Inr [if_walker\<lparr>if_ip := ip_nbo\<rparr>]"
| "sr_set_ether_ip (if_walker # nxt # rest) ip_nbo =
     rbind (sr_set_ether_ip (nxt # rest) ip_nbo) (\<lambda>r. Inr (if_walker # r))"

section \<open>Lookup\<close>

interpretation by_name: list_search "\<lambda>name ifs. sr_get_interface ifs name"
  "\<lambda>name i. strncmp_eq (if_name i) name sr_IFACE_NAMELEN"
  by unfold_locales simp_all

interpretation by_ip: list_search "\<lambda>ip ifs. sr_get_interface_by_ip ifs ip" "\<lambda>ip i. if_ip i = ip"
  by unfold_locales simp_all

lemma get_interface_strncpy [simp]:
  "sr_get_interface ifs (strncpy n 32) = sr_get_interface ifs n"
  by (induction ifs) simp_all

lemma get_interface_name:
  "sr_get_interface ifs n = Some i \<Longrightarrow> sr_get_interface ifs (if_name i) = Some i"
proof (induction ifs)
  case (Cons a ifs)
  then show ?case
    using by_name.search_hit [of ifs n i] by (auto simp: strncmp_eq_def split: if_splits)
qed simp

section \<open>Building the list\<close>

lemma sr_add_interface_append:
  "sr_add_interface junk ifs name = ifs @ [junk\<lparr>if_name := strncpy name sr_IFACE_NAMELEN\<rparr>]"
  by (induction ifs) simp_all

lemma sr_set_ether_addr_snoc:
  "sr_set_ether_addr (ifs @ [i]) addr = Inr (ifs @ [i\<lparr>if_addr := addr\<rparr>])"
proof (induction ifs)
  case (Cons x ifs)
  then show ?case by (cases ifs) simp_all
qed simp

lemma sr_set_ether_ip_snoc:
  "sr_set_ether_ip (ifs @ [i]) ip = Inr (ifs @ [i\<lparr>if_ip := ip\<rparr>])"
proof (induction ifs)
  case (Cons x ifs)
  then show ?case by (cases ifs) simp_all
qed simp

text \<open>
  Registering an interface (its name, then its Ethernet and IP address, as the hardware
  information arrives) under a name not in the list keeps every earlier lookup and makes the new
  name resolve to the new addresses, whatever the uninitialised node held.
\<close>

theorem register_interface_lookup:
  assumes "sr_get_interface ifs name = None"
  shows "\<exists>ifs'. rbind (sr_set_ether_addr (sr_add_interface junk ifs name) addr)
             (\<lambda>l. sr_set_ether_ip l ip) = Inr ifs' \<and>
    (\<forall>n. sr_get_interface ifs' n =
       (if strncmp_eq name n sr_IFACE_NAMELEN
        then Some (junk\<lparr>if_name := strncpy name sr_IFACE_NAMELEN, if_addr := addr, if_ip := ip\<rparr>)
        else sr_get_interface ifs n))"
proof -
  let ?i = "junk\<lparr>if_name := strncpy name sr_IFACE_NAMELEN, if_addr := addr, if_ip := ip\<rparr>"
  have none: "sr_get_interface ifs n = None" if "strncmp_eq name n sr_IFACE_NAMELEN" for n
    using assms that by (auto simp: by_name.search_None_iff strncmp_eq_def)
  have "sr_get_interface (ifs @ [?i]) n =
      (if strncmp_eq name n sr_IFACE_NAMELEN then Some ?i else sr_get_interface ifs n)" for n
    using none [of n] by (auto simp: by_name.search_append split: option.splits)
  then show ?thesis
    by (simp add: sr_add_interface_append sr_set_ether_addr_snoc sr_set_ether_ip_snoc)
qed

definition ex_if :: sr_if where
  "ex_if = \<lparr>if_name = ''eth1'', if_addr = MAC 2 0 0 0 0 1, if_ip = 0x0102A8C0, if_speed = 0\<rparr>"

theorem register_interface_lookup_witness:
  "\<exists>ifs'. rbind (sr_set_ether_addr (sr_add_interface ex_if [ex_if] ''eth2'') (MAC 2 0 0 0 0 2))
             (\<lambda>l. sr_set_ether_ip l 0x010340AC) = Inr ifs' \<and>
    sr_get_interface ifs' ''eth1'' = Some ex_if \<and>
    map_option if_ip (sr_get_interface ifs' ''eth2'') = Some 0x010340AC"
proof -
  have "sr_get_interface [ex_if] ''eth2'' = None"
    by (simp add: ex_if_def strncmp_eq_def)
  from register_interface_lookup [OF this, of ex_if "MAC 2 0 0 0 0 2" "0x010340AC"]
  show ?thesis
    by (elim exE conjE) (intro exI conjI, assumption,
        simp_all add: ex_if_def strncmp_eq_def strncpy_def)
qed

end
