(* ===== verification/RoutingTable.thy ===== *)
theory RoutingTable
  imports Interfaces
begin

text \<open>
  The routing table: \<^verbatim>\<open>struct sr_rt\<close> and \<^verbatim>\<open>sr_rt.c\<close> (adding an entry, loading the table
  from a file, printing it), the route lookup \<^verbatim>\<open>lpm_lookup\<close> of \<^verbatim>\<open>sr_router.c\<close> and the
  consistency check \<^verbatim>\<open>sr_verify_routing_table\<close> of \<^verbatim>\<open>sr_main.c\<close>. The C library's
  \<^verbatim>\<open>inet_aton\<close> and \<^verbatim>\<open>inet_ntoa\<close> are parameters of the loader and the printer; addresses are
  in network byte order, as \<^verbatim>\<open>s_addr\<close> holds them.
\<close>

section \<open>Entries, lookup and verification\<close>

record sr_rt =
  rt_dest :: u32
  rt_gw :: u32
  rt_mask :: u32
  rt_interface :: string

fun sr_add_rt_entry :: "sr_rt list \<Rightarrow> u32 \<Rightarrow> u32 \<Rightarrow> u32 \<Rightarrow> string \<Rightarrow> sr_rt list" where
  "sr_add_rt_entry [] dest gw msk name =
     [\<lparr>rt_dest = dest, rt_gw = gw, rt_mask = msk,
       rt_interface = strncpy name sr_IFACE_NAMELEN\<rparr>]"
| "sr_add_rt_entry (rt_walker # rest) dest gw msk name =
     rt_walker # sr_add_rt_entry rest dest gw msk name"

fun lpm_loop :: "sr_rt list \<Rightarrow> u32 \<Rightarrow> sr_rt option \<Rightarrow> u32 \<Rightarrow> sr_rt option" where
  "lpm_loop [] dst_ip best best_mask = best"
| "lpm_loop (rt # rest) dst_ip best best_mask =
     (let msk = rt_mask rt in
      if (dst_ip AND msk) = (rt_dest rt AND msk) then
        if ntohl msk > ntohl best_mask then lpm_loop rest dst_ip (Some rt) msk
        else lpm_loop rest dst_ip best best_mask
      else lpm_loop rest dst_ip best best_mask)"

definition lpm_lookup :: "sr_rt list \<Rightarrow> u32 \<Rightarrow> sr_rt option" where
  "lpm_lookup routing_table dst_ip = lpm_loop routing_table dst_ip None 0"

fun count_missing :: "sr_if list \<Rightarrow> sr_rt list \<Rightarrow> int" where
  "count_missing ifs [] = 0"
| "count_missing ifs (rt_walker # rest) =
     (if sr_get_interface ifs (rt_interface rt_walker) = None then 1 else 0)
       + count_missing ifs rest"

definition sr_verify_routing_table :: "sr_if list \<Rightarrow> sr_rt list \<Rightarrow> int" where
  "sr_verify_routing_table ifs rts =
     (if ifs = [] \<or> rts = [] then 999 else count_missing ifs rts)"

section \<open>Longest prefix match\<close>

definition rt_matches :: "u32 \<Rightarrow> sr_rt \<Rightarrow> bool" where
  "rt_matches dst rt \<longleftrightarrow> (dst AND rt_mask rt) = (rt_dest rt AND rt_mask rt)"

text \<open>The mask as a number in host order, the key the loop maximises.\<close>

definition rt_key :: "sr_rt \<Rightarrow> u32" where
  "rt_key rt = ntohl (rt_mask rt)"

lemma lpm_loop_result:
  "lpm_loop rts dst best bm = Some rt \<Longrightarrow>
     (best = Some rt \<and> (\<forall>r \<in> set rts. rt_matches dst r \<longrightarrow> rt_key r \<le> ntohl bm)) \<or>
     (\<exists>pre post. rts = pre @ rt # post \<and> rt_matches dst rt \<and> ntohl bm < rt_key rt \<and>
        (\<forall>r \<in> set pre. rt_matches dst r \<longrightarrow> rt_key r < rt_key rt) \<and>
        (\<forall>r \<in> set post. rt_matches dst r \<longrightarrow> rt_key r \<le> rt_key rt))"
proof (induction rts arbitrary: best bm)
  case (Cons r rts)
  show ?case
  proof (cases "rt_matches dst r \<and> ntohl bm < rt_key r")
    case True
    then have "lpm_loop rts dst (Some r) (rt_mask r) = Some rt"
      using Cons.prems by (simp add: rt_matches_def rt_key_def)
    from Cons.IH [OF this] show ?thesis
    proof (elim disjE exE conjE)
      assume "Some r = Some rt" "\<forall>x \<in> set rts. rt_matches dst x \<longrightarrow> rt_key x \<le> ntohl (rt_mask r)"
      with True show ?thesis
        by (intro disjI2 exI [of _ "[]"] exI [of _ rts]) (auto simp: rt_key_def)
    next
      fix pre post
      assume "rts = pre @ rt # post" "rt_matches dst rt" "ntohl (rt_mask r) < rt_key rt"
        "\<forall>x \<in> set pre. rt_matches dst x \<longrightarrow> rt_key x < rt_key rt"
        "\<forall>x \<in> set post. rt_matches dst x \<longrightarrow> rt_key x \<le> rt_key rt"
      with True show ?thesis
        by (intro disjI2 exI [of _ "r # pre"] exI [of _ post]) (auto simp: rt_key_def)
    qed
  next
    case False
    then have "lpm_loop rts dst best bm = Some rt"
      using Cons.prems by (auto simp: rt_matches_def rt_key_def Let_def split: if_splits)
    from Cons.IH [OF this] show ?thesis
    proof (elim disjE exE conjE)
      assume "best = Some rt" "\<forall>x \<in> set rts. rt_matches dst x \<longrightarrow> rt_key x \<le> ntohl bm"
      with False show ?thesis by (intro disjI1) auto
    next
      fix pre post
      assume "rts = pre @ rt # post" "rt_matches dst rt" "ntohl bm < rt_key rt"
        "\<forall>x \<in> set pre. rt_matches dst x \<longrightarrow> rt_key x < rt_key rt"
        "\<forall>x \<in> set post. rt_matches dst x \<longrightarrow> rt_key x \<le> rt_key rt"
      with False show ?thesis
        by (intro disjI2 exI [of _ "r # pre"] exI [of _ post]) auto
    qed
  qed
qed simp

lemma lpm_loop_keeps: "best \<noteq> None \<Longrightarrow> lpm_loop rts dst best bm \<noteq> None"
  by (induction rts arbitrary: best bm) (auto simp: Let_def)

lemma lpm_loop_None_iff:
  "lpm_loop rts dst None bm = None \<longleftrightarrow> (\<forall>r \<in> set rts. rt_matches dst r \<longrightarrow> rt_key r \<le> ntohl bm)"
proof (induction rts)
  case (Cons r rts)
  then show ?case
    using lpm_loop_keeps [of "Some r" rts dst "rt_mask r"]
    by (auto simp: Let_def rt_matches_def rt_key_def not_less)
qed simp

text \<open>
  A netmask of \<open>n\<close> leading ones, as a number in host order, and the agreement of two addresses on
  their first \<open>n\<close> bits.
\<close>

definition prefix_mask :: "nat \<Rightarrow> u32" where
  "prefix_mask n = push_bit (32 - n) (mask n)"

definition same_prefix :: "nat \<Rightarrow> u32 \<Rightarrow> u32 \<Rightarrow> bool" where
  "same_prefix n a b \<longleftrightarrow> drop_bit (32 - n) (ntohl a) = drop_bit (32 - n) (ntohl b)"

lemma htonl_and: "htonl (a AND b) = htonl a AND htonl b"
proof (rule bit_word_eqI)
  fix n assume "n < LENGTH(32)"
  then consider "n < 8" | "8 \<le> n" "n < 16" | "16 \<le> n" "n < 24" | "24 \<le> n" "n < 32"
    by fastforce
  then show "bit (htonl (a AND b)) n = bit (htonl a AND htonl b) n"
    by cases (auto simp: word_layout_defs bit_simps)
qed

lemma bit_prefix_mask: "n \<le> 32 \<Longrightarrow> bit (prefix_mask n) i \<longleftrightarrow> 32 - n \<le> i \<and> i < 32"
  by (auto simp: prefix_mask_def bit_simps)

lemma and_prefix_mask_eq_iff:
  assumes "n \<le> 32"
  shows "(x AND prefix_mask n) = (y AND prefix_mask n) \<longleftrightarrow>
    drop_bit (32 - n) x = drop_bit (32 - n) (y :: u32)"
proof
  assume eq: "(x AND prefix_mask n) = (y AND prefix_mask n)"
  have agree: "bit x i = bit y i" if "32 - n \<le> i" "i < 32" for i
  proof -
    from eq have "bit (x AND prefix_mask n) i = bit (y AND prefix_mask n) i" by simp
    with that show ?thesis by (simp add: bit_and_iff bit_prefix_mask [OF assms])
  qed
  show "drop_bit (32 - n) x = drop_bit (32 - n) y"
  proof (rule bit_word_eqI)
    fix i
    show "bit (drop_bit (32 - n) x) i = bit (drop_bit (32 - n) y) i"
    proof (cases "32 - n + i < 32")
      case True
      then show ?thesis using agree [of "32 - n + i"] by (simp add: bit_drop_bit_eq)
    next
      case False
      then have "\<not> bit x (32 - n + i)" "\<not> bit y (32 - n + i)"
        using bit_imp_le_length [of x "32 - n + i"] bit_imp_le_length [of y "32 - n + i"] by auto
      then show ?thesis by (simp add: bit_drop_bit_eq)
    qed
  qed
next
  assume eq: "drop_bit (32 - n) x = drop_bit (32 - n) y"
  have agree: "bit x i = bit y i" if "32 - n \<le> i" for i
  proof -
    from eq have "bit (drop_bit (32 - n) x) (i - (32 - n)) = bit (drop_bit (32 - n) y) (i - (32 - n))"
      by simp
    with that show ?thesis by (simp add: bit_drop_bit_eq)
  qed
  show "(x AND prefix_mask n) = (y AND prefix_mask n)"
  proof (rule bit_word_eqI)
    fix i
    show "bit (x AND prefix_mask n) i = bit (y AND prefix_mask n) i"
      using agree [of i] by (auto simp: bit_and_iff bit_prefix_mask [OF assms])
  qed
qed

lemma prefix_mask_mono:
  assumes "m < n" "n \<le> 32"
  shows "prefix_mask m < prefix_mask n"
proof (rule less_le_trans)
  have "prefix_mask m = prefix_mask n AND prefix_mask m"
    using assms by (intro bit_word_eqI) (auto simp: bit_simps bit_prefix_mask)
  then have "prefix_mask m \<le> prefix_mask n" by (metis word_and_le2)
  moreover have "prefix_mask m \<noteq> prefix_mask n"
    using assms bit_prefix_mask [of m "32 - n"] bit_prefix_mask [of n "32 - n"] by force
  ultimately show "prefix_mask m < prefix_mask n" by simp
qed simp

text \<open>A table whose masks are contiguous, with \<open>plen\<close> giving each entry's prefix length.\<close>

definition cidr_table :: "(sr_rt \<Rightarrow> nat) \<Rightarrow> sr_rt list \<Rightarrow> bool" where
  "cidr_table plen rts \<longleftrightarrow>
     (\<forall>r \<in> set rts. plen r \<le> 32 \<and> rt_mask r = htonl (prefix_mask (plen r)))"

lemma rt_matches_cidr:
  assumes "cidr_table plen rts" "r \<in> set rts"
  shows "rt_matches dst r \<longleftrightarrow> same_prefix (plen r) dst (rt_dest r)"
proof -
  have r: "plen r \<le> 32" "rt_mask r = htonl (prefix_mask (plen r))"
    using assms by (auto simp: cidr_table_def)
  have "rt_matches dst r \<longleftrightarrow> htonl (dst AND rt_mask r) = htonl (rt_dest r AND rt_mask r)"
    by (simp add: rt_matches_def)
  then show ?thesis
    using r by (simp add: htonl_and and_prefix_mask_eq_iff same_prefix_def)
qed

lemma rt_key_cidr:
  assumes "cidr_table plen rts" "r \<in> set rts" "q \<in> set rts" "rt_key r \<le> rt_key q"
  shows "plen r \<le> plen q"
  using assms prefix_mask_mono [of "plen q" "plen r"]
  by (auto simp: cidr_table_def rt_key_def not_less [symmetric])

text \<open>
  The route that \<open>lpm_lookup\<close> returns is in the table, matches the destination, and has the
  numerically greatest mask of all matching entries, the first of them where several have it.
\<close>

lemma lpm_lookup_best:
  assumes "lpm_lookup rts dst = Some rt"
  shows "\<exists>pre post. rts = pre @ rt # post \<and> rt_matches dst rt \<and>
    (\<forall>r \<in> set pre. rt_matches dst r \<longrightarrow> rt_key r < rt_key rt) \<and>
    (\<forall>r \<in> set post. rt_matches dst r \<longrightarrow> rt_key r \<le> rt_key rt)"
  using lpm_loop_result [of rts dst None 0 rt] assms
  by (auto simp: lpm_lookup_def)

lemma lpm_lookup_None_iff:
  "lpm_lookup rts dst = None \<longleftrightarrow> (\<forall>r \<in> set rts. rt_matches dst r \<longrightarrow> rt_mask r = 0)"
  by (simp add: lpm_lookup_def lpm_loop_None_iff rt_key_def)

lemma mask_zero_cidr:
  assumes "cidr_table plen rts" "r \<in> set rts"
  shows "rt_mask r = 0 \<longleftrightarrow> plen r = 0"
proof -
  have "prefix_mask n = 0 \<longleftrightarrow> n = 0" if "n \<le> 32" for n
    using that prefix_mask_mono [of 0 n] by (cases n) (auto simp: prefix_mask_def)
  with assms show ?thesis by (auto simp: cidr_table_def)
qed

lemma lpm_lookup_Some:
  assumes "lpm_lookup rts dst = Some rt"
  shows "rt \<in> set rts" "rt_matches dst rt" "\<forall>r \<in> set rts. rt_matches dst r \<longrightarrow> rt_key r \<le> rt_key rt"
    "rt_mask rt \<noteq> 0"
proof -
  from lpm_lookup_best [OF assms] obtain pre post where
    rts: "rts = pre @ rt # post" "rt_matches dst rt"
    and best: "\<forall>r \<in> set pre. rt_matches dst r \<longrightarrow> rt_key r < rt_key rt"
      "\<forall>r \<in> set post. rt_matches dst r \<longrightarrow> rt_key r \<le> rt_key rt" by blast
  then show "rt \<in> set rts" "rt_matches dst rt" "\<forall>r \<in> set rts. rt_matches dst r \<longrightarrow> rt_key r \<le> rt_key rt"
    by auto
  obtain r where "r \<in> set rts" "rt_matches dst r" "rt_mask r \<noteq> 0"
    using assms lpm_lookup_None_iff [of rts dst] by auto
  moreover from this have "rt_key r \<le> rt_key rt" using rts(1) best by auto
  ultimately show "rt_mask rt \<noteq> 0" by (auto simp: rt_key_def)
qed

text \<open>
  Claim C24: on a table of contiguous netmasks, \<open>lpm_lookup\<close> is a longest-prefix match, except that it
  does not know default routes. A returned entry agrees with the destination on its prefix, which is
  not empty, and no entry with a longer prefix does. No entry is returned exactly when every entry
  that agrees with the destination has the empty prefix: a default route, which agrees with
  every destination, is never selected.
\<close>

theorem lpm_lookup_longest_prefix:
  assumes "cidr_table plen rts"
  shows "case lpm_lookup rts dst of
      Some rt \<Rightarrow> rt \<in> set rts \<and> same_prefix (plen rt) dst (rt_dest rt) \<and> 0 < plen rt \<and>
        (\<forall>r \<in> set rts. same_prefix (plen r) dst (rt_dest r) \<longrightarrow> plen r \<le> plen rt)
    | None \<Rightarrow> \<forall>r \<in> set rts. same_prefix (plen r) dst (rt_dest r) \<longrightarrow> plen r = 0"
proof (cases "lpm_lookup rts dst")
  case None
  then show ?thesis
    using lpm_lookup_None_iff [of rts dst] rt_matches_cidr [OF assms] mask_zero_cidr [OF assms] by auto
next
  case (Some rt)
  note best = lpm_lookup_Some [OF Some]
  have "same_prefix (plen rt) dst (rt_dest rt)" using best(1,2) rt_matches_cidr [OF assms] by blast
  moreover have "0 < plen rt" using best(1,4) mask_zero_cidr [OF assms] by auto
  moreover have "\<forall>r \<in> set rts. same_prefix (plen r) dst (rt_dest r) \<longrightarrow> plen r \<le> plen rt"
    using best(1,3) rt_matches_cidr [OF assms] rt_key_cidr [OF assms] by blast
  ultimately show ?thesis using Some best(1) by simp
qed

section \<open>Verification against the hardware\<close>

lemma count_missing_nonneg: "0 \<le> count_missing ifs rts"
  by (induction rts) auto

lemma count_missing_eq_0_iff:
  "count_missing ifs rts = 0 \<longleftrightarrow> (\<forall>r \<in> set rts. sr_get_interface ifs (rt_interface r) \<noteq> None)"
proof (induction rts)
  case (Cons r rts)
  then show ?case using count_missing_nonneg [of ifs rts] by auto
qed simp

lemma verify_zero_iff:
  "sr_verify_routing_table ifs rts = 0 \<longleftrightarrow> rts \<noteq> [] \<and> (\<forall>r \<in> set rts. sr_get_interface ifs (rt_interface r) \<noteq> None)"
  by (cases rts; cases ifs) (auto simp: sr_verify_routing_table_def count_missing_eq_0_iff simp del: count_missing.simps)

text \<open>
  \<open>sr_verify_routing_table\<close> succeeds exactly when both lists are non-empty and every
  interface that the routing table names exists, so after it succeeds every route that the lookup
  can return leads to an interface.
\<close>

theorem verify_routing_table_sound:
  "(sr_verify_routing_table ifs rts = 0 \<longleftrightarrow>
      ifs \<noteq> [] \<and> rts \<noteq> [] \<and> (\<forall>r \<in> set rts. sr_get_interface ifs (rt_interface r) \<noteq> None)) \<and>
   (sr_verify_routing_table ifs rts = 0 \<longrightarrow> lpm_lookup rts dst = Some rt \<longrightarrow>
      sr_get_interface ifs (rt_interface rt) \<noteq> None)"
proof -
  have "rt \<in> set rts" if "lpm_lookup rts dst = Some rt"
    using lpm_loop_result [of rts dst None 0 rt] that by (auto simp: lpm_lookup_def)
  then show ?thesis
    by (auto simp: sr_verify_routing_table_def count_missing_eq_0_iff)
qed

section \<open>Examples\<close>

text \<open>
  The repository's \<^verbatim>\<open>rtable\<close>, in network byte order, and the default route of the starter
  documentation.
\<close>

definition ex_rtable :: "sr_rt list" where
  "ex_rtable =
     [\<lparr>rt_dest = htonl 0x0A000164, rt_gw = htonl 0x0A000164, rt_mask = 0xFFFFFFFF,
       rt_interface = ''eth3''\<rparr>,
      \<lparr>rt_dest = htonl 0xC0A80202, rt_gw = htonl 0xC0A80202, rt_mask = 0xFFFFFFFF,
       rt_interface = ''eth1''\<rparr>,
      \<lparr>rt_dest = htonl 0xAC40030A, rt_gw = htonl 0xAC40030A, rt_mask = 0xFFFFFFFF,
       rt_interface = ''eth2''\<rparr>]"

definition ex_default_route :: sr_rt where
  "ex_default_route =
     \<lparr>rt_dest = 0, rt_gw = htonl 0x0A000101, rt_mask = 0, rt_interface = ''eth3''\<rparr>"

lemma ex_rtable_lookup:
  "lpm_lookup ex_rtable (htonl 0xC0A80202) = Some (ex_rtable ! 1)"
  by (simp add: lpm_lookup_def ex_rtable_def byte_simps)

theorem lpm_lookup_best_witness:
  "\<exists>pre post. ex_rtable = pre @ ex_rtable ! 1 # post \<and>
    rt_matches (htonl 0xC0A80202) (ex_rtable ! 1) \<and>
    (\<forall>r \<in> set pre. rt_matches (htonl 0xC0A80202) r \<longrightarrow> rt_key r < rt_key (ex_rtable ! 1)) \<and>
    (\<forall>r \<in> set post. rt_matches (htonl 0xC0A80202) r \<longrightarrow> rt_key r \<le> rt_key (ex_rtable ! 1))"
  by (rule lpm_lookup_best [OF ex_rtable_lookup])

theorem lpm_lookup_longest_prefix_witness:
  "same_prefix 32 (htonl 0xC0A80202) (rt_dest (ex_rtable ! 1)) \<and>
   lpm_lookup [ex_default_route] (htonl 0x01020304) = None"
proof -
  have "(0xFFFFFFFF :: u32) = htonl (prefix_mask 32)"
    by (simp add: prefix_mask_def mask_eq_exp_minus_1 byte_simps)
  then have "cidr_table (\<lambda>_. 32) ex_rtable"
    by (simp add: cidr_table_def ex_rtable_def)
  from lpm_lookup_longest_prefix [OF this, of "htonl 0xC0A80202"]
  have "same_prefix 32 (htonl 0xC0A80202) (rt_dest (ex_rtable ! 1))" by (simp add: ex_rtable_lookup)
  moreover have "cidr_table (\<lambda>_. 0) [ex_default_route]"
    by (simp add: cidr_table_def ex_default_route_def prefix_mask_def)
  from lpm_lookup_longest_prefix [OF this, of "htonl 0x01020304"]
  have "lpm_lookup [ex_default_route] (htonl 0x01020304) = None" by (auto split: option.splits)
  ultimately show ?thesis by simp
qed

theorem verify_routing_table_sound_witness:
  "sr_verify_routing_table [ex_if] [ex_rtable ! 1] = 0"
  using verify_routing_table_sound [of "[ex_if]" "[ex_rtable ! 1]"]
  by (simp add: ex_if_def ex_rtable_def strncmp_eq_def)

end
