(* ===== verification/ArpCache.thy ===== *)
theory ArpCache
  imports Interfaces
begin

text \<open>
  The ARP cache and its request queue: the structs of \<^verbatim>\<open>sr_arpcache.h\<close> and the operations of
  \<^verbatim>\<open>sr_arpcache.c\<close> that act on the cache alone (lookup, queueing, insertion, destruction,
  initialisation, expiry of entries). The request list is the HOL list of its nodes; because the
  code compares and keeps pointers to requests, each node carries the address \<^verbatim>\<open>calloc\<close> gave it
  (\<open>rq_addr\<close>), and \<open>next_addr\<close> is the next address to be handed out. A pointer is dereferenced by
  looking its address up among the live nodes; a request that is no longer live is a dangling
  pointer. The mutex has no effect within one thread and is not part of the state.

  The locale \<open>arp_interface\<close> states what the router relies on: what a lookup returns after an
  insertion, and that the packets waiting for an address are exactly the ones queued for it since
  its last insertion.
\<close>

section \<open>Data\<close>

record sr_packet =
  pk_buf :: "byte list"
  pk_len :: nat
  pk_iface :: string

record sr_arpentry =
  ae_mac :: mac
  ae_ip :: u32
  ae_added :: int
  ae_valid :: bool

record sr_arpreq =
  rq_addr :: nat
  rq_ip :: u32
  rq_sent :: int
  rq_times_sent :: u32
  rq_packets :: "sr_packet list"

record sr_arpcache =
  entries :: "sr_arpentry list"
  requests :: "sr_arpreq list"
  next_addr :: nat

abbreviation (input) SR_ARPCACHE_SZ :: nat where "SR_ARPCACHE_SZ \<equiv> 100"
abbreviation (input) SR_ARPCACHE_TO :: int where "SR_ARPCACHE_TO \<equiv> 15"

section \<open>Operations\<close>

text \<open>The loop does not stop at a match, so the last matching entry is returned.\<close>

fun arp_scan :: "sr_arpentry list \<Rightarrow> u32 \<Rightarrow> sr_arpentry option \<Rightarrow> sr_arpentry option" where
  "arp_scan [] ip entry = entry"
| "arp_scan (e # es) ip entry =
     arp_scan es ip (if ae_valid e \<and> ae_ip e = ip then Some e else entry)"

definition sr_arpcache_lookup :: "sr_arpcache \<Rightarrow> u32 \<Rightarrow> sr_arpentry option" where
  "sr_arpcache_lookup c ip = arp_scan (entries c) ip None"

fun find_req :: "u32 \<Rightarrow> sr_arpreq list \<Rightarrow> sr_arpreq option" where
  "find_req ip [] = None"
| "find_req ip (req # rest) = (if rq_ip req = ip then Some req else find_req ip rest)"

fun deref_req :: "nat \<Rightarrow> sr_arpreq list \<Rightarrow> sr_arpreq option" where
  "deref_req a [] = None"
| "deref_req a (req # rest) = (if rq_addr req = a then Some req else deref_req a rest)"

definition upd_req :: "nat \<Rightarrow> (sr_arpreq \<Rightarrow> sr_arpreq) \<Rightarrow> sr_arpcache \<Rightarrow> sr_arpcache" where
  "upd_req a f c = c\<lparr>requests := map (\<lambda>r. if rq_addr r = a then f r else r) (requests c)\<rparr>"

text \<open>
  \<^verbatim>\<open>sr_arpcache_queuereq\<close>: the request for \<open>ip\<close>, allocated at the head of the list when there is
  none, and the packet, copied, at the head of its packet list. The result is the address of the
  request.
\<close>

definition get_or_alloc_req :: "sr_arpcache \<Rightarrow> u32 \<Rightarrow> nat \<times> sr_arpcache" where
  "get_or_alloc_req c ip =
     (case find_req ip (requests c) of
        Some req \<Rightarrow> (rq_addr req, c)
      | None \<Rightarrow>
          (next_addr c,
           c\<lparr>requests := \<lparr>rq_addr = next_addr c, rq_ip = ip, rq_sent = 0, rq_times_sent = 0,
                         rq_packets = []\<rparr> # requests c,
             next_addr := Suc (next_addr c)\<rparr>))"

definition sr_arpcache_queuereq ::
    "sr_arpcache \<Rightarrow> u32 \<Rightarrow> byte list \<Rightarrow> nat \<Rightarrow> string \<Rightarrow> (nat \<times> sr_arpcache) res" where
  "sr_arpcache_queuereq c ip packet packet_len iface =
     (case get_or_alloc_req c ip of (a, c1) \<Rightarrow>
        if packet_len \<noteq> 0 then
          rbind (rd_bytes packet 0 packet_len) (\<lambda>buf.
            Inr (a, upd_req a (\<lambda>r. r\<lparr>rq_packets :=
                   \<lparr>pk_buf = buf, pk_len = packet_len,
                    pk_iface = strncpy iface sr_IFACE_NAMELEN\<rparr> # rq_packets r\<rparr>) c1))
        else Inr (a, c1))"

fun unlink_ip :: "u32 \<Rightarrow> sr_arpreq list \<Rightarrow> sr_arpreq option \<times> sr_arpreq list" where
  "unlink_ip ip [] = (None, [])"
| "unlink_ip ip (req # rest) =
     (if rq_ip req = ip then (Some req, rest)
      else case unlink_ip ip rest of (r, rest') \<Rightarrow> (r, req # rest'))"

fun first_free :: "sr_arpentry list \<Rightarrow> nat" where
  "first_free [] = 0"
| "first_free (e # es) = (if \<not> ae_valid e then 0 else Suc (first_free es))"

definition sr_arpcache_insert ::
    "sr_arpcache \<Rightarrow> mac \<Rightarrow> u32 \<Rightarrow> int \<Rightarrow> sr_arpreq option \<times> sr_arpcache" where
  "sr_arpcache_insert c m ip now =
     (case unlink_ip ip (requests c) of (req, reqs) \<Rightarrow>
        let i = first_free (entries c) in
        (req, c\<lparr>requests := reqs,
               entries := (if i \<noteq> length (entries c)
                           then (entries c)[i := \<lparr>ae_mac = m, ae_ip = ip, ae_added = now,
                                                  ae_valid = True\<rparr>]
                           else entries c)\<rparr>))"

fun unlink_addr :: "nat \<Rightarrow> sr_arpreq list \<Rightarrow> sr_arpreq list" where
  "unlink_addr a [] = []"
| "unlink_addr a (req # rest) = (if rq_addr req = a then rest else req # unlink_addr a rest)"

definition sr_arpreq_destroy :: "sr_arpcache \<Rightarrow> nat \<Rightarrow> sr_arpcache" where
  "sr_arpreq_destroy c a = c\<lparr>requests := unlink_addr a (requests c)\<rparr>"

definition sr_arpcache_init :: "sr_arpcache \<Rightarrow> sr_arpcache" where
  "sr_arpcache_init c =
     c\<lparr>entries := replicate SR_ARPCACHE_SZ
                   \<lparr>ae_mac = MAC 0 0 0 0 0 0, ae_ip = 0, ae_added = 0, ae_valid = False\<rparr>,
       requests := []\<rparr>"

text \<open>The first half of one round of \<^verbatim>\<open>sr_arpcache_timeout\<close>: expiry of old entries.\<close>

definition expire_entry :: "int \<Rightarrow> sr_arpentry \<Rightarrow> sr_arpentry" where
  "expire_entry curtime e =
     (if ae_valid e \<and> curtime - ae_added e > SR_ARPCACHE_TO then e\<lparr>ae_valid := False\<rparr> else e)"

definition arpcache_expire :: "int \<Rightarrow> sr_arpcache \<Rightarrow> sr_arpcache" where
  "arpcache_expire curtime c = c\<lparr>entries := map (expire_entry curtime) (entries c)\<rparr>"

section \<open>Well-formedness\<close>

definition arpcache_wf :: "sr_arpcache \<Rightarrow> bool" where
  "arpcache_wf c \<longleftrightarrow> length (entries c) = SR_ARPCACHE_SZ \<and>
     distinct (map rq_ip (requests c)) \<and> distinct (map rq_addr (requests c)) \<and>
     (\<forall>r \<in> set (requests c). rq_addr r < next_addr c)"

interpretation req_by_ip: list_search find_req "\<lambda>ip r. rq_ip r = ip"
  by unfold_locales simp_all

interpretation req_by_addr: list_search deref_req "\<lambda>a r. rq_addr r = a"
  by unfold_locales simp_all

lemma find_req_None_iff: "find_req ip rs = None \<longleftrightarrow> ip \<notin> rq_ip ` set rs"
  by (auto simp: req_by_ip.search_None_iff)

lemma unlink_ip_fst: "fst (unlink_ip ip rs) = find_req ip rs"
  by (induction rs) (auto split: prod.splits)

lemma unlink_ip_snd:
  "distinct (map rq_ip rs) \<Longrightarrow> snd (unlink_ip ip rs) = filter (\<lambda>r. rq_ip r \<noteq> ip) rs"
proof (induction rs)
  case (Cons r rs)
  have "filter (\<lambda>q. rq_ip q \<noteq> ip) rs = rs" if "ip \<notin> rq_ip ` set rs"
    using that by (intro filter_True) auto
  with Cons show ?case by (auto split: prod.splits)
qed simp

lemma unlink_ip_eq:
  "distinct (map rq_ip rs) \<Longrightarrow>
     unlink_ip ip rs = (find_req ip rs, filter (\<lambda>r. rq_ip r \<noteq> ip) rs)"
  by (metis prod.collapse unlink_ip_fst unlink_ip_snd)

lemma unlink_addr_eq:
  "distinct (map rq_addr rs) \<Longrightarrow> unlink_addr a rs = filter (\<lambda>r. rq_addr r \<noteq> a) rs"
proof (induction rs)
  case (Cons r rs)
  have "filter (\<lambda>q. rq_addr q \<noteq> a) rs = rs" if "a \<notin> rq_addr ` set rs"
    using that by (intro filter_True) auto
  with Cons show ?case by auto
qed simp

lemma distinct_map_filter_req: "distinct (map f rs) \<Longrightarrow> distinct (map f (filter P rs))"
  by (rule distinct_map_filter)

lemma map_upd_req [simp]:
  assumes "\<And>r. rq_ip (f r) = rq_ip r" "\<And>r. rq_addr (f r) = rq_addr r"
  shows "map rq_ip (requests (upd_req a f c)) = map rq_ip (requests c)"
    and "map rq_addr (requests (upd_req a f c)) = map rq_addr (requests c)"
    and "next_addr (upd_req a f c) = next_addr c"
    and "entries (upd_req a f c) = entries c"
  using assms by (simp_all add: upd_req_def comp_def if_distrib [of rq_ip] if_distrib [of rq_addr]
      cong: if_cong)

lemma arpcache_wf_iff:
  "arpcache_wf c \<longleftrightarrow> length (entries c) = SR_ARPCACHE_SZ \<and>
     distinct (map rq_ip (requests c)) \<and> distinct (map rq_addr (requests c)) \<and>
     (\<forall>a \<in> set (map rq_addr (requests c)). a < next_addr c)"
  by (auto simp: arpcache_wf_def)

lemma wf_upd_req:
  assumes "arpcache_wf c" "\<And>r. rq_ip (f r) = rq_ip r" "\<And>r. rq_addr (f r) = rq_addr r"
  shows "arpcache_wf (upd_req a f c)"
  using assms(1) by (simp only: arpcache_wf_iff map_upd_req [OF assms(2,3)]) blast

lemma wf_destroy: "arpcache_wf c \<Longrightarrow> arpcache_wf (sr_arpreq_destroy c a)"
  by (auto simp: arpcache_wf_def sr_arpreq_destroy_def unlink_addr_eq intro: distinct_map_filter)

lemma wf_insert: "arpcache_wf c \<Longrightarrow> arpcache_wf (snd (sr_arpcache_insert c m ip now))"
  by (auto simp: arpcache_wf_def sr_arpcache_insert_def unlink_ip_eq Let_def
      intro: distinct_map_filter)

lemma wf_init: "arpcache_wf (sr_arpcache_init c)"
  by (simp add: arpcache_wf_def sr_arpcache_init_def)

lemma wf_expire: "arpcache_wf c \<Longrightarrow> arpcache_wf (arpcache_expire now c)"
  by (simp add: arpcache_wf_def arpcache_expire_def)

lemma wf_get_or_alloc: "arpcache_wf c \<Longrightarrow> arpcache_wf (snd (get_or_alloc_req c ip))"
  by (auto simp: arpcache_wf_def get_or_alloc_req_def find_req_None_iff less_Suc_eq
      split: option.splits)

lemma deref_unique:
  "distinct (map rq_addr rs) \<Longrightarrow> r \<in> set rs \<Longrightarrow> deref_req (rq_addr r) rs = Some r"
  by (auto simp: distinct_map intro!: req_by_addr.search_unique dest: inj_onD)

lemma find_unique: "distinct (map rq_ip rs) \<Longrightarrow> r \<in> set rs \<Longrightarrow> find_req (rq_ip r) rs = Some r"
  by (auto simp: distinct_map intro!: req_by_ip.search_unique dest: inj_onD)

text \<open>The address that \<open>get_or_alloc_req\<close> returns is that of the request for \<open>ip\<close>.\<close>

lemma get_or_alloc_spec:
  assumes "arpcache_wf c" "get_or_alloc_req c ip = (a, c1)"
  shows "\<exists>r. find_req ip (requests c1) = Some r \<and> rq_addr r = a \<and> deref_req a (requests c1) = Some r \<and>
    rq_packets r = (case find_req ip (requests c) of None \<Rightarrow> [] | Some r \<Rightarrow> rq_packets r) \<and>
    (\<forall>ip'. ip' \<noteq> ip \<longrightarrow> find_req ip' (requests c1) = find_req ip' (requests c)) \<and>
    entries c1 = entries c"
proof (cases "find_req ip (requests c)")
  case None
  with assms(2) show ?thesis by (auto simp: get_or_alloc_req_def)
next
  case (Some r)
  with assms(2) have c1: "c1 = c" "a = rq_addr r" by (auto simp: get_or_alloc_req_def)
  from Some have "r \<in> set (requests c)" by (auto dest: req_by_ip.search_hit)
  with assms(1) have "deref_req (rq_addr r) (requests c) = Some r"
    by (intro deref_unique) (simp_all add: arpcache_wf_def)
  with Some c1 show ?thesis by simp
qed

lemma find_upd_req:
  assumes "\<And>r. rq_ip (f r) = rq_ip r"
  shows "find_req ip (requests (upd_req a f c)) =
    map_option (\<lambda>r. if rq_addr r = a then f r else r) (find_req ip (requests c))"
proof -
  have "find_req ip (map (\<lambda>r. if rq_addr r = a then f r else r) rs) =
      map_option (\<lambda>r. if rq_addr r = a then f r else r) (find_req ip rs)" for rs
    by (induction rs) (auto simp: assms)
  then show ?thesis by (simp add: upd_req_def)
qed

lemma deref_upd_req:
  assumes "\<And>r. rq_addr (f r) = rq_addr r"
  shows "deref_req b (requests (upd_req a f c)) =
    map_option (\<lambda>r. if rq_addr r = a then f r else r) (deref_req b (requests c))"
proof -
  have "deref_req b (map (\<lambda>r. if rq_addr r = a then f r else r) rs) =
      map_option (\<lambda>r. if rq_addr r = a then f r else r) (deref_req b rs)" for rs
    by (induction rs) (auto simp: assms)
  then show ?thesis by (simp add: upd_req_def)
qed

section \<open>Entries\<close>

lemma arp_scan_eq:
  "arp_scan es ip e =
     (let ms = filter (\<lambda>e. ae_valid e \<and> ae_ip e = ip) es in if ms = [] then e else Some (last ms))"
  by (induction es arbitrary: e) (auto simp: Let_def)

lemma lookup_None_iff:
  "sr_arpcache_lookup c ip = None \<longleftrightarrow> (\<forall>e \<in> set (entries c). ae_valid e \<longrightarrow> ae_ip e \<noteq> ip)"
  by (auto simp: sr_arpcache_lookup_def arp_scan_eq Let_def filter_empty_conv)

lemma lookup_SomeD:
  assumes "sr_arpcache_lookup c ip = Some e"
  shows "e \<in> set (entries c) \<and> ae_valid e \<and> ae_ip e = ip"
proof -
  let ?ms = "filter (\<lambda>e. ae_valid e \<and> ae_ip e = ip) (entries c)"
  from assms have "?ms \<noteq> []" "e = last ?ms"
    by (auto simp: sr_arpcache_lookup_def arp_scan_eq Let_def split: if_splits)
  then have "e \<in> set ?ms" using last_in_set by metis
  then show ?thesis by (simp only: set_filter) blast
qed

lemma first_free_le: "first_free es \<le> length es"
  by (induction es) auto

lemma first_free_split:
  assumes "first_free es < length es"
  shows "\<exists>pre x post. es = pre @ x # post \<and> \<not> ae_valid x \<and> length pre = first_free es"
  using assms
proof (induction es)
  case (Cons e es)
  show ?case
  proof (cases "ae_valid e")
    case True
    with Cons obtain pre x post where
      "es = pre @ x # post" "\<not> ae_valid x" "length pre = first_free es" by auto
    with True show ?thesis by (intro exI [of _ "e # pre"] exI [of _ x] exI [of _ post]) simp
  next
    case False
    then show ?thesis by (intro exI [of _ "[]"] exI [of _ e] exI [of _ es]) simp
  qed
qed simp

definition has_room :: "sr_arpcache \<Rightarrow> bool" where
  "has_room c \<longleftrightarrow> first_free (entries c) < length (entries c)"

lemma lookup_insert:
  "sr_arpcache_lookup (snd (sr_arpcache_insert c m ip now)) ip' =
     (if ip' = ip \<and> has_room c \<and>
         (\<forall>e \<in> set (drop (Suc (first_free (entries c))) (entries c)). ae_valid e \<longrightarrow> ae_ip e \<noteq> ip)
      then Some \<lparr>ae_mac = m, ae_ip = ip, ae_added = now, ae_valid = True\<rparr>
      else sr_arpcache_lookup c ip')"
proof (cases "has_room c")
  case True
  then obtain pre x post where es: "entries c = pre @ x # post" "\<not> ae_valid x"
      "length pre = first_free (entries c)"
    using first_free_split unfolding has_room_def by blast
  let ?n = "\<lparr>ae_mac = m, ae_ip = ip, ae_added = now, ae_valid = True\<rparr>"
  let ?P = "\<lambda>e. ae_valid e \<and> ae_ip e = ip'"
  have "entries (snd (sr_arpcache_insert c m ip now)) = pre @ ?n # post"
    using True es(3) by (simp add: sr_arpcache_insert_def has_room_def Let_def es(1)
        list_update_append split: prod.splits)
  moreover have dr: "drop (Suc (first_free (entries c))) (entries c) = post"
    unfolding es(3) [symmetric] by (simp add: es(1))
  moreover have "filter ?P post = [] \<longleftrightarrow> (\<forall>e \<in> set post. ae_valid e \<longrightarrow> ae_ip e \<noteq> ip')"
    by (auto simp: filter_empty_conv)
  ultimately show ?thesis
    unfolding dr using True es(1,2)
    by (auto simp: sr_arpcache_lookup_def arp_scan_eq Let_def)
next
  case False
  then have "first_free (entries c) = length (entries c)"
    using first_free_le [of "entries c"] by (simp add: has_room_def)
  with False show ?thesis
    by (simp add: sr_arpcache_insert_def sr_arpcache_lookup_def split: prod.splits)
qed

section \<open>The interface the router relies on\<close>

locale arp_interface =
  fixes lookup :: "'c \<Rightarrow> u32 \<Rightarrow> mac option"
    and pending :: "'c \<Rightarrow> u32 \<Rightarrow> sr_packet list"
    and insert :: "'c \<Rightarrow> mac \<Rightarrow> u32 \<Rightarrow> int \<Rightarrow> 'c"
    and queue :: "u32 \<Rightarrow> sr_packet \<Rightarrow> 'c \<Rightarrow> 'c"
    and room :: "'c \<Rightarrow> bool"
    and inv :: "'c \<Rightarrow> bool"
    and ok :: "sr_packet \<Rightarrow> bool"
  assumes inv_insert: "inv c \<Longrightarrow> inv (insert c m ip t)"
    and inv_queue: "inv c \<Longrightarrow> ok p \<Longrightarrow> inv (queue ip p c)"
    and lookup_insert: "inv c \<Longrightarrow> room c \<Longrightarrow> lookup c ip = None \<Longrightarrow>
      lookup (insert c m ip t) ip' = (if ip' = ip then Some m else lookup c ip')"
    and room_queue: "inv c \<Longrightarrow> ok p \<Longrightarrow> room (queue ip p c) = room c"
    and lookup_queue: "inv c \<Longrightarrow> ok p \<Longrightarrow> lookup (queue ip p c) = lookup c"
    and pending_queue: "inv c \<Longrightarrow> ok p \<Longrightarrow>
      pending (queue ip p c) ip' = (if ip' = ip then p # pending c ip' else pending c ip')"
    and pending_insert: "inv c \<Longrightarrow>
      pending (insert c m ip t) ip' = (if ip' = ip then [] else pending c ip')"
begin

lemma queue_all:
  assumes "inv c" "list_all ok ps"
  shows "inv (fold (queue ip) ps c)" "room (fold (queue ip) ps c) = room c"
    "lookup (fold (queue ip) ps c) = lookup c"
    "pending (fold (queue ip) ps c) ip' = (if ip' = ip then rev ps @ pending c ip' else pending c ip')"
  using assms
  by (induction ps arbitrary: c) (auto simp: inv_queue room_queue lookup_queue pending_queue)

text \<open>
  Packets that wait for an unresolved address are all handed over when the address is learned, and
  the address resolves from then on; what waits for other addresses is untouched.
\<close>

lemma resolve:
  assumes "inv c" "list_all ok ps" "room c" "lookup c ip = None"
  shows "pending (fold (queue ip) ps c) ip = rev ps @ pending c ip \<and>
    lookup (insert (fold (queue ip) ps c) m ip t) ip = Some m \<and>
    pending (insert (fold (queue ip) ps c) m ip t) ip = [] \<and>
    (\<forall>ip'. ip' \<noteq> ip \<longrightarrow>
       lookup (insert (fold (queue ip) ps c) m ip t) ip' = lookup c ip' \<and>
       pending (insert (fold (queue ip) ps c) m ip t) ip' = pending c ip')"
  using assms by (simp add: queue_all lookup_insert pending_insert)

end

definition pending_pkts :: "sr_arpcache \<Rightarrow> u32 \<Rightarrow> sr_packet list" where
  "pending_pkts c ip =
     (case find_req ip (requests c) of None \<Rightarrow> [] | Some r \<Rightarrow> rq_packets r)"

definition ok_packet :: "sr_packet \<Rightarrow> bool" where
  "ok_packet p \<longleftrightarrow> pk_len p = length (pk_buf p) \<and> pk_buf p \<noteq> [] \<and> length (pk_iface p) \<le> 32"

definition queue_packet :: "u32 \<Rightarrow> sr_packet \<Rightarrow> sr_arpcache \<Rightarrow> sr_arpcache" where
  "queue_packet ip p c =
     (case sr_arpcache_queuereq c ip (pk_buf p) (pk_len p) (pk_iface p) of
        Inl _ \<Rightarrow> c | Inr (a, c') \<Rightarrow> c')"

lemma queuereq_eq:
  assumes "0 < len" "len \<le> length packet"
  shows "sr_arpcache_queuereq c ip packet len iface =
    (case get_or_alloc_req c ip of (a, c1) \<Rightarrow>
       Inr (a, upd_req a (\<lambda>r. r\<lparr>rq_packets :=
         \<lparr>pk_buf = take len packet, pk_len = len, pk_iface = strncpy iface 32\<rparr>
           # rq_packets r\<rparr>) c1))"
  using assms by (simp add: sr_arpcache_queuereq_def mslice_def)

lemma queuereq_spec:
  assumes "arpcache_wf c" "0 < len" "len \<le> length packet"
    and "p = \<lparr>pk_buf = take len packet, pk_len = len, pk_iface = strncpy iface 32\<rparr>"
  shows "\<exists>a c'. sr_arpcache_queuereq c ip packet len iface = Inr (a, c') \<and> arpcache_wf c' \<and>
    (\<exists>r. deref_req a (requests c') = Some r \<and> rq_ip r = ip \<and> rq_packets r = p # pending_pkts c ip) \<and>
    pending_pkts c' ip = p # pending_pkts c ip \<and>
    (\<forall>ip'. ip' \<noteq> ip \<longrightarrow> find_req ip' (requests c') = find_req ip' (requests c)) \<and>
    entries c' = entries c"
proof -
  obtain a c1 where g: "get_or_alloc_req c ip = (a, c1)" by (cases "get_or_alloc_req c ip")
  from get_or_alloc_spec [OF assms(1) g] obtain r where r:
    "find_req ip (requests c1) = Some r" "rq_addr r = a" "deref_req a (requests c1) = Some r"
    "rq_packets r = pending_pkts c ip" "entries c1 = entries c"
    "\<forall>ip'. ip' \<noteq> ip \<longrightarrow> find_req ip' (requests c1) = find_req ip' (requests c)"
    unfolding pending_pkts_def by blast
  let ?f = "\<lambda>r. r\<lparr>rq_packets := p # rq_packets r\<rparr>"
  have wf1: "arpcache_wf c1" using wf_get_or_alloc [OF assms(1), of ip] g by simp
  have other: "find_req ip' (requests (upd_req a ?f c1)) = find_req ip' (requests c)"
    if "ip' \<noteq> ip" for ip'
  proof (cases "find_req ip' (requests c)")
    case (Some q)
    then have q: "q \<in> set (requests c1)" "rq_ip q = ip'"
      using r(6) that req_by_ip.search_hit by metis+
    have "r \<in> set (requests c1)" "rq_ip r = ip" using r(1) req_by_ip.search_hit by metis+
    then have "rq_addr q \<noteq> a"
      using q that r(2) wf1 by (auto simp: arpcache_wf_def distinct_map dest: inj_onD)
    then show ?thesis using Some r(6) that by (simp add: find_upd_req)
  qed (use r(6) that in \<open>simp add: find_upd_req\<close>)
  have "rq_ip r = ip" using r(1) req_by_ip.search_hit by metis
  then show ?thesis
    using assms(2,3) r g wf1 other
    by (simp add: queuereq_eq assms(4) wf_upd_req deref_upd_req find_upd_req pending_pkts_def)
qed

lemma pending_insert:
  assumes "arpcache_wf c"
  shows "pending_pkts (snd (sr_arpcache_insert c m ip t)) ip' =
    (if ip' = ip then [] else pending_pkts c ip')"
proof -
  have "find_req ip' (filter (\<lambda>r. rq_ip r \<noteq> ip) rs) =
      (if ip' = ip then None else find_req ip' rs)" for rs
    by (induction rs) auto
  then show ?thesis
    using assms by (simp add: pending_pkts_def sr_arpcache_insert_def unlink_ip_eq arpcache_wf_def Let_def)
qed

lemma lookup_queue_entries:
  "entries c' = entries c \<Longrightarrow> sr_arpcache_lookup c' = sr_arpcache_lookup c"
  by (simp add: sr_arpcache_lookup_def fun_eq_iff)

lemma insert_lookup_fresh:
  assumes "has_room c" "sr_arpcache_lookup c ip = None"
  shows "sr_arpcache_lookup (snd (sr_arpcache_insert c m ip t)) ip' =
    (if ip' = ip then Some \<lparr>ae_mac = m, ae_ip = ip, ae_added = t, ae_valid = True\<rparr>
     else sr_arpcache_lookup c ip')"
  using assms by (auto simp: lookup_insert lookup_None_iff dest: in_set_dropD)

lemma queue_packet_spec:
  assumes "arpcache_wf c" "ok_packet p"
  shows "arpcache_wf (queue_packet ip p c) \<and> entries (queue_packet ip p c) = entries c \<and>
    pending_pkts (queue_packet ip p c) ip' =
      (if ip' = ip then p # pending_pkts c ip' else pending_pkts c ip')"
proof -
  have p: "p = \<lparr>pk_buf = take (pk_len p) (pk_buf p), pk_len = pk_len p,
      pk_iface = strncpy (pk_iface p) 32\<rparr>" and l: "0 < pk_len p" "pk_len p \<le> length (pk_buf p)"
    using assms(2) by (simp_all add: ok_packet_def strncpy_def)
  from queuereq_spec [OF assms(1) l p] obtain a c' where
    "sr_arpcache_queuereq c ip (pk_buf p) (pk_len p) (pk_iface p) = Inr (a, c')" "arpcache_wf c'"
    "pending_pkts c' ip = p # pending_pkts c ip"
    "\<forall>ip'. ip' \<noteq> ip \<longrightarrow> find_req ip' (requests c') = find_req ip' (requests c)"
    "entries c' = entries c" by blast
  then show ?thesis
    by (cases "ip' = ip") (simp_all add: queue_packet_def pending_pkts_def)
qed

interpretation arpc: arp_interface "\<lambda>c ip. map_option ae_mac (sr_arpcache_lookup c ip)" pending_pkts
  "\<lambda>c m ip t. snd (sr_arpcache_insert c m ip t)" queue_packet has_room arpcache_wf ok_packet
proof (unfold_locales, goal_cases)
  case (3 c ip m t ip')
  then show ?case by (simp add: insert_lookup_fresh)
next
  case (4 c p ip)
  then show ?case using queue_packet_spec [of c p ip] by (simp add: has_room_def)
next
  case (5 c p ip)
  then show ?case
    using queue_packet_spec [of c p ip] lookup_queue_entries [of "queue_packet ip p c" c] by simp
qed (simp_all add: wf_insert queue_packet_spec pending_insert)

section \<open>Sequences of operations\<close>

text \<open>
  The operations on the cache: learning an address, queueing a packet, destroying a request, the
  expiry of the timer thread, and the bookkeeping of a transmission, which both threads do on a
  request they hold.
\<close>

datatype cache_op = Learn mac u32 int | Queue u32 "byte list" nat string | Drop nat | Age int
  | Sent nat int u32

fun apply_op :: "cache_op \<Rightarrow> sr_arpcache \<Rightarrow> sr_arpcache" where
  "apply_op (Learn m ip now) c = snd (sr_arpcache_insert c m ip now)"
| "apply_op (Queue ip packet len iface) c =
     (case sr_arpcache_queuereq c ip packet len iface of Inl _ \<Rightarrow> c | Inr (a, c') \<Rightarrow> c')"
| "apply_op (Drop a) c = sr_arpreq_destroy c a"
| "apply_op (Age now) c = arpcache_expire now c"
| "apply_op (Sent a now k) c = upd_req a (\<lambda>r. r\<lparr>rq_sent := now, rq_times_sent := k\<rparr>) c"

lemma wf_queuereq: "arpcache_wf c \<Longrightarrow> sr_arpcache_queuereq c ip packet len iface = Inr (a, c') \<Longrightarrow> arpcache_wf c'"
  using wf_get_or_alloc [of c ip]
  by (cases "get_or_alloc_req c ip")
    (auto simp: sr_arpcache_queuereq_def rbind_def wf_upd_req split: if_splits sum.splits)

lemma wf_cache_op: "arpcache_wf c \<Longrightarrow> arpcache_wf (apply_op op c)"
  by (cases op) (auto simp: wf_insert wf_destroy wf_expire wf_upd_req intro: wf_queuereq split: sum.split prod.split)

section \<open>Properties\<close>

text \<open>
  Claim C30: the shape of the cache. After any sequence of operations on an initialised cache, also
  with arguments that make no sense, the table has exactly its 100 slots, the queue holds at most one request
  per address, no two requests share their memory, and every request is the one that is found
  under its IP address and under its own address.
\<close>

theorem cache_operations_typed:
  "let c = fold apply_op ops (sr_arpcache_init c0) in
   length (entries c) = SR_ARPCACHE_SZ \<and> distinct (map rq_ip (requests c)) \<and> distinct (map rq_addr (requests c)) \<and>
   list_all (\<lambda>r. find_req (rq_ip r) (requests c) = Some r \<and> deref_req (rq_addr r) (requests c) = Some r \<and>
     rq_addr r < next_addr c) (requests c)"
proof -
  have "arpcache_wf (fold apply_op ops c)" if "arpcache_wf c" for c
    using that by (induction ops arbitrary: c) (simp_all add: wf_cache_op)
  from this [OF wf_init] show ?thesis
    by (auto simp: Let_def arpcache_wf_def list_all_iff find_unique deref_unique)
qed

text \<open>
  Packets queued for an unresolved address are neither lost nor duplicated: when the
  address is learned, the request handed back holds exactly the packets queued since, the newest
  first, followed by those that waited before; nothing waits for the address any more, it resolves
  to the learned MAC, and the packets and entries of every other address are untouched.
\<close>

theorem queued_packets_released_once:
  assumes "arpcache_wf c" and "list_all ok_packet ps" and "has_room c"
    and "sr_arpcache_lookup c ip = None"
  shows "\<exists>req c'. sr_arpcache_insert (fold (queue_packet ip) ps c) m ip t = (req, c') \<and>
    (case req of None \<Rightarrow> [] | Some r \<Rightarrow> rq_packets r) = rev ps @ pending_pkts c ip \<and>
    map_option ae_mac (sr_arpcache_lookup c' ip) = Some m \<and> pending_pkts c' ip = [] \<and>
    (\<forall>ip'. ip' \<noteq> ip \<longrightarrow> pending_pkts c' ip' = pending_pkts c ip' \<and>
       map_option ae_mac (sr_arpcache_lookup c' ip') = map_option ae_mac (sr_arpcache_lookup c ip'))"
proof -
  let ?c1 = "fold (queue_packet ip) ps c"
  obtain req c' where i: "sr_arpcache_insert ?c1 m ip t = (req, c')"
    by (cases "sr_arpcache_insert ?c1 m ip t")
  have "req = find_req ip (requests ?c1)"
    using i by (auto simp: sr_arpcache_insert_def Let_def unlink_ip_fst [symmetric] split: prod.splits)
  moreover have "map_option ae_mac (sr_arpcache_lookup c ip) = None" using assms(4) by simp
  note arpc.resolve [OF assms(1-3) this, of m t]
  ultimately show ?thesis using i by (simp add: pending_pkts_def [of ?c1])
qed

text \<open>
  Claim C28: what a lookup returns after an insertion, in every case. The learned MAC becomes visible
  exactly when the table has a free slot and no valid entry for the address lies behind that slot;
  otherwise (table full, or an older entry further back) the insertion leaves every lookup as it
  was.
\<close>

theorem arpcache_lookup_after_insert:
  "sr_arpcache_lookup (snd (sr_arpcache_insert c m ip now)) ip' =
     (if ip' = ip \<and> has_room c \<and>
         (\<forall>e \<in> set (drop (Suc (first_free (entries c))) (entries c)). ae_valid e \<longrightarrow> ae_ip e \<noteq> ip)
      then Some \<lparr>ae_mac = m, ae_ip = ip, ae_added = now, ae_valid = True\<rparr>
      else sr_arpcache_lookup c ip')"
  by (rule lookup_insert)

text \<open>
  After a round of expiry, lookups return exactly the entries they returned before that
  are at most 15 seconds old: an expired mapping is never used, and a fresh one is never dropped.
\<close>

theorem arpcache_expire_lookup:
  shows "(sr_arpcache_lookup (arpcache_expire now c) ip = Some e \<longrightarrow>
      e \<in> set (entries c) \<and> ae_ip e = ip \<and> now - ae_added e \<le> SR_ARPCACHE_TO) \<and>
    (sr_arpcache_lookup c ip = Some e \<and> now - ae_added e \<le> SR_ARPCACHE_TO \<longrightarrow>
      sr_arpcache_lookup (arpcache_expire now c) ip = Some e)"
proof -
  have filt: "filter (\<lambda>e. ae_valid e \<and> ae_ip e = ip) (map (expire_entry now) es) =
      filter (\<lambda>e. ae_valid e \<and> ae_ip e = ip \<and> now - ae_added e \<le> SR_ARPCACHE_TO) es" for es
    by (induction es) (auto simp: expire_entry_def)
  have last: "P e \<Longrightarrow> filter Q es \<noteq> [] \<Longrightarrow> e = last (filter Q es) \<Longrightarrow>
      filter (\<lambda>e. Q e \<and> P e) es \<noteq> [] \<and> last (filter (\<lambda>e. Q e \<and> P e) es) = e"
    for P Q and es :: "sr_arpentry list"
    by (induction es rule: rev_induct) (auto split: if_splits)
  let ?Q = "\<lambda>e. ae_valid e \<and> ae_ip e = ip" and ?P = "\<lambda>e. now - ae_added e \<le> SR_ARPCACHE_TO"
  have "sr_arpcache_lookup (arpcache_expire now c) ip =
      (let ms = filter (\<lambda>e. ?Q e \<and> ?P e) (entries c) in if ms = [] then None else Some (last ms))"
    by (simp add: sr_arpcache_lookup_def arpcache_expire_def arp_scan_eq filt Let_def)
  moreover have "last (filter (\<lambda>e. ?Q e \<and> ?P e) (entries c)) \<in> set (filter (\<lambda>e. ?Q e \<and> ?P e) (entries c))"
    if "filter (\<lambda>e. ?Q e \<and> ?P e) (entries c) \<noteq> []"
    using that by (rule last_in_set)
  moreover have "sr_arpcache_lookup c ip = Some e \<Longrightarrow>
      filter ?Q (entries c) \<noteq> [] \<and> e = last (filter ?Q (entries c))"
    by (auto simp: sr_arpcache_lookup_def arp_scan_eq Let_def split: if_splits)
  ultimately show ?thesis
    using last [of ?P ?Q "entries c"] by (auto simp: Let_def split: if_splits)
qed

section \<open>Examples\<close>

definition ex_cache :: sr_arpcache where
  "ex_cache = sr_arpcache_init \<lparr>entries = [], requests = [], next_addr = 0\<rparr>"

definition ex_pkt :: "byte \<Rightarrow> sr_packet" where
  "ex_pkt b = \<lparr>pk_buf = [b, b], pk_len = 2, pk_iface = ''eth1''\<rparr>"

definition ex_entry :: "mac \<Rightarrow> u32 \<Rightarrow> int \<Rightarrow> bool \<Rightarrow> sr_arpentry" where
  "ex_entry m ip t v = \<lparr>ae_mac = m, ae_ip = ip, ae_added = t, ae_valid = v\<rparr>"

lemma ex_cache_simps:
  "arpcache_wf ex_cache" "has_room ex_cache" "sr_arpcache_lookup ex_cache ip = None"
  "requests ex_cache = []"
  by (simp add: ex_cache_def wf_init)
    (simp_all add: ex_cache_def has_room_def sr_arpcache_init_def lookup_None_iff numeral_eq_Suc)

theorem queued_packets_released_once_witness:
  "\<exists>r c'. sr_arpcache_insert (fold (queue_packet 7) [ex_pkt 1, ex_pkt 2] ex_cache)
            (MAC 2 0 0 0 0 9) 7 100 = (Some r, c') \<and> rq_packets r = [ex_pkt 2, ex_pkt 1]"
proof -
  have "list_all ok_packet [ex_pkt 1, ex_pkt 2]" by (simp add: ok_packet_def ex_pkt_def)
  moreover have "pending_pkts ex_cache 7 = []" by (simp add: pending_pkts_def ex_cache_simps)
  ultimately show ?thesis
    using queued_packets_released_once [OF ex_cache_simps(1) _ ex_cache_simps(2,3),
        of "[ex_pkt 1, ex_pkt 2]" 7 "MAC 2 0 0 0 0 9" 100]
    by (auto split: option.splits)
qed

text \<open>An older entry behind the first free slot hides a newly learned MAC.\<close>

theorem arpcache_lookup_after_insert_witness:
  "let c = \<lparr>entries = [ex_entry (MAC 0 0 0 0 0 0) 0 0 False, ex_entry (MAC 2 0 0 0 0 1) 7 90 True],
            requests = [], next_addr = 0\<rparr>
   in map_option ae_mac (sr_arpcache_lookup (snd (sr_arpcache_insert c (MAC 2 0 0 0 0 2) 7 100)) 7)
      = Some (MAC 2 0 0 0 0 1)"
  by (simp add: arpcache_lookup_after_insert Let_def)
    (simp add: has_room_def ex_entry_def sr_arpcache_lookup_def)

theorem arpcache_expire_lookup_witness:
  "let c = \<lparr>entries = [ex_entry (MAC 2 0 0 0 0 1) 7 90 True], requests = [], next_addr = 0\<rparr>
   in sr_arpcache_lookup (arpcache_expire 105 c) 7 = Some (ex_entry (MAC 2 0 0 0 0 1) 7 90 True)"
  using arpcache_expire_lookup [of 105 "\<lparr>entries = [ex_entry (MAC 2 0 0 0 0 1) 7 90 True],
      requests = [], next_addr = 0\<rparr>" 7 "ex_entry (MAC 2 0 0 0 0 1) 7 90 True"]
  by (simp add: Let_def ex_entry_def sr_arpcache_lookup_def)

end
