(* ===== verification/Dumper.thy ===== *)
theory Dumper
  imports Protocol
begin

text \<open>
  The packet log of \<^verbatim>\<open>sr_dumper.c\<close>: a file in \<^verbatim>\<open>tcpdump\<close> format. A file is the list of bytes
  written to it. \<open>pcap_parse\<close> is the reader's view of the format; the log that the writer produces
  parses back to the packets that were dumped.
\<close>

section \<open>Writing\<close>

record pcap_file_header =
  pf_magic :: u32
  pf_version_major :: u16
  pf_version_minor :: u16
  pf_thiszone :: u32
  pf_sigfigs :: u32
  pf_snaplen :: u32
  pf_linktype :: u32

definition enc_pcap_file_header :: "pcap_file_header \<Rightarrow> byte list" where
  "enc_pcap_file_header h = enc32 (pf_magic h) @ enc16 (pf_version_major h) @
     enc16 (pf_version_minor h) @ enc32 (pf_thiszone h) @ enc32 (pf_sigfigs h) @
     enc32 (pf_snaplen h) @ enc32 (pf_linktype h)"

definition dec_pcap_file_header :: "byte list \<Rightarrow> pcap_file_header" where
  "dec_pcap_file_header bs = \<lparr>pf_magic = dec32 (field bs 0 4),
     pf_version_major = dec16 (field bs 4 2), pf_version_minor = dec16 (field bs 6 2),
     pf_thiszone = dec32 (field bs 8 4), pf_sigfigs = dec32 (field bs 12 4),
     pf_snaplen = dec32 (field bs 16 4), pf_linktype = dec32 (field bs 20 4)\<rparr>"

text \<open>The packet header in memory (\<open>ts\<close> of the caller) and as it is stored in the file.\<close>

record pcap_pkthdr =
  ph_sec :: int
  ph_usec :: int
  ph_caplen :: u32
  ph_len :: u32

record pcap_sf_pkthdr =
  sf_sec :: u32
  sf_usec :: u32
  sf_caplen :: u32
  sf_len :: u32

definition enc_pcap_sf_pkthdr :: "pcap_sf_pkthdr \<Rightarrow> byte list" where
  "enc_pcap_sf_pkthdr h =
     enc32 (sf_sec h) @ enc32 (sf_usec h) @ enc32 (sf_caplen h) @ enc32 (sf_len h)"

definition dec_pcap_sf_pkthdr :: "byte list \<Rightarrow> pcap_sf_pkthdr" where
  "dec_pcap_sf_pkthdr bs = \<lparr>sf_sec = dec32 (field bs 0 4), sf_usec = dec32 (field bs 4 4),
     sf_caplen = dec32 (field bs 8 4), sf_len = dec32 (field bs 12 4)\<rparr>"

definition sf_write_header :: "byte list \<Rightarrow> u32 \<Rightarrow> u32 \<Rightarrow> u32 \<Rightarrow> byte list" where
  "sf_write_header fp linktype thiszone snaplen =
     fp @ enc_pcap_file_header \<lparr>pf_magic = 0xa1b2c3d4, pf_version_major = 2, pf_version_minor = 4,
       pf_thiszone = thiszone, pf_sigfigs = 0, pf_snaplen = snaplen, pf_linktype = linktype\<rparr>"

text \<open>
  \<open>can_open\<close> tells which names \<^verbatim>\<open>fopen\<close> succeeds on; the name \<^verbatim>\<open>-\<close> means standard output. An
  opened file starts empty.
\<close>

definition sr_dump_open :: "(string \<Rightarrow> bool) \<Rightarrow> string \<Rightarrow> u32 \<Rightarrow> u32 \<Rightarrow> byte list option" where
  "sr_dump_open can_open fname thiszone snaplen =
     (if fname = ''-'' \<or> can_open fname then Some (sf_write_header [] 1 thiszone snaplen)
      else None)"

definition sr_dump :: "byte list \<Rightarrow> pcap_pkthdr \<Rightarrow> byte list \<Rightarrow> byte list res" where
  "sr_dump fp h sp =
     (let sf_hdr = \<lparr>sf_sec = word_of_int (ph_sec h), sf_usec = word_of_int (ph_usec h),
                    sf_caplen = ph_caplen h, sf_len = ph_len h\<rparr> in
      rbind (rd_bytes sp 0 (unat (ph_caplen h))) (\<lambda>bs.
        Inr (fp @ enc_pcap_sf_pkthdr sf_hdr @ bs)))"

section \<open>Layouts\<close>

lemma length_pcap_hdr [simp]:
  "length (enc_pcap_file_header h) = 24" "length (enc_pcap_sf_pkthdr k) = 16"
  by (simp_all add: enc_pcap_file_header_def enc_pcap_sf_pkthdr_def)

interpretation pcap_file: struct_layout 24 enc_pcap_file_header dec_pcap_file_header "\<lambda>_. True"
proof (unfold_locales, goal_cases)
  case (2 x) then show ?case
    by (simp add: enc_pcap_file_header_def dec_pcap_file_header_def layout_simps)
next
  case (3 bs) then show ?case
    by (simp add: enc_pcap_file_header_def dec_pcap_file_header_def enc_dec16 enc_dec32
        field_chain field_all)
qed simp_all

interpretation pcap_sf: struct_layout 16 enc_pcap_sf_pkthdr dec_pcap_sf_pkthdr "\<lambda>_. True"
proof (unfold_locales, goal_cases)
  case (2 x) then show ?case
    by (simp add: enc_pcap_sf_pkthdr_def dec_pcap_sf_pkthdr_def layout_simps)
next
  case (3 bs) then show ?case
    by (simp add: enc_pcap_sf_pkthdr_def dec_pcap_sf_pkthdr_def enc_dec32 field_chain field_all)
qed simp_all

section \<open>Reading\<close>

text \<open>A reader of the format: the records after the file header.\<close>

function pcap_records :: "byte list \<Rightarrow> (pcap_sf_pkthdr \<times> byte list) list option" where
  "pcap_records bs =
     (if bs = [] then Some []
      else if length bs < 16 then None
      else let h = dec_pcap_sf_pkthdr (take 16 bs); n = unat (sf_caplen h) in
        if length bs < 16 + n then None
        else map_option ((#) (h, take n (drop 16 bs))) (pcap_records (drop (16 + n) bs)))"
  by pat_completeness auto
termination
  by (relation "measure length") auto

declare pcap_records.simps [simp del]

definition pcap_parse :: "byte list \<Rightarrow> (pcap_file_header \<times> (pcap_sf_pkthdr \<times> byte list) list) option" where
  "pcap_parse bs =
     (if length bs < 24 then None
      else map_option (Pair (dec_pcap_file_header (take 24 bs))) (pcap_records (drop 24 bs)))"

lemma pcap_records_Cons:
  assumes "unat (sf_caplen h) = length d"
  shows "pcap_records (enc_pcap_sf_pkthdr h @ d @ r) = map_option ((#) (h, d)) (pcap_records r)"
proof -
  have "dec_pcap_sf_pkthdr (take 16 (enc_pcap_sf_pkthdr h @ d @ r)) = h"
    by (simp add: pcap_sf.dec_enc)
  moreover have "enc_pcap_sf_pkthdr h \<noteq> []"
    by (metis length_pcap_hdr(2) list.size(3) zero_neq_numeral)
  ultimately show ?thesis
    using assms by (subst pcap_records.simps) (simp add: Let_def)
qed

lemma pcap_records_append:
  "pcap_records a = Some xs \<Longrightarrow> pcap_records (a @ b) = map_option ((@) xs) (pcap_records b)"
proof (induction a arbitrary: xs rule: pcap_records.induct)
  case (1 a)
  show ?case
  proof (cases "a = []")
    case True
    with "1.prems" show ?thesis by (simp add: pcap_records.simps [of "[]"] option.map_ident)
  next
    case False
    let ?h = "dec_pcap_sf_pkthdr (take 16 a)"
    let ?n = "unat (sf_caplen ?h)"
    from False "1.prems" have len: "16 + ?n \<le> length a"
      and rec: "map_option ((#) (?h, take ?n (drop 16 a))) (pcap_records (drop (16 + ?n) a)) = Some xs"
      by (auto simp: pcap_records.simps [of a] Let_def split: if_splits)
    then obtain ys where ys: "pcap_records (drop (16 + ?n) a) = Some ys"
      "xs = (?h, take ?n (drop 16 a)) # ys" by auto
    have IH: "pcap_records (drop (16 + ?n) a @ b) = map_option ((@) ys) (pcap_records b)"
      using False len by (intro "1.IH" [OF _ _ refl refl _ ys(1)]) auto
    have "pcap_records (a @ b) =
        map_option ((#) (?h, take ?n (drop 16 a))) (pcap_records (drop (16 + ?n) a @ b))"
      using False len by (subst pcap_records.simps) (auto simp: Let_def)
    then show ?thesis by (simp add: IH ys(2) option.map_comp comp_def)
  qed
qed

lemma sr_dump_records:
  assumes "sr_dump fp h sp = Inr fp'" "pcap_parse fp = Some (fh, xs)"
  shows "pcap_parse fp' = Some (fh, xs @
    [(\<lparr>sf_sec = word_of_int (ph_sec h), sf_usec = word_of_int (ph_usec h),
       sf_caplen = ph_caplen h, sf_len = ph_len h\<rparr>, take (unat (ph_caplen h)) sp)])"
proof -
  let ?k = "\<lparr>sf_sec = word_of_int (ph_sec h), sf_usec = word_of_int (ph_usec h),
       sf_caplen = ph_caplen h, sf_len = ph_len h\<rparr>"
  let ?d = "take (unat (ph_caplen h)) sp"
  from assms(1) have len: "unat (ph_caplen h) \<le> length sp" and
    fp': "fp' = fp @ enc_pcap_sf_pkthdr ?k @ ?d"
    by (auto simp: sr_dump_def Let_def rd_bytes_def mslice_def split: if_splits)
  from assms(2) have fp: "24 \<le> length fp" "fh = dec_pcap_file_header (take 24 fp)"
    "pcap_records (drop 24 fp) = Some xs"
    by (auto simp: pcap_parse_def split: if_splits)
  have "pcap_records (enc_pcap_sf_pkthdr ?k @ ?d @ []) = Some [(?k, ?d)]"
    using len by (subst pcap_records_Cons) (simp_all add: pcap_records.simps)
  with fp(3) have "pcap_records (drop 24 fp @ enc_pcap_sf_pkthdr ?k @ ?d) = Some (xs @ [(?k, ?d)])"
    by (simp add: pcap_records_append)
  with fp show ?thesis by (simp add: pcap_parse_def fp')
qed

lemma sr_dump_open_parse:
  "sr_dump_open can fname tz snap = Some fp \<Longrightarrow>
     pcap_parse fp = Some (\<lparr>pf_magic = 0xa1b2c3d4, pf_version_major = 2, pf_version_minor = 4,
       pf_thiszone = tz, pf_sigfigs = 0, pf_snaplen = snap, pf_linktype = 1\<rparr>, [])"
  by (auto simp: sr_dump_open_def sf_write_header_def pcap_parse_def pcap_file.dec_enc
      pcap_records.simps [of "[]"] split: if_splits)

end
