(* ===== verification/Messages.thy ===== *)
theory Messages
  imports Protocol
begin

text \<open>
  The messages of the VNS protocol, \<^verbatim>\<open>vnscommand.h\<close>: their types and the packed structs that the
  client overlays on them. Every message starts with the fields of \<^verbatim>\<open>c_base\<close>, so the other structs
  extend that record. A trailing array of unspecified length is what follows the struct. Character
  arrays are the bytes on the wire. Each struct is a \<open>struct_layout\<close>, which gives that what is stored
  into it is read back.
\<close>

section \<open>Message types\<close>

definition VNSOPEN :: u32 where "VNSOPEN = 1"
definition VNSCLOSE :: u32 where "VNSCLOSE = 2"
definition VNSPACKET :: u32 where "VNSPACKET = 4"
definition VNSBANNER :: u32 where "VNSBANNER = 8"
definition VNSHWINFO :: u32 where "VNSHWINFO = 16"
definition VNS_RTABLE :: u32 where "VNS_RTABLE = 32"
definition VNS_OPEN_TEMPLATE :: u32 where "VNS_OPEN_TEMPLATE = 64"
definition VNS_AUTH_REQUEST :: u32 where "VNS_AUTH_REQUEST = 128"
definition VNS_AUTH_REPLY :: u32 where "VNS_AUTH_REPLY = 256"
definition VNS_AUTH_STATUS :: u32 where "VNS_AUTH_STATUS = 512"

definition HWINTERFACE :: u32 where "HWINTERFACE = 1"
definition HWETHER :: u32 where "HWETHER = 32"
definition HWETHIP :: u32 where "HWETHIP = 64"

lemmas vns_consts = VNSOPEN_def VNSCLOSE_def VNSPACKET_def VNSBANNER_def VNSHWINFO_def VNS_RTABLE_def
  VNS_OPEN_TEMPLATE_def VNS_AUTH_REQUEST_def VNS_AUTH_REPLY_def VNS_AUTH_STATUS_def HWINTERFACE_def
  HWETHER_def HWETHIP_def

abbreviation (input) IDSIZE :: nat where "IDSIZE \<equiv> 32"

text \<open>\<^verbatim>\<open>strncpy\<close> of a C string into a \<^verbatim>\<open>char[n]\<close> on the wire pads with NUL bytes.\<close>

definition name_field :: "string \<Rightarrow> nat \<Rightarrow> byte list" where
  "name_field s n = map of_char (strncpy s n) @ replicate (n - length s) 0"

lemma length_name_field [simp]: "length (name_field s n) = n"
  by (simp add: name_field_def strncpy_def)

section \<open>Structs\<close>

record c_base =
  mLen :: u32
  mType :: u32

definition enc_base :: "'a c_base_scheme \<Rightarrow> byte list" where
  "enc_base h = enc32 (mLen h) @ enc32 (mType h)"

definition dec_base :: "byte list \<Rightarrow> c_base" where
  "dec_base bs = \<lparr>mLen = dec32 (field bs 0 4), mType = dec32 (field bs 4 4)\<rparr>"

record c_open = c_base +
  topoID :: u16
  open_pad :: u16
  open_mVirtualHostID :: "byte list"
  mUID :: "byte list"
  mPass :: "byte list"

definition enc_open :: "c_open \<Rightarrow> byte list" where
  "enc_open h = enc32 (mLen h) @ enc32 (mType h) @ enc16 (topoID h) @ enc16 (open_pad h) @
     open_mVirtualHostID h @ mUID h @ mPass h"

definition dec_open :: "byte list \<Rightarrow> c_open" where
  "dec_open bs = \<lparr>mLen = dec32 (field bs 0 4), mType = dec32 (field bs 4 4), topoID = dec16 (field bs 8 2),
     open_pad = dec16 (field bs 10 2), open_mVirtualHostID = field bs 12 32, mUID = field bs 44 32,
     mPass = field bs 76 32\<rparr>"

record c_packet_header = c_base +
  mInterfaceName :: "byte list"

definition enc_packet_header :: "c_packet_header \<Rightarrow> byte list" where
  "enc_packet_header h = enc32 (mLen h) @ enc32 (mType h) @ mInterfaceName h"

definition dec_packet_header :: "byte list \<Rightarrow> c_packet_header" where
  "dec_packet_header bs =
     \<lparr>mLen = dec32 (field bs 0 4), mType = dec32 (field bs 4 4), mInterfaceName = field bs 8 16\<rparr>"

text \<open>The header of a packet message together with the Ethernet header of its frame.\<close>

record c_packet_ethernet_header = c_packet_header +
  packet_eth :: sr_ethernet_hdr

definition enc_packet_ethernet_header :: "c_packet_ethernet_header \<Rightarrow> byte list" where
  "enc_packet_ethernet_header h =
     enc32 (mLen h) @ enc32 (mType h) @ mInterfaceName h @ enc_eth (packet_eth h)"

definition dec_packet_ethernet_header :: "byte list \<Rightarrow> c_packet_ethernet_header" where
  "dec_packet_ethernet_header bs =
     \<lparr>mLen = dec32 (field bs 0 4), mType = dec32 (field bs 4 4), mInterfaceName = field bs 8 16,
      packet_eth = dec_eth (field bs 24 14)\<rparr>"

abbreviation (input) sizeof_c_base :: nat where "sizeof_c_base \<equiv> 8"
abbreviation (input) sizeof_c_packet_header :: nat where "sizeof_c_packet_header \<equiv> 24"
abbreviation (input) sizeof_c_packet_ethernet_header :: nat where "sizeof_c_packet_ethernet_header \<equiv> 38"
abbreviation (input) sizeof_c_hw_entry :: nat where "sizeof_c_hw_entry \<equiv> 36"
abbreviation (input) sizeof_c_auth_reply :: nat where "sizeof_c_auth_reply \<equiv> 12"

record c_hw_entry =
  mKey :: u32
  hw_value :: "byte list"

definition enc_hw_entry :: "c_hw_entry \<Rightarrow> byte list" where
  "enc_hw_entry h = enc32 (mKey h) @ hw_value h"

definition dec_hw_entry :: "byte list \<Rightarrow> c_hw_entry" where
  "dec_hw_entry bs = \<lparr>mKey = dec32 (field bs 0 4), hw_value = field bs 4 32\<rparr>"

record c_rtable = c_base +
  rtable_mVirtualHostID :: "byte list"

definition enc_rtable :: "c_rtable \<Rightarrow> byte list" where
  "enc_rtable h = enc32 (mLen h) @ enc32 (mType h) @ rtable_mVirtualHostID h"

definition dec_rtable :: "byte list \<Rightarrow> c_rtable" where
  "dec_rtable bs = \<lparr>mLen = dec32 (field bs 0 4), mType = dec32 (field bs 4 4),
     rtable_mVirtualHostID = field bs 8 32\<rparr>"

record c_open_template = c_base +
  templateName :: "byte list"
  template_mVirtualHostID :: "byte list"

definition enc_open_template :: "c_open_template \<Rightarrow> byte list" where
  "enc_open_template h = enc32 (mLen h) @ enc32 (mType h) @ templateName h @ template_mVirtualHostID h"

definition dec_open_template :: "byte list \<Rightarrow> c_open_template" where
  "dec_open_template bs = \<lparr>mLen = dec32 (field bs 0 4), mType = dec32 (field bs 4 4),
     templateName = field bs 8 30, template_mVirtualHostID = field bs 38 32\<rparr>"

record c_auth_reply = c_base +
  usernameLen :: u32

definition enc_auth_reply :: "c_auth_reply \<Rightarrow> byte list" where
  "enc_auth_reply h = enc32 (mLen h) @ enc32 (mType h) @ enc32 (usernameLen h)"

definition dec_auth_reply :: "byte list \<Rightarrow> c_auth_reply" where
  "dec_auth_reply bs = \<lparr>mLen = dec32 (field bs 0 4), mType = dec32 (field bs 4 4),
     usernameLen = dec32 (field bs 8 4)\<rparr>"

record c_auth_status = c_base +
  auth_ok :: byte

definition enc_auth_status :: "c_auth_status \<Rightarrow> byte list" where
  "enc_auth_status h = enc32 (mLen h) @ enc32 (mType h) @ [auth_ok h]"

definition dec_auth_status :: "byte list \<Rightarrow> c_auth_status" where
  "dec_auth_status bs = \<lparr>mLen = dec32 (field bs 0 4), mType = dec32 (field bs 4 4), auth_ok = bs ! 8\<rparr>"

lemmas msg_enc_defs = enc_base_def enc_open_def enc_packet_header_def enc_hw_entry_def enc_rtable_def
  enc_open_template_def enc_auth_reply_def enc_auth_status_def

lemmas msg_dec_defs = dec_base_def dec_open_def dec_packet_header_def dec_hw_entry_def dec_rtable_def
  dec_open_template_def dec_auth_reply_def dec_auth_status_def

lemma length_enc_msg [simp]:
  "length (enc_base b) = 8" "length (enc_packet_header p) = 8 + length (mInterfaceName p)"
  "length (enc_hw_entry w) = 4 + length (hw_value w)" "length (enc_rtable r) = 8 + length (rtable_mVirtualHostID r)"
  "length (enc_auth_reply a) = 12" "length (enc_auth_status u) = 9"
  "length (enc_open_template t) = 8 + length (templateName t) + length (template_mVirtualHostID t)"
  "length (enc_open q) = 12 + length (open_mVirtualHostID q) + length (mUID q) + length (mPass q)"
  by (simp_all add: msg_enc_defs)

section \<open>Layouts\<close>

lemmas msg_field_simps = enc_dec16 enc_dec32 field_byte field_chain field_all

interpretation base: struct_layout 8 enc_base dec_base "\<lambda>_. True"
  by unfold_locales (simp_all add: enc_base_def dec_base_def layout_simps msg_field_simps)

interpretation open_cmd: struct_layout 108 enc_open dec_open
  "\<lambda>h. length (open_mVirtualHostID h) = 32 \<and> length (mUID h) = 32 \<and> length (mPass h) = 32"
  by unfold_locales (simp_all add: enc_open_def dec_open_def layout_simps msg_field_simps)

interpretation pkt_hdr: struct_layout 24 enc_packet_header dec_packet_header
  "\<lambda>h. length (mInterfaceName h) = 16"
  by unfold_locales (simp_all add: enc_packet_header_def dec_packet_header_def layout_simps msg_field_simps)

interpretation pkt_eth: struct_layout 38 enc_packet_ethernet_header dec_packet_ethernet_header
  "\<lambda>h. length (mInterfaceName h) = 16"
  by unfold_locales (simp_all add: enc_packet_ethernet_header_def dec_packet_ethernet_header_def layout_simps
      eth.dec_enc eth.enc_dec msg_field_simps)

interpretation hw: struct_layout 36 enc_hw_entry dec_hw_entry "\<lambda>h. length (hw_value h) = 32"
  by unfold_locales (simp_all add: enc_hw_entry_def dec_hw_entry_def layout_simps msg_field_simps)

interpretation rtab: struct_layout 40 enc_rtable dec_rtable "\<lambda>h. length (rtable_mVirtualHostID h) = 32"
  by unfold_locales (simp_all add: enc_rtable_def dec_rtable_def layout_simps msg_field_simps)

interpretation templ: struct_layout 70 enc_open_template dec_open_template
  "\<lambda>h. length (templateName h) = 30 \<and> length (template_mVirtualHostID h) = 32"
  by unfold_locales (simp_all add: enc_open_template_def dec_open_template_def layout_simps msg_field_simps)

interpretation reply: struct_layout 12 enc_auth_reply dec_auth_reply "\<lambda>_. True"
  by unfold_locales (simp_all add: enc_auth_reply_def dec_auth_reply_def layout_simps msg_field_simps)

interpretation status: struct_layout 9 enc_auth_status dec_auth_status "\<lambda>_. True"
  by unfold_locales (simp_all add: enc_auth_status_def dec_auth_status_def layout_simps msg_field_simps)

end
