(* ===== verification/Instance.thy ===== *)
theory Instance
  imports RoutingTable ArpCache Dumper Messages
begin

text \<open>
  The router instance (\<^verbatim>\<open>struct sr_instance\<close> of \<^verbatim>\<open>sr_router.h\<close>) and the sending side of
  \<^verbatim>\<open>sr_vns_comm.c\<close>: \<^verbatim>\<open>sr_send_packet\<close>, its Ethernet source check and the packet log.

  The environment is part of the state: \<open>env_clock\<close> gives the reading (seconds, microseconds) of the
  \<open>k\<close>-th query of the system clock, \<open>env_ticks\<close> counts the queries made so far, \<open>env_write\<close> is the
  result of a \<^verbatim>\<open>write\<close> on the server socket given the earlier writes, and \<open>wire\<close> is the list of
  buffers handed to \<^verbatim>\<open>write\<close>, oldest first. None of the router's code depends on anything else of
  the system.
\<close>

section \<open>State\<close>

record sr_instance =
  sockfd :: int
  sr_user :: string
  sr_host :: string
  sr_template :: string
  sr_topo_id :: u16
  if_list :: "sr_if list"
  routing_table :: "sr_rt list"
  cache :: sr_arpcache
  logfile :: "byte list option"
  env_clock :: "nat \<Rightarrow> int \<times> int"
  env_ticks :: nat
  env_write :: "byte list list \<Rightarrow> byte list \<Rightarrow> int"
  wire :: "byte list list"

definition gettimeofday :: "sr_instance \<Rightarrow> (int \<times> int) \<times> sr_instance" where
  "gettimeofday sr = (env_clock sr (env_ticks sr), sr\<lparr>env_ticks := Suc (env_ticks sr)\<rparr>)"

definition time_now :: "sr_instance \<Rightarrow> int \<times> sr_instance" where
  "time_now sr = (case gettimeofday sr of ((s, us), sr') \<Rightarrow> (s, sr'))"

section \<open>Operations\<close>

abbreviation (input) PACKET_DUMP_SIZE :: nat where "PACKET_DUMP_SIZE \<equiv> 1024"

definition sr_log_packet :: "sr_instance \<Rightarrow> byte list \<Rightarrow> nat \<Rightarrow> sr_instance res" where
  "sr_log_packet sr buf len =
     (case logfile sr of
        None \<Rightarrow> Inr sr
      | Some fp \<Rightarrow>
          let size = min PACKET_DUMP_SIZE len in
          case gettimeofday sr of ((sec, usec), sr1) \<Rightarrow>
            rbind (sr_dump fp \<lparr>ph_sec = sec, ph_usec = usec, ph_caplen = of_nat size,
                     ph_len = of_nat (if size < PACKET_DUMP_SIZE then size else PACKET_DUMP_SIZE)\<rparr> buf)
              (\<lambda>fp'. Inr (sr1\<lparr>logfile := Some fp'\<rparr>)))"

definition sr_ether_addrs_match_interface :: "sr_instance \<Rightarrow> byte list \<Rightarrow> string \<Rightarrow> bool res" where
  "sr_ether_addrs_match_interface sr buf name =
     (case sr_get_interface (if_list sr) name of
        None \<Rightarrow> Inr False
      | Some iface \<Rightarrow>
          rbind (rd_struct sizeof_eth dec_eth buf 0) (\<lambda>ether_hdr.
            Inr (ether_shost ether_hdr = if_addr iface)))"

text \<open>
  The \<^verbatim>\<open>int\<close> result is \<open>0\<close> on success and \<open>-1\<close> on the three errors (frame too short, source
  address or interface wrong, short write).
\<close>

definition sr_send_packet ::
    "sr_instance \<Rightarrow> byte list \<Rightarrow> nat \<Rightarrow> string \<Rightarrow> (int \<times> sr_instance) res" where
  "sr_send_packet sr buf len iface =
     (let total_len = (len + 24) mod 2 ^ 32 in
      if len < sizeof_eth then Inr (- 1, sr)
      else
        rbind (rd_bytes buf 0 len) (\<lambda>frame.
          let sr_pkt = enc_packet_header \<lparr>mLen = htonl (of_nat total_len), mType = htonl VNSPACKET,
                         mInterfaceName = name_field iface 16\<rparr> @ frame in
          rbind (sr_log_packet sr buf len) (\<lambda>sr1.
          rbind (sr_ether_addrs_match_interface sr1 buf iface) (\<lambda>ok.
            if \<not> ok then Inr (- 1, sr1)
            else
              let msg = take total_len sr_pkt; n = env_write sr1 (wire sr1) msg;
                  sr2 = sr1\<lparr>wire := wire sr1 @ [msg]\<rparr> in
              Inr (if n < int total_len then - 1 else 0, sr2)))))"

section \<open>What sending does\<close>

text \<open>The VNS message for a frame, and the state after one frame has been logged.\<close>

definition vns_frame :: "string \<Rightarrow> byte list \<Rightarrow> byte list" where
  "vns_frame iface frame =
     enc_packet_header \<lparr>mLen = htonl (of_nat (length frame + 24)), mType = htonl VNSPACKET,
       mInterfaceName = name_field iface 16\<rparr> @ frame"

definition log_frame :: "sr_instance \<Rightarrow> byte list \<Rightarrow> sr_instance" where
  "log_frame sr frame = (case sr_log_packet sr frame (length frame) of Inl _ \<Rightarrow> sr | Inr sr' \<Rightarrow> sr')"

definition transmit :: "sr_instance \<Rightarrow> byte list \<Rightarrow> string \<Rightarrow> sr_instance" where
  "transmit sr frame iface =
     (log_frame sr frame)\<lparr>wire := wire sr @ [vns_frame iface frame]\<rparr>"

lemma sr_log_packet_ok:
  assumes "len \<le> length buf"
  shows "sr_log_packet sr buf len = Inr (log_frame sr (take len buf))"
proof -
  have u: "unat (of_nat (min 1024 len) :: u32) = min 1024 len"
    by (simp add: unat_of_nat)
  have "rd_bytes buf 0 (min 1024 len) = rd_bytes (take len buf) 0 (min 1024 len)"
    using assms by (simp add: mslice_def)
  then have "sr_log_packet sr buf len = sr_log_packet sr (take len buf) len"
    by (simp add: sr_log_packet_def sr_dump_def u split: option.splits)
  moreover have "\<exists>sr'. sr_log_packet sr (take len buf) len = Inr sr'"
    using assms by (auto simp: sr_log_packet_def sr_dump_def u gettimeofday_def Let_def
        split: option.splits prod.splits)
  ultimately show ?thesis
    using assms by (auto simp: log_frame_def min_absorb2)
qed

lemma log_frame_fields [simp]:
  "if_list (log_frame sr f) = if_list sr" "routing_table (log_frame sr f) = routing_table sr"
  "cache (log_frame sr f) = cache sr" "wire (log_frame sr f) = wire sr"
  "env_write (log_frame sr f) = env_write sr" "env_clock (log_frame sr f) = env_clock sr"
  "sr_user (log_frame sr f) = sr_user sr" "sr_host (log_frame sr f) = sr_host sr"
  by (auto simp: log_frame_def sr_log_packet_def gettimeofday_def rbind_def Let_def
      split: option.splits sum.splits prod.splits)

lemma log_frame_ticks [simp]: "env_ticks sr \<le> env_ticks (log_frame sr f)"
  by (auto simp: log_frame_def sr_log_packet_def gettimeofday_def rbind_def Let_def
      split: option.splits sum.splits prod.splits)

lemma transmit_fields [simp]:
  "if_list (transmit sr f i) = if_list sr" "routing_table (transmit sr f i) = routing_table sr"
  "cache (transmit sr f i) = cache sr" "wire (transmit sr f i) = wire sr @ [vns_frame i f]"
  "env_clock (transmit sr f i) = env_clock sr" "env_write (transmit sr f i) = env_write sr"
  "env_ticks sr \<le> env_ticks (transmit sr f i)"
  by (simp_all add: transmit_def)

lemma log_frame_no_log: "logfile sr = None \<Longrightarrow> log_frame sr f = sr"
  by (simp add: log_frame_def sr_log_packet_def)

text \<open>Frames within the protocol's limits: at least a header, at most a VNS message.\<close>

abbreviation (input) max_frame :: nat where "max_frame \<equiv> 10000"

lemma sr_send_packet_ok:
  assumes "14 \<le> len" "len \<le> length buf" "len \<le> max_frame"
    and "sr_get_interface (if_list sr) iface = Some i"
    and "ether_shost (dec_eth (take 14 buf)) = if_addr i"
  shows "\<exists>r. sr_send_packet sr buf len iface = Inr (r, transmit sr (take len buf) iface)"
proof -
  have "(len + 24) mod 2 ^ 32 = len + 24" using assms(3) by simp
  then show ?thesis
    using assms
    by (simp add: sr_send_packet_def Let_def sr_log_packet_ok sr_ether_addrs_match_interface_def
        mslice_def transmit_def vns_frame_def)
qed

lemma sr_send_packet_rejected:
  assumes "14 \<le> len" "len \<le> length buf"
    and "\<And>i. sr_get_interface (if_list sr) iface = Some i \<Longrightarrow>
      ether_shost (dec_eth (take 14 buf)) \<noteq> if_addr i"
  shows "sr_send_packet sr buf len iface = Inr (- 1, log_frame sr (take len buf))"
  using assms
  by (simp add: sr_send_packet_def Let_def sr_log_packet_ok sr_ether_addrs_match_interface_def
      mslice_def split: option.splits)

lemma sr_send_packet_total:
  assumes "len \<le> length buf"
  shows "\<exists>r sr'. sr_send_packet sr buf len iface = Inr (r, sr') \<and> if_list sr' = if_list sr \<and>
    routing_table sr' = routing_table sr \<and> cache sr' = cache sr \<and> env_clock sr' = env_clock sr \<and>
    env_ticks sr \<le> env_ticks sr'"
  using assms
  by (auto simp: sr_send_packet_def Let_def sr_log_packet_ok sr_ether_addrs_match_interface_def
      split: option.splits)

section \<open>Properties\<close>

text \<open>
  Claim C21: sending, in every case. A frame shorter than an Ethernet header is refused. Otherwise it
  is logged, and written if and only if the named interface exists and the frame's Ethernet source is
  that interface's address; what is written is one VNS packet message with the total length, the type
  and the padded interface name in front of the frame. The result tells whether the socket took the
  whole message.
\<close>

theorem sr_send_packet_behaviour:
  assumes "len \<le> length buf" and "len \<le> max_frame"
  shows "sr_send_packet sr buf len iface = Inr (
    if len < 14 then (- 1, sr)
    else case sr_get_interface (if_list sr) iface of
      None \<Rightarrow> (- 1, log_frame sr (take len buf))
    | Some i \<Rightarrow>
        if ether_shost (dec_eth (take 14 buf)) \<noteq> if_addr i then (- 1, log_frame sr (take len buf))
        else (if env_write sr (wire sr) (vns_frame iface (take len buf)) < int len + 24 then - 1 else 0,
              transmit sr (take len buf) iface))"
proof -
  have "(len + 24) mod 2 ^ 32 = len + 24" using assms(2) by simp
  then show ?thesis
    using assms
    by (simp add: sr_send_packet_def Let_def sr_log_packet_ok sr_ether_addrs_match_interface_def
        mslice_def transmit_def vns_frame_def split: option.split)
qed

text \<open>
  Claim C40: the packet log can be read back. Logging a packet extends a readable log by exactly one
  record that holds the time stamp and the first 1024 bytes of the packet; both length fields of
  the record hold the number of bytes kept, so the length on the wire is not recorded.
\<close>

theorem logged_packet_reads_back:
  assumes "logfile sr = Some fp" and "pcap_parse fp = Some (fh, xs)" and "len \<le> length buf"
    and "env_clock sr (env_ticks sr) = (s, us)"
  shows "\<exists>sr' fp'. sr_log_packet sr buf len = Inr sr' \<and> logfile sr' = Some fp' \<and>
    pcap_parse fp' = Some (fh, xs @ [(\<lparr>sf_sec = word_of_int s, sf_usec = word_of_int us,
      sf_caplen = of_nat (min 1024 len), sf_len = of_nat (min 1024 len)\<rparr>, take (min 1024 len) buf)])"
proof -
  let ?h = "\<lparr>ph_sec = s, ph_usec = us, ph_caplen = of_nat (min 1024 len), ph_len = of_nat (min 1024 len)\<rparr>"
  have u: "unat (of_nat (min 1024 len) :: u32) = min 1024 len" by (simp add: unat_of_nat)
  obtain fp' where d: "sr_dump fp ?h buf = Inr fp'"
    using assms(3) by (simp add: sr_dump_def u Let_def)
  have "(if min 1024 len < 1024 then min 1024 len else 1024) = min 1024 len" by simp
  with d assms(1,4) have "sr_log_packet sr buf len =
      Inr (sr\<lparr>env_ticks := Suc (env_ticks sr), logfile := Some fp'\<rparr>)"
    by (simp add: sr_log_packet_def gettimeofday_def Let_def)
  moreover have "pcap_parse fp' = Some (fh, xs @ [(\<lparr>sf_sec = word_of_int s, sf_usec = word_of_int us,
      sf_caplen = of_nat (min 1024 len), sf_len = of_nat (min 1024 len)\<rparr>, take (min 1024 len) buf)])"
    using sr_dump_records [OF d assms(2)] u by simp
  ultimately show ?thesis by (intro exI conjI) (assumption, simp_all)
qed

section \<open>Examples\<close>

definition ex_instance :: "byte list option \<Rightarrow> sr_instance" where
  "ex_instance log = \<lparr>sockfd = 3, sr_user = [], sr_host = [], sr_template = [], sr_topo_id = 0,
     if_list = [ex_if], routing_table = ex_rtable, cache = ex_cache, logfile = log,
     env_clock = (\<lambda>k. (int k, 0)), env_ticks = 0, env_write = (\<lambda>_ m. int (length m)), wire = []\<rparr>"

theorem sr_send_packet_behaviour_witness:
  "sr_send_packet (ex_instance None) (replicate 60 0) 60 ''eth1'' = Inr (- 1, ex_instance None)"
proof -
  have "ether_shost (dec_eth (replicate 14 0)) \<noteq> MAC 2 0 0 0 0 1"
    by (simp add: dec_eth_def field_def dec_mac_def numeral_eq_Suc)
  then show ?thesis
    using sr_send_packet_behaviour [of 60 "replicate 60 0" "ex_instance None" "''eth1''"]
    by (simp add: log_frame_no_log ex_instance_def ex_if_def strncmp_eq_def)
qed

theorem logged_packet_reads_back_witness:
  "\<exists>fp sr' fp' h. sr_dump_open (\<lambda>_. True) ''log'' 0 1024 = Some fp \<and>
     sr_log_packet (ex_instance (Some fp)) [1, 2, 3] 3 = Inr sr' \<and> logfile sr' = Some fp' \<and>
     map_option snd (pcap_parse fp') = Some [(h, [1, 2, 3])]"
proof -
  obtain fp where fp: "sr_dump_open (\<lambda>_. True) ''log'' 0 1024 = Some fp"
    by (simp add: sr_dump_open_def)
  from logged_packet_reads_back [OF _ sr_dump_open_parse [OF this], of "ex_instance (Some fp)" 3 "[1, 2, 3]"]
  show ?thesis using fp by (fastforce simp: ex_instance_def)
qed

end
