(* ===== verification/Checksum.thy ===== *)
theory Checksum
  imports Protocol
begin

text \<open>
  The two Internet-checksum routines of the router: \<^verbatim>\<open>ip_checksum\<close> (\<^verbatim>\<open>sr_router.c\<close>), which
  adds the 16-bit words as the host loads them, and \<^verbatim>\<open>cksum\<close> (\<^verbatim>\<open>sr_utils.c\<close>), which adds
  them in network order and converts the result. The locale \<open>ones_complement_sum\<close> states what
  both summing loops promise (the 32-bit accumulator is congruent, modulo \<open>2\<^sup>1\<^sup>6 - 1\<close>, to a
  weight times the little-endian acc of the block) and derives the folded result from it; its two
  interpretations give that the routines compute the same checksum, and that storing it makes the
  block verify.
\<close>

section \<open>The routines\<close>

function ip_checksum_words :: "byte list \<Rightarrow> int \<Rightarrow> u32 \<Rightarrow> u32 res" where
  "ip_checksum_words ptr len acc =
     (if len > 1 then
        rbind (rd16 ptr 0) (\<lambda>w. ip_checksum_words (drop 2 ptr) (len - 2) (acc + ucast w))
      else if len = 1 then rbind (rd8 ptr 0) (\<lambda>b. Inr (acc + ucast b))
      else Inr acc)"
  by pat_completeness auto
termination
  by (relation "measure (\<lambda>(ptr, len, acc). nat len)") auto

declare ip_checksum_words.simps [simp del]

function cksum_words :: "byte list \<Rightarrow> int \<Rightarrow> u32 \<Rightarrow> u32 res" where
  "cksum_words data len acc =
     (if len \<ge> 2 then
        rbind (rd8 data 0) (\<lambda>d0. rbind (rd8 data 1) (\<lambda>d1.
          cksum_words (drop 2 data) (len - 2) (acc + (push_bit 8 (ucast d0) OR ucast d1))))
      else if len > 0 then rbind (rd8 data 0) (\<lambda>d0. Inr (acc + push_bit 8 (ucast d0)))
      else Inr acc)"
  by pat_completeness auto
termination
  by (relation "measure (\<lambda>(data, len, acc). nat len)") auto

declare cksum_words.simps [simp del]

lemma unat_fold_step:
  "unat ((s AND 0xFFFF) + drop_bit 16 s) = unat (s :: u32) mod 65536 + unat s div 65536"
proof -
  have "s AND 0xFFFF = take_bit 16 s"
    by (simp add: take_bit_eq_mask mask_eq_exp_minus_1)
  then have lo: "unat (s AND 0xFFFF) = unat s mod 65536"
    by (simp only: unsigned_take_bit_eq) (simp add: take_bit_nat_def)
  have hi: "unat (drop_bit 16 s) = unat s div 65536"
    by (simp add: unat_drop_bit_eq drop_bit_nat_def)
  have "unat s < 2 ^ 32"
    using unsigned_less [of s] by simp
  then have "unat s mod 65536 + unat s div 65536 < 2 ^ 32"
    by simp
  then show ?thesis
    by (simp add: unat_word_ariths lo hi)
qed

lemma carry_pending_iff: "drop_bit 16 (s :: u32) \<noteq> 0 \<longleftrightarrow> 65536 \<le> unat s"
  by (simp add: word_eq_iff_unsigned unat_drop_bit_eq drop_bit_nat_def div_eq_0_iff not_less
      flip: unat_eq_zero)

function fold_carry :: "u32 \<Rightarrow> u32" where
  "fold_carry acc =
     (if drop_bit 16 acc \<noteq> 0 then fold_carry ((acc AND 0xFFFF) + drop_bit 16 acc) else acc)"
  by pat_completeness auto
termination
proof (relation "measure unat", goal_cases)
  case (2 s)
  then have "65536 \<le> unat s" by (simp only: carry_pending_iff)
  moreover have "unat s mod 65536 + unat s div 65536 < unat s" if "65536 \<le> unat s"
    using that div_mult_mod_eq [of "unat s" 65536] by linarith
  ultimately show ?case by (simp only: in_measure unat_fold_step)
qed simp

declare fold_carry.simps [simp del]

definition ip_checksum :: "byte list \<Rightarrow> int \<Rightarrow> u16 res" where
  "ip_checksum buf len =
     rbind (ip_checksum_words buf len 0) (\<lambda>acc. Inr (ucast (NOT (fold_carry acc))))"

function cksum_fold :: "u32 \<Rightarrow> u32" where
  "cksum_fold acc =
     (if acc > 0xFFFF then cksum_fold (drop_bit 16 acc + (acc AND 0xFFFF)) else acc)"
  by pat_completeness auto
termination
proof (relation "measure unat", goal_cases)
  case (2 s)
  then have "65536 \<le> unat s" by (simp add: word_less_nat_alt)
  moreover have "unat s mod 65536 + unat s div 65536 < unat s" if "65536 \<le> unat s"
    using that div_mult_mod_eq [of "unat s" 65536] by linarith
  ultimately show ?case
    by (simp only: in_measure unat_fold_step add.commute [of "drop_bit 16 s"])
qed simp

declare cksum_fold.simps [simp del]

text \<open>
  \<^verbatim>\<open>sum = htons(~sum)\<close> truncates the complement to 16 bits, and the zero result is sent as
  \<^verbatim>\<open>0xffff\<close>.
\<close>

definition cksum :: "byte list \<Rightarrow> int \<Rightarrow> u16 res" where
  "cksum data len =
     rbind (cksum_words data len 0) (\<lambda>acc.
       let s = htons (ucast (NOT (cksum_fold acc)))
       in Inr (if s \<noteq> 0 then s else 0xFFFF))"

section \<open>One's-complement arithmetic\<close>

text \<open>\<open>norm16 n\<close> is the one's-complement 16-bit value of a acc \<open>n\<close>.\<close>

definition norm16 :: "nat \<Rightarrow> nat" where
  "norm16 n = (if n = 0 then 0 else Suc ((n - 1) mod 65535))"

lemma norm16_le: "norm16 n \<le> 65535"
  by (simp add: norm16_def Suc_le_eq)

lemma norm16_small: "n \<le> 65535 \<Longrightarrow> norm16 n = n"
  by (simp add: norm16_def)

lemma norm16_mod: "norm16 n mod 65535 = n mod 65535"
  by (cases n) (simp_all add: norm16_def mod_Suc_eq)

lemma norm16_eq_0_iff [simp]: "norm16 n = 0 \<longleftrightarrow> n = 0"
  by (simp add: norm16_def)

lemma norm16_cong:
  assumes "a mod 65535 = b mod 65535" and "a = 0 \<longleftrightarrow> b = 0"
  shows "norm16 a = norm16 b"
proof (cases "a = 0")
  case False
  with assms obtain a' b' where ab: "a = Suc a'" "b = Suc b'"
    by (metis not0_implies_Suc)
  have "a' mod 65535 = b' mod 65535"
    using assms(1) unfolding ab by (simp add: mod_Suc split: if_splits)
  then show ?thesis by (simp add: norm16_def ab)
qed (use assms in simp)

lemma norm16_full_iff: "norm16 n = 65535 \<longleftrightarrow> n \<noteq> 0 \<and> n mod 65535 = 0"
proof (cases "norm16 n = 65535")
  case True
  then show ?thesis using norm16_mod [of n] norm16_eq_0_iff [of n] by simp
next
  case False
  then have "norm16 n < 65535" using norm16_le [of n] by simp
  then have "norm16 n = n mod 65535" using norm16_mod [of n] by simp
  with False show ?thesis using norm16_eq_0_iff [of n] by auto
qed

lemma norm16_step: "norm16 (n mod 65536 + n div 65536) = norm16 n"
proof (rule norm16_cong)
  have "n mod 65535 = (65536 * (n div 65536) + n mod 65536) mod 65535" by simp
  also have "\<dots> = (n mod 65536 + n div 65536 + 65535 * (n div 65536)) mod 65535"
    by (simp add: algebra_simps)
  finally show "(n mod 65536 + n div 65536) mod 65535 = n mod 65535"
    by (simp only: mod_mult_self2)
  show "n mod 65536 + n div 65536 = 0 \<longleftrightarrow> n = 0"
    by (auto simp: div_eq_0_iff)
qed

lemma unat_fold_carry: "unat (fold_carry s) = norm16 (unat s)"
proof (induction s rule: fold_carry.induct)
  case (1 s)
  show ?case
  proof (cases "65536 \<le> unat s")
    case True
    then have c: "drop_bit 16 s \<noteq> 0" by (simp only: carry_pending_iff)
    from "1.IH" [OF c] c show ?thesis
      by (simp add: fold_carry.simps [of s] unat_fold_step norm16_step)
  next
    case False
    then have "drop_bit 16 s = 0" using carry_pending_iff by blast
    with False show ?thesis by (simp add: fold_carry.simps [of s] norm16_small)
  qed
qed

lemma cksum_fold_eq_fold_carry: "cksum_fold s = fold_carry s"
proof (induction s rule: cksum_fold.induct)
  case (1 s)
  have "s > 0xFFFF \<longleftrightarrow> drop_bit 16 s \<noteq> 0"
    unfolding carry_pending_iff by (auto simp: word_less_nat_alt)
  with 1 show ?case
    by (simp add: cksum_fold.simps [of s] fold_carry.simps [of s] add.commute)
qed

lemma unat_htons_mod: "unat (htons v) mod 65535 = 256 * unat v mod 65535"
proof -
  have "unat v = unat (lo16 v) + 256 * unat (hi16 v)"
    by (metis mk16_lo_hi unat_mk16)
  then have "256 * unat v = unat (htons v) + 65535 * unat (hi16 v)"
    by (simp add: htons_def unat_mk16)
  then show ?thesis by simp
qed

section \<open>The sum of a block\<close>

fun le_sum :: "byte list \<Rightarrow> nat" where
  "le_sum [] = 0"
| "le_sum [a] = unat a"
| "le_sum (a # b # r) = unat a + 256 * unat b + le_sum r"

fun be_sum :: "byte list \<Rightarrow> nat" where
  "be_sum [] = 0"
| "be_sum [a] = 256 * unat a"
| "be_sum (a # b # r) = 256 * unat a + unat b + be_sum r"

lemma unat_byte_le: "unat (b :: byte) \<le> 255"
proof -
  have "unat b < 2 ^ LENGTH(8)" by (rule unsigned_less)
  then show ?thesis by simp
qed

lemma le_sum_bound: "le_sum bs \<le> 65535 * ((length bs + 1) div 2)"
proof (induction bs rule: le_sum.induct)
  case (2 a)
  then show ?case using unat_byte_le [of a] by simp
next
  case (3 a b r)
  then show ?case using unat_byte_le [of a] unat_byte_le [of b] by simp
qed simp

lemma be_sum_bound: "be_sum bs \<le> 65535 * ((length bs + 1) div 2)"
proof (induction bs rule: be_sum.induct)
  case (2 a)
  then show ?case using unat_byte_le [of a] by simp
next
  case (3 a b r)
  then show ?case using unat_byte_le [of a] unat_byte_le [of b] by simp
qed simp

lemma be_sum_cong: "be_sum bs mod 65535 = 256 * le_sum bs mod 65535"
proof (induction bs rule: be_sum.induct)
  case (3 a b r)
  have "be_sum (a # b # r) mod 65535 = (256 * unat a + unat b + be_sum r mod 65535) mod 65535"
    by (simp add: mod_add_right_eq)
  also have "\<dots> = (256 * unat a + unat b + 256 * le_sum r + 65535 * unat b) mod 65535"
    by (simp only: 3 mod_add_right_eq mod_mult_self2)
  also have "\<dots> = 256 * le_sum (a # b # r) mod 65535"
    by (simp add: algebra_simps)
  finally show ?case .
qed simp_all

lemma be_sum_eq_0_iff: "be_sum bs = 0 \<longleftrightarrow> le_sum bs = 0"
  by (induction bs rule: be_sum.induct) auto

lemma le_sum_append: "even (length xs) \<Longrightarrow> le_sum (xs @ ys) = le_sum xs + le_sum ys"
  by (induction xs rule: le_sum.induct) auto

lemma le_sum_enc16: "le_sum (enc16 v) = unat v"
  by (simp add: enc16_def) (metis mk16_lo_hi unat_mk16)

section \<open>What the two summing loops promise\<close>

text \<open>
  The longest block whose sum fits in the 32-bit accumulator: the loops may add at most
  \<open>2\<^sup>1\<^sup>6\<close> words. Frames have at most 10000 bytes, so every call is within this bound.
\<close>

abbreviation (input) max_block :: nat where "max_block \<equiv> 131072"

locale ones_complement_sum =
  fixes loop :: "byte list \<Rightarrow> int \<Rightarrow> u32 \<Rightarrow> u32 res"
    and total :: "byte list \<Rightarrow> nat"
    and weight :: nat
  assumes loop_ok: "0 \<le> len \<Longrightarrow> nat len \<le> length p \<Longrightarrow>
      loop p len s = Inr (s + of_nat (total (take (nat len) p)))"
    and loop_oob: "int (length p) < len \<Longrightarrow> loop p len s = Inl OutOfBounds"
    and total_bound: "total bs \<le> 65535 * ((length bs + 1) div 2)"
    and total_cong: "total bs mod 65535 = weight * le_sum bs mod 65535"
    and total_zero: "total bs = 0 \<longleftrightarrow> le_sum bs = 0"
    and weight_pos: "0 < weight"
begin

lemma unat_total:
  assumes "length bs \<le> max_block"
  shows "unat (of_nat (total bs) :: u32) = total bs"
proof -
  have "(length bs + 1) div 2 \<le> 65536"
    using assms by linarith
  then have "total bs \<le> 65535 * 65536"
    using total_bound [of bs] by (meson le_trans mult_le_mono2)
  then show ?thesis
    by (simp add: unat_of_nat)
qed

lemma folded:
  assumes "0 \<le> len" "nat len \<le> length p" "nat len \<le> max_block"
  shows "\<exists>s. loop p len 0 = Inr s \<and>
    unat (fold_carry s) = norm16 (weight * le_sum (take (nat len) p))"
proof -
  let ?bs = "take (nat len) p"
  have "unat (of_nat (total ?bs) :: u32) = total ?bs"
    using assms by (intro unat_total) simp
  moreover have "norm16 (total ?bs) = norm16 (weight * le_sum ?bs)"
    using weight_pos by (intro norm16_cong total_cong) (simp add: total_zero)
  ultimately show ?thesis
    using assms by (auto simp: loop_ok unat_fold_carry)
qed

end

lemma block_split2: "Suc (Suc n) \<le> length p \<Longrightarrow> \<exists>a b q. p = a # b # q \<and> n \<le> length q"
  by (auto simp: Suc_le_length_iff)

lemma ucast_mk16: "(ucast (mk16 a b) :: u32) = of_nat (unat a + 256 * unat b)"
  by (simp only: unat_mk16 [symmetric] of_nat_unat)

lemma ucast_be16:
  "(push_bit 8 (ucast a) OR ucast b :: u32) = of_nat (256 * unat (a :: byte) + unat (b :: byte))"
proof -
  have "(push_bit 8 (ucast a) OR ucast b :: u32) = push_bit 8 (ucast a) + ucast b"
    by (rule disjunctive_add [symmetric]) (auto simp: bit_simps dest: bit_imp_le_length)
  then show ?thesis
    by (simp add: push_bit_eq_mult of_nat_unat algebra_simps)
qed

lemma ip_checksum_words_nat:
  "n \<le> length p \<Longrightarrow> ip_checksum_words p (int n) s = Inr (s + of_nat (le_sum (take n p)))"
proof (induction n arbitrary: p s rule: induct_nat_012)
  case 1
  then show ?case
    by (auto simp: ip_checksum_words.simps [of p] Suc_le_length_iff of_nat_unat)
next
  case (ge2 n)
  then obtain a b q where p: "p = a # b # q" "n \<le> length q" using block_split2 by blast
  then show ?case
    using ge2.IH(1) [of q "s + ucast (mk16 a b)"]
    by (simp add: ip_checksum_words.simps [of "a # b # q"] rd16_def ucast_mk16 algebra_simps)
qed (simp add: ip_checksum_words.simps)

lemma ip_checksum_words_oob:
  "length p < n \<Longrightarrow> ip_checksum_words p (int n) s = Inl OutOfBounds"
proof (induction n arbitrary: p s rule: induct_nat_012)
  case (ge2 n)
  then show ?case
    using ge2.IH(1) [of "drop 2 p"]
    by (auto simp: ip_checksum_words.simps [of p] rd16_def)
qed (auto simp: ip_checksum_words.simps [of "[]"] rd8_def)

lemma cksum_words_nat:
  "n \<le> length p \<Longrightarrow> cksum_words p (int n) s = Inr (s + of_nat (be_sum (take n p)))"
proof (induction n arbitrary: p s rule: induct_nat_012)
  case 1
  then show ?case
    by (auto simp: cksum_words.simps [of p] Suc_le_length_iff of_nat_unat push_bit_eq_mult)
next
  case (ge2 n)
  then obtain a b q where p: "p = a # b # q" "n \<le> length q" using block_split2 by blast
  then show ?case
    using ge2.IH(1) [of q "s + (push_bit 8 (ucast a) OR ucast b)"]
    by (simp add: cksum_words.simps [of "a # b # q"] ucast_be16 algebra_simps)
qed (simp add: cksum_words.simps)

lemma cksum_words_oob:
  "length p < n \<Longrightarrow> cksum_words p (int n) s = Inl OutOfBounds"
proof (induction n arbitrary: p s rule: induct_nat_012)
  case (ge2 n)
  then show ?case
    using ge2.IH(1) [of "drop 2 p"]
    by (auto simp: cksum_words.simps [of p] rd8_def)
qed (auto simp: cksum_words.simps [of "[]"] rd8_def)

interpretation ip_sum: ones_complement_sum ip_checksum_words le_sum 1
proof (unfold_locales, goal_cases)
  case (1 len p s)
  then show ?case using ip_checksum_words_nat [of "nat len" p s] by simp
next
  case (2 p len s)
  then show ?case using ip_checksum_words_oob [of p "nat len" s] by simp
next
  case (3 bs) show ?case by (rule le_sum_bound)
qed simp_all

interpretation ck_sum: ones_complement_sum cksum_words be_sum 256
proof (unfold_locales, goal_cases)
  case (1 len p s)
  then show ?case using cksum_words_nat [of "nat len" p s] by simp
next
  case (2 p len s)
  then show ?case using cksum_words_oob [of p "nat len" s] by simp
next
  case (3 bs) show ?case by (rule be_sum_bound)
qed (simp_all add: be_sum_cong be_sum_eq_0_iff)

section \<open>The routines compute the Internet checksum\<close>

lemma unat_not16: "unat (NOT (w :: u16)) = 65535 - unat w"
proof -
  have "NOT w = - 1 - w" by (simp add: not_eq_complement)
  moreover have "w \<le> - 1" by (rule word_n1_ge)
  moreover have "unat (- 1 :: u16) = 65535"
    by (simp add: unsigned_minus_1_eq_mask mask_eq_exp_minus_1)
  ultimately show ?thesis by (simp add: unat_sub)
qed

lemma unat_complement:
  assumes "unat (f :: u32) \<le> 65535"
  shows "unat (ucast (NOT f) :: u16) = 65535 - unat f"
proof -
  have "(ucast (NOT f) :: u16) = NOT (ucast f)"
    by (rule bit_word_eqI) (auto simp: bit_simps)
  moreover have "unat (ucast f :: u16) = unat f"
    using assms by (simp add: unsigned_ucast_eq take_bit_nat_eq_self)
  ultimately show ?thesis by (simp add: unat_not16)
qed

lemma htons_not: "htons (NOT v) = NOT (htons v)"
  by (rule bit_word_eqI) (auto simp: word_layout_defs bit_simps)

lemma ip_checksum_value:
  assumes "0 \<le> len" "nat len \<le> length p" "nat len \<le> max_block"
  shows "\<exists>c. ip_checksum p len = Inr c \<and> unat c = 65535 - norm16 (le_sum (take (nat len) p))"
proof -
  obtain s where "ip_checksum_words p len 0 = Inr s"
    "unat (fold_carry s) = norm16 (le_sum (take (nat len) p))"
    using ip_sum.folded [OF assms] by auto
  then show ?thesis
    using norm16_le by (simp add: ip_checksum_def unat_complement)
qed

lemma ip_checksum_oob: "int (length p) < len \<Longrightarrow> ip_checksum p len = Inl OutOfBounds"
  by (simp add: ip_checksum_def ip_sum.loop_oob)

lemma ip_checksum_nonpos: "len \<le> 0 \<Longrightarrow> ip_checksum p len = Inr 0xFFFF"
  by (simp add: ip_checksum_def ip_checksum_words.simps fold_carry.simps) code_simp

lemma cksum_value:
  assumes "0 \<le> len" "nat len \<le> length p" "nat len \<le> max_block"
  shows "\<exists>c. ip_checksum p len = Inr c \<and> cksum p len = Inr (if c = 0 then 0xFFFF else c)"
proof -
  let ?L = "le_sum (take (nat len) p)"
  obtain c where c: "ip_checksum p len = Inr c" "unat c = 65535 - norm16 ?L"
    using ip_checksum_value [OF assms] by blast
  obtain s where s: "cksum_words p len 0 = Inr s" "unat (fold_carry s) = norm16 (256 * ?L)"
    using ck_sum.folded [OF assms] by blast
  let ?v = "NOT c"
  have v: "unat ?v = norm16 ?L"
    using c(2) norm16_le [of ?L] by (simp add: unat_not16)
  have "norm16 (unat (htons ?v)) = norm16 (256 * ?L)"
  proof (rule norm16_cong)
    have "256 * norm16 ?L mod 65535 = 256 * ?L mod 65535"
      by (metis mod_mult_right_eq norm16_mod)
    then show "unat (htons ?v) mod 65535 = 256 * ?L mod 65535"
      by (simp add: unat_htons_mod v)
    have "unat (htons ?v) = 0 \<longleftrightarrow> unat ?v = 0"
      by (metis htons_0 htons_htons unsigned_0 unat_eq_zero)
    then show "unat (htons ?v) = 0 \<longleftrightarrow> 256 * ?L = 0"
      by (simp add: v)
  qed
  then have "unat (htons ?v) = unat (fold_carry s)"
    using norm16_small [of "unat (htons ?v)"] unat_not16 [of "NOT (htons ?v)"] s(2) by simp
  then have "unat (ucast (NOT (fold_carry s)) :: u16) = unat (NOT (htons ?v))"
    using norm16_le s(2) by (simp add: unat_complement unat_not16)
  then have "(ucast (NOT (fold_carry s)) :: u16) = NOT (htons ?v)"
    by (rule unsigned_word_eqI)
  then have "htons (ucast (NOT (cksum_fold s))) = c"
    by (simp add: cksum_fold_eq_fold_carry htons_not [symmetric])
  then show ?thesis
    using c s by (simp add: cksum_def Let_def)
qed

section \<open>Storing a checksum in its block\<close>

lemma le_sum_store:
  assumes "even i" "i + 2 \<le> n" "n \<le> length p"
  shows "le_sum (take n (msplice p i (enc16 v))) =
    le_sum (take i p) + unat v + le_sum (take (n - (i + 2)) (drop (i + 2) p))"
proof -
  have "take n (msplice p i (enc16 v)) =
      take i p @ enc16 v @ take (n - (i + 2)) (drop (i + 2) p)"
    using assms by (simp add: msplice_def)
  moreover have "even (length (take i p))" "even (length (enc16 v))"
    using assms by simp_all
  ultimately show ?thesis
    by (simp add: le_sum_append le_sum_enc16)
qed

lemma ip_checksum_zero_iff:
  assumes "n \<le> length p" "n \<le> max_block"
  shows "ip_checksum p (int n) = Inr 0 \<longleftrightarrow>
    le_sum (take n p) \<noteq> 0 \<and> le_sum (take n p) mod 65535 = 0"
proof -
  obtain c where c: "ip_checksum p (int n) = Inr c" "unat c = 65535 - norm16 (le_sum (take n p))"
    using ip_checksum_value [of "int n" p] assms by auto
  have "c = 0 \<longleftrightarrow> unat c = 0" by (simp add: unat_eq_zero)
  then show ?thesis
    using c norm16_le [of "le_sum (take n p)"] norm16_full_iff [of "le_sum (take n p)"] by auto
qed

text \<open>
  Where the one's-complement sum with the field zeroed is \<open>S\<close> and the checksum is \<open>c\<close>, the stored
  value \<open>v\<close> verifies exactly when \<open>S + v\<close> is a non-zero multiple of \<open>2\<^sup>1\<^sup>6 - 1\<close>.
\<close>

lemma store_verifies_iff:
  assumes "even i" "i + 2 \<le> n" "n \<le> length p" "n \<le> max_block"
    and "ip_checksum (msplice p i (enc16 0)) (int n) = Inr c"
  shows "\<exists>S. (S + unat c) mod 65535 = 0 \<and> S + unat c \<noteq> 0 \<and> (S = 0 \<longrightarrow> c = 0xFFFF) \<and>
    (\<forall>v. ip_checksum (msplice p i (enc16 v)) (int n) = Inr 0 \<longleftrightarrow>
       S + unat v \<noteq> 0 \<and> (S + unat v) mod 65535 = 0)"
proof (intro exI conjI allI)
  let ?S = "le_sum (take i p) + le_sum (take (n - (i + 2)) (drop (i + 2) p))"
  have len: "length (msplice p i (enc16 v)) = length p" for v
    using assms by simp
  have sum_v: "le_sum (take n (msplice p i (enc16 v))) = ?S + unat v" for v
    using assms by (simp add: le_sum_store)
  have c: "unat c = 65535 - norm16 ?S"
    using ip_checksum_value [of "int n" "msplice p i (enc16 0)"] assms len sum_v [of 0] by simp
  have "norm16 ?S + unat c = 65535" using c norm16_le [of ?S] by simp
  then have "(?S mod 65535 + unat c) mod 65535 = 0"
    by (metis mod_add_left_eq mod_self norm16_mod)
  then show "(?S + unat c) mod 65535 = 0" by (simp add: mod_add_left_eq)
  have S0: "unat c = 65535" if "?S = 0"
    using c unfolding that by (simp add: norm16_def)
  then show "?S + unat c \<noteq> 0" by linarith
  show "?S = 0 \<longrightarrow> c = 0xFFFF"
    using S0 by (intro impI unsigned_word_eqI) (simp only: unsigned_numeral, simp)
  show "ip_checksum (msplice p i (enc16 v)) (int n) = Inr 0 \<longleftrightarrow>
      ?S + unat v \<noteq> 0 \<and> (?S + unat v) mod 65535 = 0" for v
    using assms len by (simp add: ip_checksum_zero_iff sum_v)
qed

text \<open>The checksum fields of the two headers whose checksums the code computes.\<close>

lemma enc_ip_sum: "enc_ip (h\<lparr>ip_sum := v\<rparr>) = msplice (enc_ip h) 10 (enc16 v)"
  by (simp add: enc_ip_def msplice_def enc16_def)

lemma enc_t3_sum: "enc_icmp_t3 (h\<lparr>t3_icmp_sum := v\<rparr>) = msplice (enc_icmp_t3 h) 2 (enc16 v)"
  by (simp add: enc_icmp_t3_def msplice_def enc16_def)

text \<open>
  Claim C26: \<open>cksum\<close> and \<open>ip_checksum\<close> are the same Internet checksum of a block, computed in the
  two byte orders, except that \<open>cksum\<close> reports the zero result as \<open>0xFFFF\<close>.
\<close>

theorem cksum_agrees_with_ip_checksum:
  assumes "0 \<le> len" and "nat len \<le> length data" and "nat len \<le> max_block"
  shows "\<exists>c. ip_checksum data len = Inr c \<and> cksum data len = Inr (if c = 0 then 0xFFFF else c)"
  using assms by (rule cksum_value)

theorem cksum_agrees_with_ip_checksum_witness:
  "\<exists>c. ip_checksum [0x45, 0, 0, 0x54, 1] 5 = Inr c \<and>
       cksum [0x45, 0, 0, 0x54, 1] 5 = Inr (if c = 0 then 0xFFFF else c)"
  by (rule cksum_agrees_with_ip_checksum) simp_all

text \<open>
  A block whose 16-bit checksum field (at an even offset) is overwritten with the value
  \<open>ip_checksum\<close> computed with that field zeroed verifies: its own checksum is zero.
\<close>

theorem ip_checksum_store_verifies:
  assumes "even i" and "i + 2 \<le> n" and "n \<le> length p" and "n \<le> max_block"
    and "ip_checksum (msplice p i (enc16 0)) (int n) = Inr c"
  shows "ip_checksum (msplice p i (enc16 c)) (int n) = Inr 0"
  using store_verifies_iff [OF assms] by metis

theorem ip_checksum_store_verifies_witness:
  "ip_checksum (msplice [0x45, 0, 0, 0x54] 2 (enc16 0xFFBA)) 4 = Inr 0"
proof -
  have "ip_checksum (msplice [0x45, 0, 0, 0x54] 2 (enc16 0)) (int 4) = Inr 0xFFBA"
    by (simp add: ip_checksum_def ip_checksum_words.simps fold_carry.simps rd16_def msplice_def
        enc16_def byte_simps)
  from ip_checksum_store_verifies [OF _ _ _ _ this] show ?thesis by simp
qed

lemma swapped_word_le:
  fixes l h S :: nat
  assumes "l \<le> 255" "h \<le> 255" "65535 dvd S + (l + 256 * h)" "65535 dvd S + (h + 256 * l)"
  shows "h \<le> l"
proof (rule ccontr)
  assume "\<not> h \<le> l"
  then have "(S + (l + 256 * h)) - (S + (h + 256 * l)) = 255 * (h - l)" by simp
  with assms(3,4) have "65535 dvd 255 * (h - l)" by (metis dvd_diff_nat)
  moreover have "0 < 255 * (h - l)" "255 * (h - l) < 65535"
    using assms(1,2) \<open>\<not> h \<le> l\<close> by simp_all
  ultimately show False using nat_dvd_not_less by blast
qed

lemma swapped_store_verifies_iff:
  assumes "even i" and "i + 2 \<le> n" and "n \<le> length p" and "n \<le> max_block"
    and "ip_checksum (msplice p i (enc16 0)) (int n) = Inr c"
  shows "ip_checksum (msplice p i (enc16 (htons c))) (int n) = Inr 0 \<longleftrightarrow> lo16 c = hi16 c"
proof -
  obtain S where S: "(S + unat c) mod 65535 = 0" "S + unat c \<noteq> 0" "S = 0 \<longrightarrow> c = 0xFFFF"
    and iff: "\<And>v. ip_checksum (msplice p i (enc16 v)) (int n) = Inr 0 \<longleftrightarrow>
      S + unat v \<noteq> 0 \<and> (S + unat v) mod 65535 = 0"
    using store_verifies_iff [OF assms] by metis
  let ?l = "unat (lo16 c)" and ?h = "unat (hi16 c)"
  have c: "unat c = ?l + 256 * ?h" by (metis mk16_lo_hi unat_mk16)
  have h: "unat (htons c) = ?h + 256 * ?l" by (simp add: htons_def unat_mk16)
  have bounds: "?l \<le> 255" "?h \<le> 255" by (rule unat_byte_le)+
  show ?thesis
  proof
    assume "ip_checksum (msplice p i (enc16 (htons c))) (int n) = Inr 0"
    then have "65535 dvd S + (?h + 256 * ?l)" using iff h by (metis mod_eq_0_iff_dvd)
    moreover have "65535 dvd S + (?l + 256 * ?h)" using S(1) c by (metis mod_eq_0_iff_dvd)
    ultimately have "?l = ?h"
      using bounds swapped_word_le by (intro antisym) blast+
    then show "lo16 c = hi16 c" by (rule unsigned_word_eqI)
  next
    assume "lo16 c = hi16 c"
    then have "htons c = c" by (metis htons_def mk16_lo_hi)
    with iff S(1,2) show "ip_checksum (msplice p i (enc16 (htons c))) (int n) = Inr 0" by metis
  qed
qed

text \<open>
  The code stores \<open>htons (ip_checksum ...)\<close>. On the little-endian host the field then
  verifies exactly when the two bytes of the checksum are equal, so for almost every block the
  stored checksum is wrong.
\<close>

theorem htons_checksum_verifies_iff:
  assumes "even i" and "i + 2 \<le> n" and "n \<le> length p" and "n \<le> max_block"
    and "ip_checksum (msplice p i (enc16 0)) (int n) = Inr c"
  shows "ip_checksum (msplice p i (enc16 (htons c))) (int n) = Inr 0 \<longleftrightarrow> lo16 c = hi16 c"
  using assms by (rule swapped_store_verifies_iff)

theorem htons_checksum_verifies_iff_witness:
  "ip_checksum (msplice [0x45, 0, 0, 0x54] 2 (enc16 (htons 0xFFBA))) 4 \<noteq> Inr 0"
proof -
  have "ip_checksum (msplice [0x45, 0, 0, 0x54] 2 (enc16 0)) (int 4) = Inr 0xFFBA"
    by (simp add: ip_checksum_def ip_checksum_words.simps fold_carry.simps rd16_def msplice_def
        enc16_def byte_simps)
  from htons_checksum_verifies_iff [OF _ _ _ _ this] show ?thesis
    by (simp add: lo16_def hi16_def)
qed

end
