(* ===== verification/ArpSweep.thy ===== *)
theory ArpSweep
  imports Instance Checksum
begin

text \<open>
  The timer side of \<^verbatim>\<open>sr_arpcache.c\<close>: resending or giving up on outstanding ARP requests
  (\<^verbatim>\<open>handle_arpreq\<close>, \<^verbatim>\<open>send_arp_request_for_req\<close>, \<^verbatim>\<open>send_icmp_host_unreachable\<close>,
  \<^verbatim>\<open>sr_arpcache_sweepreqs\<close>) and one round of the thread \<^verbatim>\<open>sr_arpcache_timeout\<close>. The frame
  builders shared with \<^verbatim>\<open>sr_router.c\<close>, which repeats their code, are here too.
\<close>

section \<open>Frames\<close>

text \<open>The broadcast ARP request for \<open>tip\<close>, sent from \<open>iface\<close>.\<close>

definition arp_request_frame :: "sr_if \<Rightarrow> u32 \<Rightarrow> byte list" where
  "arp_request_frame iface tip =
     enc_eth \<lparr>ether_dhost = MAC 0xFF 0xFF 0xFF 0xFF 0xFF 0xFF, ether_shost = if_addr iface,
              ether_type = htons ethertype_arp\<rparr> @
     enc_arp \<lparr>ar_hrd = htons arp_hrd_ethernet, ar_pro = htons ethertype_ip, ar_hln = 6, ar_pln = 4,
              ar_op = htons arp_op_request, ar_sha = if_addr iface, ar_sip = if_ip iface,
              ar_tha = MAC 0 0 0 0 0 0, ar_tip = tip\<rparr>"

text \<open>The IP and ICMP headers of an error message, with the checksum fields still zero.\<close>

definition t3_ip_hdr :: "u32 \<Rightarrow> u32 \<Rightarrow> sr_ip_hdr" where
  "t3_ip_hdr src dst =
     \<lparr>ip_hl = 5, ip_v = 4, ip_tos = 0, ip_len = htons 56, ip_id = 0, ip_off = 0, ip_ttl = 64,
      ip_p = ip_protocol_icmp, ip_sum = 0, ip_src = src, ip_dst = dst\<rparr>"

definition t3_icmp_hdr :: "byte \<Rightarrow> byte \<Rightarrow> byte list \<Rightarrow> sr_icmp_t3_hdr" where
  "t3_icmp_hdr ty co data =
     \<lparr>t3_icmp_type = ty, t3_icmp_code = co, t3_icmp_sum = 0, t3_unused = 0, t3_next_mtu = 0,
      t3_data = data\<rparr>"

section \<open>Retrying and giving up\<close>

definition send_arp_request_for_req :: "sr_instance \<Rightarrow> sr_arpreq \<Rightarrow> sr_instance res" where
  "send_arp_request_for_req sr req =
     (case rq_packets req of
        [] \<Rightarrow> Inr sr
      | pkt # _ \<Rightarrow>
          (case sr_get_interface (if_list sr) (pk_iface pkt) of
             None \<Rightarrow> Inr sr
           | Some iface \<Rightarrow>
               rbind (sr_send_packet sr (arp_request_frame iface (rq_ip req)) 42 (if_name iface))
                 (\<lambda>(_, sr'). Inr sr')))"

text \<open>The body of the loop over the waiting packets; \<^verbatim>\<open>continue\<close> returns the state.\<close>

definition host_unreachable_one :: "sr_instance \<Rightarrow> sr_packet \<Rightarrow> sr_instance res" where
  "host_unreachable_one sr pkt =
     (case sr_get_interface (if_list sr) (pk_iface pkt) of
        None \<Rightarrow> Inr sr
      | Some out_iface \<Rightarrow>
          rbind (rd_struct sizeof_ip dec_ip (pk_buf pkt) sizeof_eth) (\<lambda>orig_ip.
          let ip0 = t3_ip_hdr (if_ip out_iface) (ip_src orig_ip) in
          rbind (cksum (enc_ip ip0) 20) (\<lambda>c.
          let ip = ip0\<lparr>ip_sum := c\<rparr> in
          rbind (rd_bytes (pk_buf pkt) sizeof_eth ICMP_DATA_SIZE) (\<lambda>data.
          let icmp0 = t3_icmp_hdr 3 1 data in
          rbind (cksum (enc_icmp_t3 icmp0) 36) (\<lambda>c2.
          let icmp = icmp0\<lparr>t3_icmp_sum := c2\<rparr> in
          case lpm_lookup (routing_table sr) (ip_src orig_ip) of
            None \<Rightarrow> Inr sr
          | Some best \<Rightarrow>
              (case sr_get_interface (if_list sr) (rt_interface best) of
                 None \<Rightarrow> Inr sr
               | Some send_iface \<Rightarrow>
                   let next_hop = (if rt_gw best \<noteq> 0 then rt_gw best else ip_src orig_ip) in
                   (case sr_arpcache_lookup (cache sr) next_hop of
                      Some arp_entry \<Rightarrow>
                        rbind (sr_send_packet sr
                          (enc_eth \<lparr>ether_dhost = ae_mac arp_entry, ether_shost = if_addr send_iface,
                                    ether_type = htons ethertype_ip\<rparr> @ enc_ip ip @ enc_icmp_t3 icmp)
                          70 (if_name send_iface)) (\<lambda>(_, sr'). Inr sr')
                    | None \<Rightarrow> Inr sr)))))))"

fun host_unreachable_loop :: "sr_instance \<Rightarrow> sr_packet list \<Rightarrow> sr_instance res" where
  "host_unreachable_loop sr [] = Inr sr"
| "host_unreachable_loop sr (pkt # rest) =
     rbind (host_unreachable_one sr pkt) (\<lambda>sr'. host_unreachable_loop sr' rest)"

definition send_icmp_host_unreachable :: "sr_instance \<Rightarrow> sr_arpreq \<Rightarrow> sr_instance res" where
  "send_icmp_host_unreachable sr req = host_unreachable_loop sr (rq_packets req)"

text \<open>\<^verbatim>\<open>req\<close> is a pointer: its target is looked up among the live requests.\<close>

definition handle_arpreq :: "sr_instance \<Rightarrow> nat \<Rightarrow> sr_instance res" where
  "handle_arpreq sr a =
     (case time_now sr of (now, sr1) \<Rightarrow>
        case deref_req a (requests (cache sr1)) of
          None \<Rightarrow> Inl UseAfterFree
        | Some req \<Rightarrow>
            if now - rq_sent req \<ge> 1 then
              if rq_times_sent req \<ge> 5 then
                rbind (send_icmp_host_unreachable sr1 req) (\<lambda>sr2.
                  Inr (sr2\<lparr>cache := sr_arpreq_destroy (cache sr2) a\<rparr>))
              else
                rbind (send_arp_request_for_req sr1 req) (\<lambda>sr2.
                  Inr (sr2\<lparr>cache := upd_req a (\<lambda>r. r\<lparr>rq_sent := now,
                                 rq_times_sent := rq_times_sent r + 1\<rparr>) (cache sr2)\<rparr>))
            else Inr sr1)"

text \<open>
  The sweep saves \<^verbatim>\<open>req->next\<close> before it handles a request. Handling a request unlinks at most that
  request, so the walk visits the addresses that are on the list when it starts, in order.
\<close>

fun sweep_loop :: "sr_instance \<Rightarrow> nat list \<Rightarrow> sr_instance res" where
  "sweep_loop sr [] = Inr sr"
| "sweep_loop sr (req # rest) = rbind (handle_arpreq sr req) (\<lambda>sr'. sweep_loop sr' rest)"

definition sr_arpcache_sweepreqs :: "sr_instance \<Rightarrow> sr_instance res" where
  "sr_arpcache_sweepreqs sr = sweep_loop sr (map rq_addr (requests (cache sr)))"

text \<open>One iteration of the loop of \<^verbatim>\<open>sr_arpcache_timeout\<close>, after its \<^verbatim>\<open>sleep\<close>.\<close>

definition arpcache_timeout_round :: "sr_instance \<Rightarrow> sr_instance res" where
  "arpcache_timeout_round sr =
     (case time_now sr of (curtime, sr1) \<Rightarrow>
        sr_arpcache_sweepreqs (sr1\<lparr>cache := arpcache_expire curtime (cache sr1)\<rparr>))"

end
