(* ===== verification/Router.thy ===== *)
theory Router
  imports ArpSweep
begin

text \<open>
  The packet path of \<^verbatim>\<open>sr_router.c\<close>: \<^verbatim>\<open>sr_handlepacket\<close> and everything it calls. A handler takes
  the instance, the frame (the memory from the packet pointer on), its length and the name of the
  receiving interface, and returns the new instance or the fault it runs into. The
  report that \<^verbatim>\<open>sr_handlepacket\<close> prints is in \<^verbatim>\<open>Printing\<close>.
\<close>

section \<open>ARP\<close>

definition send_arp_request :: "sr_instance \<Rightarrow> u32 \<Rightarrow> string \<Rightarrow> sr_instance res" where
  "send_arp_request sr tip interface =
     (case sr_get_interface (if_list sr) interface of
        None \<Rightarrow> Inr sr
      | Some iface \<Rightarrow>
          rbind (sr_send_packet sr (arp_request_frame iface tip) 42 interface)
            (\<lambda>(_, sr'). Inr sr'))"

definition send_arp_reply :: "sr_instance \<Rightarrow> byte list \<Rightarrow> nat \<Rightarrow> string \<Rightarrow> sr_instance res" where
  "send_arp_reply sr packet len interface =
     rbind (rd_struct sizeof_eth dec_eth packet 0) (\<lambda>req_eth.
     rbind (rd_struct sizeof_arp dec_arp packet sizeof_eth) (\<lambda>req_arp.
       case sr_get_interface_by_ip (if_list sr) (ar_tip req_arp) of
         None \<Rightarrow> Inr sr
       | Some iface \<Rightarrow>
           rbind (sr_send_packet sr
             (enc_eth \<lparr>ether_dhost = ether_shost req_eth, ether_shost = if_addr iface,
                       ether_type = htons ethertype_arp\<rparr> @
              enc_arp \<lparr>ar_hrd = htons arp_hrd_ethernet, ar_pro = htons ethertype_ip, ar_hln = 6,
                       ar_pln = 4, ar_op = htons arp_op_reply, ar_sha = if_addr iface,
                       ar_sip = if_ip iface, ar_tha = ar_sha req_arp, ar_tip = ar_sip req_arp\<rparr>)
             42 interface) (\<lambda>(_, sr'). Inr sr')))"

text \<open>
  The loop that sends the packets of a resolved request. \<^verbatim>\<open>out_iface\<close> is dereferenced without a
  check.
\<close>

fun send_waiting :: "sr_instance \<Rightarrow> mac \<Rightarrow> sr_packet list \<Rightarrow> sr_instance res" where
  "send_waiting sr sha [] = Inr sr"
| "send_waiting sr sha (pkt # rest) =
     (case sr_get_interface (if_list sr) (pk_iface pkt) of
        None \<Rightarrow> Inl NullDeref
      | Some out_iface \<Rightarrow>
          rbind (wr_struct enc_eth (pk_buf pkt) 0
            \<lparr>ether_dhost = sha, ether_shost = if_addr out_iface,
             ether_type = htons ethertype_ip\<rparr>) (\<lambda>buf.
          rbind (sr_send_packet sr buf (pk_len pkt) (pk_iface pkt)) (\<lambda>(_, sr').
            send_waiting sr' sha rest)))"

text \<open>
  \<^verbatim>\<open>sr_arpcache_insert\<close> on the instance: the clock is only read when there is a slot for the entry.
\<close>

definition arpcache_insert_now :: "sr_instance \<Rightarrow> mac \<Rightarrow> u32 \<Rightarrow> sr_arpreq option \<times> sr_instance" where
  "arpcache_insert_now sr m ip =
     (case (if first_free (entries (cache sr)) \<noteq> length (entries (cache sr)) then time_now sr else (0, sr))
      of (now, sr1) \<Rightarrow>
        case sr_arpcache_insert (cache sr1) m ip now of (req, c) \<Rightarrow> (req, sr1\<lparr>cache := c\<rparr>))"

definition handle_arp_packet :: "sr_instance \<Rightarrow> byte list \<Rightarrow> nat \<Rightarrow> string \<Rightarrow> sr_instance res" where
  "handle_arp_packet sr packet len interface =
     (if len < sizeof_eth + sizeof_arp then Inr sr
      else
        rbind (rd_struct sizeof_arp dec_arp packet sizeof_eth) (\<lambda>arp_hdr.
          let op = ntohs (ar_op arp_hdr) in
          if op = arp_op_request then
            (case sr_get_interface_by_ip (if_list sr) (ar_tip arp_hdr) of
               Some iface \<Rightarrow> send_arp_reply sr packet len interface
             | None \<Rightarrow> Inr sr)
          else if op = arp_op_reply then
            (case arpcache_insert_now sr (ar_sha arp_hdr) (ar_sip arp_hdr) of
               (None, sr1) \<Rightarrow> Inr sr1
             | (Some req, sr1) \<Rightarrow>
                 rbind (send_waiting sr1 (ar_sha arp_hdr) (rq_packets req)) (\<lambda>sr2.
                   Inr (sr2\<lparr>cache := sr_arpreq_destroy (cache sr2) (rq_addr req)\<rparr>)))
          else Inr sr))"

section \<open>Queueing for resolution\<close>

text \<open>
  What follows \<^verbatim>\<open>sr_arpcache_queuereq\<close> in both callers: a request that has never been sent is sent
  now. \<open>req\<close> is the pointer that queueing returned.
\<close>

definition request_if_new :: "sr_instance \<Rightarrow> nat \<Rightarrow> u32 \<Rightarrow> string \<Rightarrow> sr_instance res" where
  "request_if_new sr req next_hop ifname =
     (case deref_req req (requests (cache sr)) of
        None \<Rightarrow> Inl UseAfterFree
      | Some r \<Rightarrow>
          if rq_times_sent r = 0 then
            rbind (send_arp_request sr next_hop ifname) (\<lambda>sr1.
              case time_now sr1 of (now, sr2) \<Rightarrow>
                Inr (sr2\<lparr>cache := upd_req req (\<lambda>r. r\<lparr>rq_sent := now, rq_times_sent := 1\<rparr>)
                                   (cache sr2)\<rparr>))
          else Inr sr)"

section \<open>ICMP\<close>

definition send_icmp_echo_reply :: "sr_instance \<Rightarrow> byte list \<Rightarrow> nat \<Rightarrow> string \<Rightarrow> sr_instance res" where
  "send_icmp_echo_reply sr packet len interface =
     rbind (rd_bytes packet 0 len) (\<lambda>reply0.
     rbind (rd_struct sizeof_eth dec_eth packet 0) (\<lambda>req_eth.
       case sr_get_interface (if_list sr) interface of
         None \<Rightarrow> Inl NullDeref
       | Some iface \<Rightarrow>
           rbind (wr_struct enc_eth reply0 0
             (req_eth\<lparr>ether_dhost := ether_shost req_eth, ether_shost := if_addr iface\<rparr>)) (\<lambda>reply1.
           rbind (rd_struct sizeof_ip dec_ip reply1 sizeof_eth) (\<lambda>h.
           let ip0 = h\<lparr>ip_src := ip_dst h, ip_dst := ip_src h, ip_ttl := 64, ip_sum := 0\<rparr> in
           rbind (wr_struct enc_ip reply1 sizeof_eth ip0) (\<lambda>reply2.
           rbind (ip_checksum (drop sizeof_eth reply2) (uint (ip_hl ip0) * 4)) (\<lambda>c.
           rbind (wr_struct enc_ip reply2 sizeof_eth (ip0\<lparr>ip_sum := htons c\<rparr>)) (\<lambda>reply3.
           let icmp0 = \<lparr>icmp_type = 0, icmp_code = 0, icmp_sum = 0\<rparr> in
           rbind (wr_struct enc_icmp reply3 34 icmp0) (\<lambda>reply4.
           rbind (ip_checksum (drop 34 reply4) (int len - 34)) (\<lambda>c2.
           rbind (wr_struct enc_icmp reply4 34 (icmp0\<lparr>icmp_sum := htons c2\<rparr>)) (\<lambda>reply5.
           rbind (sr_send_packet sr reply5 len interface) (\<lambda>(_, sr'). Inr sr')))))))))))"

definition send_icmp_t3 ::
    "sr_instance \<Rightarrow> byte list \<Rightarrow> nat \<Rightarrow> byte \<Rightarrow> byte \<Rightarrow> sr_instance res" where
  "send_icmp_t3 sr packet len ty co =
     rbind (rd_struct sizeof_ip dec_ip packet sizeof_eth) (\<lambda>req_ip.
       case lpm_lookup (routing_table sr) (ip_src req_ip) of
         None \<Rightarrow> Inr sr
       | Some rt \<Rightarrow>
           (case sr_get_interface (if_list sr) (rt_interface rt) of
              None \<Rightarrow> Inr sr
            | Some out_iface \<Rightarrow>
                let ip0 = t3_ip_hdr (if_ip out_iface) (ip_src req_ip) in
                rbind (ip_checksum (enc_ip ip0) (uint (ip_hl ip0) * 4)) (\<lambda>c.
                let reply_ip = ip0\<lparr>ip_sum := htons c\<rparr> in
                rbind (rd_bytes packet sizeof_eth ICMP_DATA_SIZE) (\<lambda>data.
                let icmp0 = t3_icmp_hdr ty co data in
                rbind (ip_checksum (enc_icmp_t3 icmp0) 36) (\<lambda>c2.
                let reply_icmp = icmp0\<lparr>t3_icmp_sum := htons c2\<rparr>;
                    next_hop = (if rt_gw rt \<noteq> 0 then rt_gw rt else ip_src req_ip) in
                (case sr_arpcache_lookup (cache sr) next_hop of
                   Some arp_entry \<Rightarrow>
                     rbind (sr_send_packet sr
                       (enc_eth \<lparr>ether_dhost = ae_mac arp_entry, ether_shost = if_addr out_iface,
                                 ether_type = htons ethertype_ip\<rparr> @
                        enc_ip reply_ip @ enc_icmp_t3 reply_icmp)
                       70 (if_name out_iface)) (\<lambda>(_, sr'). Inr sr')
                 | None \<Rightarrow>
                     rbind (sr_arpcache_queuereq (cache sr) next_hop
                       (enc_eth \<lparr>ether_dhost = MAC 0 0 0 0 0 0, ether_shost = if_addr out_iface,
                                 ether_type = htons ethertype_ip\<rparr> @
                        enc_ip reply_ip @ enc_icmp_t3 reply_icmp)
                       70 (if_name out_iface)) (\<lambda>(req, c').
                     request_if_new (sr\<lparr>cache := c'\<rparr>) req next_hop (if_name out_iface))))))))"

section \<open>IP\<close>

definition forward_ip_packet :: "sr_instance \<Rightarrow> byte list \<Rightarrow> nat \<Rightarrow> sr_instance res" where
  "forward_ip_packet sr packet len =
     rbind (rd_struct sizeof_ip dec_ip packet sizeof_eth) (\<lambda>ip_hdr.
     if ip_ttl ip_hdr \<le> 1 then send_icmp_t3 sr packet len 11 0
     else
       let ip1 = ip_hdr\<lparr>ip_ttl := ip_ttl ip_hdr - 1, ip_sum := 0\<rparr> in
       rbind (wr_struct enc_ip packet sizeof_eth ip1) (\<lambda>packet1.
       rbind (ip_checksum (drop sizeof_eth packet1) (uint (ip_hl ip1) * 4)) (\<lambda>c.
       rbind (wr_struct enc_ip packet1 sizeof_eth (ip1\<lparr>ip_sum := htons c\<rparr>)) (\<lambda>packet2.
       case lpm_lookup (routing_table sr) (ip_dst ip1) of
         None \<Rightarrow> send_icmp_t3 sr packet2 len 3 0
       | Some rt \<Rightarrow>
           (case sr_get_interface (if_list sr) (rt_interface rt) of
              None \<Rightarrow> Inr sr
            | Some out_iface \<Rightarrow>
                let next_hop = (if rt_gw rt \<noteq> 0 then rt_gw rt else ip_dst ip1) in
                (case sr_arpcache_lookup (cache sr) next_hop of
                   Some arp_entry \<Rightarrow>
                     rbind (wr_struct enc_eth packet2 0
                       \<lparr>ether_dhost = ae_mac arp_entry, ether_shost = if_addr out_iface,
                        ether_type = htons ethertype_ip\<rparr>) (\<lambda>packet3.
                     rbind (sr_send_packet sr packet3 len (if_name out_iface)) (\<lambda>(_, sr'). Inr sr'))
                 | None \<Rightarrow>
                     rbind (rd_bytes packet2 0 len) (\<lambda>pkt_copy.
                     rbind (rd_struct sizeof_eth dec_eth pkt_copy 0) (\<lambda>eth.
                     rbind (wr_struct enc_eth pkt_copy 0
                       (eth\<lparr>ether_shost := if_addr out_iface, ether_type := htons ethertype_ip\<rparr>))
                       (\<lambda>pkt_copy1.
                     rbind (sr_arpcache_queuereq (cache sr) next_hop pkt_copy1 len
                       (if_name out_iface)) (\<lambda>(req, c').
                     request_if_new (sr\<lparr>cache := c'\<rparr>) req next_hop (if_name out_iface)))))))))))"

text \<open>\<^verbatim>\<open>icmp_hdr->icmp_type\<close> is the byte at offset 34 of the frame.\<close>

definition handle_ip_packet :: "sr_instance \<Rightarrow> byte list \<Rightarrow> nat \<Rightarrow> string \<Rightarrow> sr_instance res" where
  "handle_ip_packet sr packet len interface =
     (if len < sizeof_eth + sizeof_ip then Inr sr
      else
        rbind (rd_struct sizeof_ip dec_ip packet sizeof_eth) (\<lambda>ip_hdr.
          case sr_get_interface_by_ip (if_list sr) (ip_dst ip_hdr) of
            Some iface \<Rightarrow>
              if ip_p ip_hdr = ip_protocol_icmp then
                rbind (rd8 packet 34) (\<lambda>icmp_ty.
                  if icmp_ty = 8 then send_icmp_echo_reply sr packet len interface
                  else Inr sr)
              else send_icmp_t3 sr packet len 3 3
          | None \<Rightarrow> forward_ip_packet sr packet len))"

definition sr_handlepacket :: "sr_instance \<Rightarrow> byte list \<Rightarrow> nat \<Rightarrow> string \<Rightarrow> sr_instance res" where
  "sr_handlepacket sr packet len interface =
     (if len < sizeof_eth then Inr sr
      else
        rbind (rd_struct sizeof_eth dec_eth packet 0) (\<lambda>eth_hdr.
          let ether_ty = ntohs (ether_type eth_hdr) in
          if ether_ty = ethertype_arp then handle_arp_packet sr packet len interface
          else if ether_ty = ethertype_ip then handle_ip_packet sr packet len interface
          else Inr sr))"

text \<open>The ARP subsystem part of \<^verbatim>\<open>sr_init\<close>; starting the sweeper thread has no effect on the state.\<close>

definition sr_init :: "sr_instance \<Rightarrow> sr_instance" where
  "sr_init sr = sr\<lparr>cache := sr_arpcache_init (cache sr)\<rparr>"

end
