(* ===== verification/RouterSafety.thy ===== *)
theory RouterSafety
  imports Router
begin

text \<open>
  The invariant of the router and its memory safety. \<open>sr_wf\<close> says what the code keeps true of the ARP
  queue: the cache is well-formed, every request has at most five transmissions and at least one
  waiting packet, and every waiting packet is a complete frame for an existing interface.
\<close>

section \<open>The invariant\<close>

definition queued_ok :: "sr_if list \<Rightarrow> sr_packet \<Rightarrow> bool" where
  "queued_ok ifs p \<longleftrightarrow> pk_len p = length (pk_buf p) \<and> 42 \<le> pk_len p \<and> pk_len p \<le> max_frame \<and>
     sr_get_interface ifs (pk_iface p) \<noteq> None"

definition req_ok :: "sr_if list \<Rightarrow> sr_arpreq \<Rightarrow> bool" where
  "req_ok ifs r \<longleftrightarrow> rq_times_sent r \<le> 5 \<and> rq_packets r \<noteq> [] \<and> list_all (queued_ok ifs) (rq_packets r)"

definition cache_ok :: "sr_if list \<Rightarrow> sr_arpcache \<Rightarrow> bool" where
  "cache_ok ifs c \<longleftrightarrow> arpcache_wf c \<and> (\<forall>r \<in> set (requests c). req_ok ifs r)"

definition sr_wf :: "sr_instance \<Rightarrow> bool" where
  "sr_wf sr \<longleftrightarrow> cache_ok (if_list sr) (cache sr)"

text \<open>
  The configuration, which no packet handler changes, and the part of the state that sending a frame
  leaves alone: sending may only log, write and query the clock.
\<close>

definition same_config :: "sr_instance \<Rightarrow> sr_instance \<Rightarrow> bool" where
  "same_config sr sr' \<longleftrightarrow> if_list sr' = if_list sr \<and> routing_table sr' = routing_table sr \<and>
     env_clock sr' = env_clock sr"

definition same_core :: "sr_instance \<Rightarrow> sr_instance \<Rightarrow> bool" where
  "same_core sr sr' \<longleftrightarrow> same_config sr sr' \<and> cache sr' = cache sr \<and> env_ticks sr \<le> env_ticks sr'"

lemma same_config_refl [simp]: "same_config sr sr"
  by (simp add: same_config_def)

lemma same_core_refl [simp]: "same_core sr sr"
  by (simp add: same_core_def)

lemma same_config_trans: "same_config a b \<Longrightarrow> same_config b c \<Longrightarrow> same_config a c"
  by (simp add: same_config_def)

lemma same_core_trans: "same_core a b \<Longrightarrow> same_core b c \<Longrightarrow> same_core a c"
  by (auto simp: same_core_def intro: same_config_trans)

lemma same_config_upd [simp]:
  "same_config sr (sr'\<lparr>cache := c\<rparr>) = same_config sr sr'"
  "same_config sr (sr'\<lparr>env_ticks := n\<rparr>) = same_config sr sr'"
  "same_config (sr\<lparr>cache := c\<rparr>) sr' = same_config sr sr'"
  "same_config (sr\<lparr>env_ticks := n\<rparr>) sr' = same_config sr sr'"
  by (simp_all add: same_config_def)

lemma same_core_if: "same_core sr sr' \<Longrightarrow> if_list sr' = if_list sr"
  by (simp add: same_core_def same_config_def)

lemma same_core_wf: "same_core sr sr' \<Longrightarrow> sr_wf sr \<Longrightarrow> sr_wf sr'"
  by (simp add: same_core_def same_config_def sr_wf_def)

lemma time_now_eq:
  "time_now sr = (fst (env_clock sr (env_ticks sr)), sr\<lparr>env_ticks := Suc (env_ticks sr)\<rparr>)"
  by (simp add: time_now_def gettimeofday_def split: prod.splits)

lemma insert_now_cases:
  obtains req c k where "sr_arpcache_insert (cache sr) m ip (fst (env_clock sr (env_ticks sr))) = (req, c)"
    "arpcache_insert_now sr m ip = (req, sr\<lparr>env_ticks := k, cache := c\<rparr>)"
proof (cases "first_free (entries (cache sr)) = length (entries (cache sr))")
  case True
  then have "sr_arpcache_insert (cache sr) m ip t = sr_arpcache_insert (cache sr) m ip 0" for t
    by (simp add: sr_arpcache_insert_def Let_def)
  with True that [of _ _ "env_ticks sr"] show ?thesis
    by (cases "sr_arpcache_insert (cache sr) m ip 0") (auto simp: arpcache_insert_now_def)
next
  case False
  with that show ?thesis
    by (cases "sr_arpcache_insert (cache sr) m ip (fst (env_clock sr (env_ticks sr)))")
      (auto simp: arpcache_insert_now_def time_now_eq)
qed

section \<open>The cache operations keep it\<close>

lemma cache_ok_destroy: "cache_ok ifs c \<Longrightarrow> cache_ok ifs (sr_arpreq_destroy c a)"
  by (auto simp: cache_ok_def wf_destroy)
    (auto simp: sr_arpreq_destroy_def unlink_addr_eq arpcache_wf_def)

lemma cache_ok_insert:
  "cache_ok ifs c \<Longrightarrow> sr_arpcache_insert c m ip t = (req, c') \<Longrightarrow>
     cache_ok ifs c' \<and> (\<forall>r. req = Some r \<longrightarrow> req_ok ifs r)"
  using wf_insert [of c m ip t]
  by (auto simp: cache_ok_def sr_arpcache_insert_def unlink_ip_eq arpcache_wf_def Let_def
      dest: req_by_ip.search_hit)

lemma cache_ok_expire: "cache_ok ifs c \<Longrightarrow> cache_ok ifs (arpcache_expire t c)"
  by (simp add: cache_ok_def wf_expire) (simp add: arpcache_expire_def)

lemma cache_ok_init: "cache_ok ifs (sr_arpcache_init c)"
  by (simp add: cache_ok_def wf_init) (simp add: sr_arpcache_init_def)

lemma cache_ok_upd:
  assumes "cache_ok ifs c" "\<And>r. rq_ip (f r) = rq_ip r" "\<And>r. rq_addr (f r) = rq_addr r"
    and "\<And>r. r \<in> set (requests c) \<Longrightarrow> rq_addr r = a \<Longrightarrow> req_ok ifs r \<Longrightarrow> req_ok ifs (f r)"
  shows "cache_ok ifs (upd_req a f c)"
  using assms by (simp add: cache_ok_def wf_upd_req) (auto simp: upd_req_def)

lemma cache_ok_queue:
  assumes "cache_ok ifs c" "len = length packet" "42 \<le> len" "len \<le> max_frame"
    and "sr_get_interface ifs iface \<noteq> None"
  shows "\<exists>a c' r. sr_arpcache_queuereq c ip packet len iface = Inr (a, c') \<and> cache_ok ifs c' \<and>
    deref_req a (requests c') = Some r"
proof -
  obtain a c1 where g: "get_or_alloc_req c ip = (a, c1)" by (cases "get_or_alloc_req c ip")
  let ?p = "\<lparr>pk_buf = take len packet, pk_len = len, pk_iface = strncpy iface 32\<rparr>"
  let ?f = "\<lambda>r. r\<lparr>rq_packets := ?p # rq_packets r\<rparr>"
  have wf: "arpcache_wf c" using assms(1) by (simp add: cache_ok_def)
  have q: "sr_arpcache_queuereq c ip packet len iface = Inr (a, upd_req a ?f c1)"
    using assms(2,3) g by (subst queuereq_eq) auto
  have p: "queued_ok ifs ?p" using assms(2-5) by (simp add: queued_ok_def)
  have c1: "arpcache_wf c1" using wf_get_or_alloc [OF wf, of ip] g by simp
  have old: "req_ok ifs r \<or> r = \<lparr>rq_addr = a, rq_ip = ip, rq_sent = 0, rq_times_sent = 0,
      rq_packets = []\<rparr>" if "r \<in> set (requests c1)" for r
    using assms(1) g that by (auto simp: get_or_alloc_req_def cache_ok_def split: option.splits)
  have "req_ok ifs (?f r)" if "r \<in> set (requests c1)" "rq_addr r = a" for r
    using old [OF that(1)] p by (auto simp: req_ok_def)
  moreover have "req_ok ifs r" if "r \<in> set (requests c1)" "rq_addr r \<noteq> a" for r
    using old [OF that(1)] that(2) by auto
  ultimately have "cache_ok ifs (upd_req a ?f c1)"
    using c1 by (simp add: cache_ok_def wf_upd_req) (auto simp: upd_req_def)
  moreover from get_or_alloc_spec [OF wf g] obtain r where "deref_req a (requests c1) = Some r"
    by blast
  then have "\<exists>r. deref_req a (requests (upd_req a ?f c1)) = Some r" by (simp add: deref_upd_req)
  ultimately show ?thesis using q by blast
qed

section \<open>The senders\<close>

lemma length_arp_request_frame [simp]: "length (arp_request_frame i t) = 42"
  by (simp add: arp_request_frame_def)

lemma send_safe:
  assumes "len \<le> length buf"
  shows "rpost (sr_send_packet sr buf len iface) (\<lambda>(_, sr'). same_core sr sr')"
  using sr_send_packet_total [OF assms, of sr iface]
  by (auto simp: same_core_def same_config_def)

lemma send_state_safe [simp]:
  "len \<le> length buf \<Longrightarrow>
     rpost (rbind (sr_send_packet sr buf len iface) (\<lambda>(_, sr'). Inr sr')) (same_core sr)"
  using send_safe [of len buf sr iface] by (auto simp: rpost_bind elim: rpost_mono)

lemma send_arp_request_safe: "rpost (send_arp_request sr tip i) (same_core sr)"
  by (auto simp: send_arp_request_def split: option.splits)

lemma send_arp_request_for_req_safe: "rpost (send_arp_request_for_req sr req) (same_core sr)"
  by (auto simp: send_arp_request_for_req_def split: option.splits list.splits)

lemma send_arp_reply_safe:
  assumes "42 \<le> length packet"
  shows "rpost (send_arp_reply sr packet len i) (same_core sr)"
  using assms by (auto simp: send_arp_reply_def split: option.splits)

lemma ip_checksum_safe:
  "0 \<le> len \<Longrightarrow> nat len \<le> length p \<Longrightarrow> \<exists>c. ip_checksum p len = Inr c"
  by (simp add: ip_checksum_def ip_sum.loop_ok)

lemma cksum_safe: "0 \<le> len \<Longrightarrow> nat len \<le> length p \<Longrightarrow> \<exists>c. cksum p len = Inr c"
  by (simp add: cksum_def ck_sum.loop_ok Let_def)

lemma request_if_new_safe:
  assumes "sr_wf sr" "deref_req a (requests (cache sr)) = Some r"
  shows "rpost (request_if_new sr a nh n) (\<lambda>sr'. sr_wf sr' \<and> same_config sr sr')"
proof (cases "rq_times_sent r = 0")
  case True
  obtain sr1 where s: "send_arp_request sr nh n = Inr sr1" "same_core sr sr1"
    using send_arp_request_safe [of sr nh n] by (auto simp: rpost_iff)
  then have "cache_ok (if_list sr) (cache sr1)" "same_config sr sr1"
    using assms(1) by (simp_all add: same_core_def sr_wf_def)
  then have "cache_ok (if_list sr) (upd_req a (\<lambda>r. r\<lparr>rq_sent := t, rq_times_sent := 1\<rparr>)
      (cache sr1))" for t
    by (intro cache_ok_upd) (simp_all add: req_ok_def)
  with True s \<open>same_config sr sr1\<close> assms(2) show ?thesis
    by (simp add: request_if_new_def time_now_eq sr_wf_def) (simp add: same_config_def)
next
  case False
  with assms show ?thesis by (simp add: request_if_new_def)
qed

lemma queue_and_request_safe:
  assumes "sr_wf sr" "len = length packet" "42 \<le> len" "len \<le> max_frame"
    and "sr_get_interface (if_list sr) n = Some i"
  shows "rpost (rbind (sr_arpcache_queuereq (cache sr) nh packet len n)
    (\<lambda>(req, c'). request_if_new (sr\<lparr>cache := c'\<rparr>) req nh n)) (\<lambda>sr'. sr_wf sr' \<and> same_config sr sr')"
proof -
  obtain a c' r where "sr_arpcache_queuereq (cache sr) nh packet len n = Inr (a, c')"
    "cache_ok (if_list sr) c'" "deref_req a (requests c') = Some r"
    using cache_ok_queue [of "if_list sr" "cache sr" len packet n nh] assms
    by (auto simp: sr_wf_def)
  then show ?thesis
    using request_if_new_safe [of "sr\<lparr>cache := c'\<rparr>" a r nh n] by (simp add: sr_wf_def)
qed

section \<open>The packet handlers\<close>

definition keeps :: "sr_instance \<Rightarrow> sr_instance res \<Rightarrow> bool" where
  "keeps sr m \<longleftrightarrow> rpost m (\<lambda>sr'. sr_wf sr' \<and> same_config sr sr')"

lemma keepsI_core: "sr_wf sr \<Longrightarrow> rpost m (same_core sr) \<Longrightarrow> keeps sr m"
  unfolding keeps_def
  by (erule rpost_mono) (auto simp: same_core_def intro: same_core_wf [unfolded same_core_def])

lemma keeps_refl [simp]: "keeps sr (Inr sr) = sr_wf sr"
  by (simp add: keeps_def)

lemma keeps_send:
  "sr_wf sr \<Longrightarrow> len \<le> length buf \<Longrightarrow>
     keeps sr (rbind (sr_send_packet sr buf len iface) (\<lambda>(_, sr'). Inr sr'))"
  by (simp add: keepsI_core)

lemma keeps_queue:
  assumes "sr_wf sr" "len = length packet" "42 \<le> len" "len \<le> max_frame"
    and "sr_get_interface (if_list sr) n = Some i"
  shows "keeps sr (rbind (sr_arpcache_queuereq (cache sr) nh packet len n)
    (\<lambda>(req, c'). request_if_new (sr\<lparr>cache := c'\<rparr>) req nh n))"
  unfolding keeps_def by (rule queue_and_request_safe [OF assms])

lemma nat_hl_bytes [simp]: "nat (uint (h :: 4 word) * 4) = 4 * unat h"
  by (metis mult.commute nat_mult_distrib nat_numeral uint_ge_0 unat_eq_nat_uint
      zero_le_numeral)

lemma send_icmp_t3_safe:
  assumes wf: "sr_wf sr" and len: "42 \<le> length packet"
  shows "keeps sr (send_icmp_t3 sr packet len ty co)"
proof -
  obtain h where h: "rd_struct sizeof_ip dec_ip packet sizeof_eth = Inr h"
    using len by simp
  show ?thesis
  proof (cases "lpm_lookup (routing_table sr) (ip_src h)")
    case None
    with wf h show ?thesis by (simp add: send_icmp_t3_def)
  next
    case rt: (Some rt)
    show ?thesis
    proof (cases "sr_get_interface (if_list sr) (rt_interface rt)")
      case None
      with wf h rt show ?thesis by (simp add: send_icmp_t3_def)
    next
      case out: (Some out)
      let ?ip = "t3_ip_hdr (if_ip out) (ip_src h)" and ?ic = "t3_icmp_hdr ty co (mslice packet 14 28)"
      obtain c where c: "ip_checksum (enc_ip ?ip) (uint (ip_hl ?ip) * 4) = Inr c"
        using ip_checksum_safe [of "uint (ip_hl ?ip) * 4" "enc_ip ?ip"]
        by (auto simp: t3_ip_hdr_def)
      obtain c2 where c2: "ip_checksum (enc_icmp_t3 ?ic) 36 = Inr c2"
        using ip_checksum_safe [of 36 "enc_icmp_t3 ?ic"] len by (auto simp: t3_icmp_hdr_def)
      have [simp]: "length (t3_data ?ic) = 28" using len by (simp add: t3_icmp_hdr_def)
      note n = get_interface_name [OF out]
      show ?thesis
        using wf len h rt out c c2
        by (simp add: send_icmp_t3_def Let_def keeps_send keeps_queue [OF _ _ _ _ n]
            split: option.split)
    qed
  qed
qed

lemma send_icmp_echo_reply_safe:
  assumes "sr_wf sr" "len = length packet" "38 \<le> len"
    and "14 + 4 * unat (ip_hl (dec_ip (mslice packet 14 20))) \<le> len"
    and "sr_get_interface (if_list sr) interface = Some i"
  shows "keeps sr (send_icmp_echo_reply sr packet len interface)"
proof -
  obtain e h pl where p: "packet = enc_eth e @ enc_ip h @ pl"
    using assms(2,3) by (auto intro: frame_ip_cases [of packet])
  then obtain ic d where pl: "pl = enc_icmp ic @ d"
    using assms(2,3) by (auto intro: icmp_cases [of pl])
  let ?c = "\<lambda>h'. ip_checksum (enc_ip h' @ enc_icmp ic @ d) (uint (ip_hl h) * 4)"
  have "\<exists>c. ?c h' = Inr c" for h'
    using assms(2,4) p pl by (intro ip_checksum_safe) (simp_all add: mslice_def)
  moreover have "\<exists>c. ip_checksum (enc_icmp i' @ d) (int len - 34) = Inr c" for i'
    using assms(2,3) p pl by (intro ip_checksum_safe) auto
  then obtain c2 where "ip_checksum (enc_icmp \<lparr>icmp_type = 0, icmp_code = 0, icmp_sum = 0\<rparr> @ d)
      (int len - 34) = Inr c2" by blast
  moreover obtain c where "?c (h\<lparr>ip_src := ip_dst h, ip_dst := ip_src h, ip_ttl := 64,
      ip_sum := 0\<rparr>) = Inr c" using calculation by blast
  ultimately show ?thesis
    using assms p pl
    by (simp add: send_icmp_echo_reply_def Let_def mslice_def keeps_send)
qed

lemma send_waiting_safe:
  assumes "list_all (queued_ok (if_list sr)) ps"
  shows "rpost (send_waiting sr m ps) (same_core sr)"
  using assms
proof (induction ps arbitrary: sr)
  case (Cons p ps)
  then obtain i where i: "sr_get_interface (if_list sr) (pk_iface p) = Some i"
    and len: "pk_len p = length (pk_buf p)" "42 \<le> pk_len p"
    by (auto simp: queued_ok_def)
  then obtain e r where b: "pk_buf p = enc_eth e @ r"
    by (auto intro: frame_eth_cases [of "pk_buf p"])
  let ?f = "enc_eth \<lparr>ether_dhost = m, ether_shost = if_addr i, ether_type = htons ethertype_ip\<rparr> @ r"
  obtain x sr' where s: "sr_send_packet sr ?f (pk_len p) (pk_iface p) = Inr (x, sr')"
    "same_core sr sr'"
    using send_safe [of "pk_len p" ?f sr "pk_iface p"] b len(1) by (auto simp: rpost_iff)
  then have "rpost (send_waiting sr' m ps) (same_core sr')"
    using Cons.IH [of sr'] Cons.prems by (simp add: same_core_if)
  then show ?case
    using i b s by simp (erule rpost_mono, erule same_core_trans [OF s(2)])
qed simp

lemma handle_arp_packet_safe:
  assumes wf: "sr_wf sr" and len: "len = length packet"
  shows "keeps sr (handle_arp_packet sr packet len interface)"
proof (cases "len < 42")
  case True
  with wf show ?thesis by (simp add: handle_arp_packet_def)
next
  case False
  with len obtain h where h: "rd_struct sizeof_arp dec_arp packet sizeof_eth = Inr h" by simp
  obtain req c k where i: "sr_arpcache_insert (cache sr) (ar_sha h) (ar_sip h) (fst (env_clock sr (env_ticks sr))) =
      (req, c)" and n: "arpcache_insert_now sr (ar_sha h) (ar_sip h) = (req, sr\<lparr>env_ticks := k, cache := c\<rparr>)"
    by (rule insert_now_cases)
  let ?sr1 = "sr\<lparr>env_ticks := k\<rparr>"
  from cache_ok_insert [OF _ i, of "if_list sr"] wf
  have c: "cache_ok (if_list sr) c" and r: "\<And>r. req = Some r \<Longrightarrow> req_ok (if_list sr) r"
    by (auto simp: sr_wf_def)
  have reply: "keeps sr (case req of None \<Rightarrow> Inr (?sr1\<lparr>cache := c\<rparr>)
     | Some req \<Rightarrow> rbind (send_waiting (?sr1\<lparr>cache := c\<rparr>) (ar_sha h) (rq_packets req)) (\<lambda>sr2.
         Inr (sr2\<lparr>cache := sr_arpreq_destroy (cache sr2) (rq_addr req)\<rparr>)))"
  proof (cases req)
    case None
    with c show ?thesis by (simp add: keeps_def sr_wf_def)
  next
    case (Some q)
    have "rpost (send_waiting (?sr1\<lparr>cache := c\<rparr>) (ar_sha h) (rq_packets q))
        (same_core (?sr1\<lparr>cache := c\<rparr>))"
      using r [OF Some] by (intro send_waiting_safe) (simp add: req_ok_def)
    then show ?thesis
      using Some c cache_ok_destroy [OF c]
      by (auto simp: keeps_def rpost_iff same_core_def same_config_def sr_wf_def)
  qed
  show ?thesis
    using wf len False h n reply
    by (simp add: handle_arp_packet_def Let_def send_arp_reply_safe keepsI_core
        split: option.split option.split_asm)
qed

lemma forward_ip_packet_safe:
  assumes wf: "sr_wf sr" and len: "len = length packet" "42 \<le> len" "len \<le> max_frame"
    and hl: "14 + 4 * unat (ip_hl (dec_ip (mslice packet 14 20))) \<le> len"
  shows "keeps sr (forward_ip_packet sr packet len)"
proof -
  obtain e h pl where p: "packet = enc_eth e @ enc_ip h @ pl"
    using len by (auto intro: frame_ip_cases [of packet])
  let ?h1 = "h\<lparr>ip_ttl := ip_ttl h - 1, ip_sum := 0\<rparr>"
  obtain c where c: "ip_checksum (enc_ip ?h1 @ pl) (uint (ip_hl h) * 4) = Inr c"
    using ip_checksum_safe [of "uint (ip_hl h) * 4" "enc_ip ?h1 @ pl"] hl len p
    by (auto simp: mslice_def)
  let ?p2 = "enc_eth e @ enc_ip (h\<lparr>ip_ttl := ip_ttl h - 1, ip_sum := htons c\<rparr>) @ pl"
  have t3: "keeps sr (send_icmp_t3 sr packet len 11 0)" "keeps sr (send_icmp_t3 sr ?p2 len 3 0)"
    using wf len p by (auto intro!: send_icmp_t3_safe)
  show ?thesis
    using wf len p c t3 get_interface_name
    by (auto simp: forward_ip_packet_def Let_def mslice_def split: option.split
        intro!: keeps_send keeps_queue)
qed

lemma handle_ip_packet_safe:
  assumes wf: "sr_wf sr" and len: "len = length packet" "42 \<le> len" "len \<le> max_frame"
    and hl: "14 + 4 * unat (ip_hl (dec_ip (mslice packet 14 20))) \<le> len"
    and i: "sr_get_interface (if_list sr) interface = Some i"
  shows "keeps sr (handle_ip_packet sr packet len interface)"
  using assms
  by (simp add: handle_ip_packet_def forward_ip_packet_safe send_icmp_t3_safe
      send_icmp_echo_reply_safe split: option.split)

section \<open>The sweep\<close>

lemma host_unreachable_one_safe:
  assumes "queued_ok (if_list sr) p"
  shows "rpost (host_unreachable_one sr p) (same_core sr)"
proof -
  obtain i where i: "sr_get_interface (if_list sr) (pk_iface p) = Some i"
    and len: "42 \<le> length (pk_buf p)"
    using assms by (auto simp: queued_ok_def)
  obtain h where h: "rd_struct sizeof_ip dec_ip (pk_buf p) sizeof_eth = Inr h"
    using len by simp
  let ?ip = "t3_ip_hdr (if_ip i) (ip_src h)" and ?ic = "t3_icmp_hdr 3 1 (mslice (pk_buf p) 14 28)"
  obtain c where c: "cksum (enc_ip ?ip) 20 = Inr c"
    using cksum_safe [of 20 "enc_ip ?ip"] by auto
  obtain c2 where c2: "cksum (enc_icmp_t3 ?ic) 36 = Inr c2"
    using cksum_safe [of 36 "enc_icmp_t3 ?ic"] len by (auto simp: t3_icmp_hdr_def)
  have [simp]: "length (t3_data ?ic) = 28" using len by (simp add: t3_icmp_hdr_def)
  show ?thesis
    using i h c c2 len by (simp add: host_unreachable_one_def Let_def split: option.split)
qed

lemma host_unreachable_loop_safe:
  assumes "list_all (queued_ok (if_list sr)) ps"
  shows "rpost (host_unreachable_loop sr ps) (same_core sr)"
  using assms
proof (induction ps arbitrary: sr)
  case (Cons p ps)
  obtain sr' where s: "host_unreachable_one sr p = Inr sr'" "same_core sr sr'"
    using host_unreachable_one_safe [of sr p] Cons.prems by (auto simp: rpost_iff)
  then have "rpost (host_unreachable_loop sr' ps) (same_core sr')"
    using Cons.IH [of sr'] Cons.prems by (simp add: same_core_if)
  then show ?case using s by simp (erule rpost_mono, erule same_core_trans [OF s(2)])
qed simp

lemma deref_destroy:
  "arpcache_wf c \<Longrightarrow> deref_req b (requests (sr_arpreq_destroy c a)) =
     (if b = a then None else deref_req b (requests c))"
proof -
  have "deref_req b (filter (\<lambda>r. rq_addr r \<noteq> a) rs) = (if b = a then None else deref_req b rs)" for rs
    by (induction rs) auto
  then show "arpcache_wf c \<Longrightarrow> ?thesis"
    by (simp add: sr_arpreq_destroy_def unlink_addr_eq arpcache_wf_def)
qed

lemma deref_upd_other:
  assumes "\<And>r. rq_addr (f r) = rq_addr r" "b \<noteq> a"
  shows "deref_req b (requests (upd_req a f c)) = deref_req b (requests c)"
proof (cases "deref_req b (requests c)")
  case (Some r)
  then have "rq_addr r = b" using req_by_addr.search_hit by blast
  with Some assms show ?thesis by (simp add: deref_upd_req)
qed (simp add: deref_upd_req assms)

lemma handle_arpreq_safe:
  assumes wf: "sr_wf sr" and r: "deref_req a (requests (cache sr)) = Some r"
  shows "rpost (handle_arpreq sr a) (\<lambda>sr'. sr_wf sr' \<and> same_config sr sr' \<and>
    (\<forall>b. b \<noteq> a \<longrightarrow> deref_req b (requests (cache sr')) = deref_req b (requests (cache sr))))"
proof -
  let ?sr1 = "sr\<lparr>env_ticks := Suc (env_ticks sr)\<rparr>" and ?now = "fst (env_clock sr (env_ticks sr))"
  have ok: "cache_ok (if_list sr) (cache sr)" and c: "arpcache_wf (cache sr)"
    and q: "req_ok (if_list sr) r"
    using wf r req_by_addr.search_hit [of a "requests (cache sr)" r]
    by (auto simp: sr_wf_def cache_ok_def)
  obtain sr2 where h: "send_icmp_host_unreachable ?sr1 r = Inr sr2" "same_core ?sr1 sr2"
    using host_unreachable_loop_safe [of ?sr1 "rq_packets r"] q
    by (auto simp: rpost_iff send_icmp_host_unreachable_def req_ok_def)
  obtain sr3 where s: "send_arp_request_for_req ?sr1 r = Inr sr3" "same_core ?sr1 sr3"
    using send_arp_request_for_req_safe [of ?sr1 r] by (auto simp: rpost_iff)
  let ?f = "\<lambda>r. r\<lparr>rq_sent := ?now, rq_times_sent := rq_times_sent r + 1\<rparr>"
  have u: "cache_ok (if_list sr) (upd_req a ?f (cache sr))" if "\<not> 5 \<le> rq_times_sent r"
  proof (rule cache_ok_upd [OF ok])
    fix r' assume "r' \<in> set (requests (cache sr))" "rq_addr r' = a" "req_ok (if_list sr) r'"
    moreover have "r' = r"
      using deref_unique [of "requests (cache sr)" r'] c r calculation by (simp add: arpcache_wf_def)
    ultimately show "req_ok (if_list sr) (?f r')"
      using that by (simp add: req_ok_def word_le_nat_alt unat_word_ariths)
  qed simp_all
  show ?thesis
    using r h s u ok c wf
    by (auto simp: handle_arpreq_def time_now_eq same_core_def same_config_def sr_wf_def
        deref_destroy deref_upd_other cache_ok_destroy split: option.splits)
qed

lemma sweep_loop_safe:
  assumes "sr_wf sr" "distinct as" "\<forall>a \<in> set as. deref_req a (requests (cache sr)) \<noteq> None"
  shows "keeps sr (sweep_loop sr as)"
  using assms
proof (induction as arbitrary: sr)
  case (Cons a as)
  then obtain r where "deref_req a (requests (cache sr)) = Some r" by auto
  with Cons.prems handle_arpreq_safe [of sr a r] obtain sr' where s: "handle_arpreq sr a = Inr sr'"
    "sr_wf sr'" "same_config sr sr'"
    "\<And>b. b \<noteq> a \<Longrightarrow> deref_req b (requests (cache sr')) = deref_req b (requests (cache sr))"
    by (auto simp: rpost_iff)
  have "\<forall>b \<in> set as. deref_req b (requests (cache sr')) \<noteq> None"
    using Cons.prems(2,3) s(4) by (metis distinct.simps(2) list.set_intros(2))
  then have "keeps sr' (sweep_loop sr' as)"
    using Cons.IH [of sr'] Cons.prems s by simp
  then show ?case
    using s(1,3) by (auto simp: keeps_def rpost_iff intro: same_config_trans)
qed simp

lemma sweepreqs_safe: "sr_wf sr \<Longrightarrow> keeps sr (sr_arpcache_sweepreqs sr)"
  unfolding sr_arpcache_sweepreqs_def
  by (rule sweep_loop_safe)
    (auto simp: sr_wf_def cache_ok_def arpcache_wf_def req_by_addr.search_None_iff)

lemma timeout_round_safe:
  assumes "sr_wf sr"
  shows "keeps sr (arpcache_timeout_round sr)"
proof -
  let ?sr1 = "sr\<lparr>env_ticks := Suc (env_ticks sr),
    cache := arpcache_expire (fst (env_clock sr (env_ticks sr))) (cache sr)\<rparr>"
  have "sr_wf ?sr1" using assms by (simp add: sr_wf_def cache_ok_expire)
  then have "keeps ?sr1 (sr_arpcache_sweepreqs ?sr1)" by (rule sweepreqs_safe)
  then show ?thesis
    by (simp add: arpcache_timeout_round_def time_now_eq keeps_def)
qed

section \<open>Memory safety and the invariant\<close>

text \<open>
  Memory safety of the packet path. In a well-formed router, a complete frame of at least
  42 bytes (Ethernet and IP headers and eight bytes of payload) and at most the 10000 bytes that the
  VNS protocol allows, received on an existing interface, and whose IP header length field stays
  inside the frame, is handled to the end by \<^verbatim>\<open>sr_handlepacket\<close>: no read or write outside a
  buffer, no null or dangling pointer. The router is well-formed afterwards (every queued request
  has at least one packet and at most five transmissions, every queued packet is a complete frame
  for an existing interface), and interfaces and routes are unchanged.
\<close>

theorem sr_handlepacket_safe:
  assumes "sr_wf sr" and "len = length packet" and "42 \<le> len" and "len \<le> max_frame"
    and "14 + 4 * unat (ip_hl (dec_ip (mslice packet 14 20))) \<le> len"
    and "sr_get_interface (if_list sr) interface = Some i"
  shows "\<exists>sr'. sr_handlepacket sr packet len interface = Inr sr' \<and> sr_wf sr' \<and>
    same_config sr sr'"
proof -
  have "keeps sr (sr_handlepacket sr packet len interface)"
    using assms
    by (simp add: sr_handlepacket_def Let_def handle_arp_packet_safe handle_ip_packet_safe)
  then show ?thesis by (auto simp: keeps_def rpost_iff)
qed

text \<open>
  Memory safety of the timer. One round of the thread \<^verbatim>\<open>sr_arpcache_timeout\<close> (expire
  entries, sweep the request queue) on a well-formed router never touches freed or missing memory,
  although the sweep destroys requests while it walks their list, and keeps the router well-formed.
\<close>

theorem timeout_round_preserves_wf:
  assumes "sr_wf sr"
  shows "\<exists>sr'. arpcache_timeout_round sr = Inr sr' \<and> sr_wf sr' \<and> same_config sr sr'"
  using timeout_round_safe [OF assms] by (auto simp: keeps_def rpost_iff)

section \<open>An example router\<close>

text \<open>
  Two interfaces, a route to each of their networks, and a learned neighbour 10.0.2.9 behind the
  second one; no request is outstanding and nothing is logged. The clock advances by one second per
  query.
\<close>

definition ex_if1 :: sr_if where
  "ex_if1 = \<lparr>if_name = ''eth1'', if_addr = MAC 2 0 0 0 0 1, if_ip = htonl 0x0A000101, if_speed = 0\<rparr>"

definition ex_if2 :: sr_if where
  "ex_if2 = \<lparr>if_name = ''eth2'', if_addr = MAC 2 0 0 0 0 2, if_ip = htonl 0x0A000201, if_speed = 0\<rparr>"

definition ex_rt1 :: sr_rt where
  "ex_rt1 = \<lparr>rt_dest = htonl 0x0A000100, rt_gw = 0, rt_mask = htonl 0xFFFFFF00,
     rt_interface = ''eth1''\<rparr>"

definition ex_rt2 :: sr_rt where
  "ex_rt2 = \<lparr>rt_dest = htonl 0x0A000200, rt_gw = 0, rt_mask = htonl 0xFFFFFF00,
     rt_interface = ''eth2''\<rparr>"

definition ex_sr :: sr_instance where
  "ex_sr = \<lparr>sockfd = 3, sr_user = [], sr_host = [], sr_template = [], sr_topo_id = 0,
     if_list = [ex_if1, ex_if2], routing_table = [ex_rt1, ex_rt2],
     cache = snd (sr_arpcache_insert ex_cache (MAC 4 0 0 0 0 9) (htonl 0x0A000209) 0),
     logfile = None, env_clock = (\<lambda>k. (int k, 0)), env_ticks = 0,
     env_write = (\<lambda>_ m. int (length m)), wire = []\<rparr>"

definition ex_ip_hdr :: "u32 \<Rightarrow> u32 \<Rightarrow> sr_ip_hdr" where
  "ex_ip_hdr src dst = \<lparr>ip_hl = 5, ip_v = 4, ip_tos = 0, ip_len = htons 28, ip_id = 0, ip_off = 0,
     ip_ttl = 64, ip_p = 17, ip_sum = 0, ip_src = src, ip_dst = dst\<rparr>"

definition ex_eth_hdr :: sr_ethernet_hdr where
  "ex_eth_hdr = \<lparr>ether_dhost = MAC 2 0 0 0 0 1, ether_shost = MAC 4 0 0 0 0 5,
     ether_type = htons ethertype_ip\<rparr>"

lemma ex_sr_simps [simp]:
  "if_list ex_sr = [ex_if1, ex_if2]" "routing_table ex_sr = [ex_rt1, ex_rt2]"
  "logfile ex_sr = None" "env_ticks ex_sr = 0" "wire ex_sr = []" "env_clock ex_sr k = (int k, 0)"
  "requests (cache ex_sr) = []"
  "strncmp_eq (if_name ex_if1) n 32 = (take 32 n = ''eth1'')"
  "strncmp_eq (if_name ex_if2) n 32 = (take 32 n = ''eth2'')"
  by (simp_all add: ex_sr_def ex_if1_def ex_if2_def strncmp_eq_def sr_arpcache_insert_def
      ex_cache_simps Let_def eq_commute [of _ "take _ _"])

lemma ex_lookup:
  "sr_arpcache_lookup (cache ex_sr) ip = (if ip = htonl 0x0A000209
     then Some \<lparr>ae_mac = MAC 4 0 0 0 0 9, ae_ip = htonl 0x0A000209, ae_added = 0, ae_valid = True\<rparr>
     else None)"
proof -
  have "\<forall>e \<in> set (drop n (entries ex_cache)). \<not> ae_valid e" for n
    by (simp add: ex_cache_def sr_arpcache_init_def set_replicate_conv_if)
  then show ?thesis by (simp add: ex_sr_def lookup_insert ex_cache_simps)
qed

lemma ex_sr_wf: "sr_wf ex_sr"
proof -
  have "arpcache_wf (cache ex_sr)" by (simp add: ex_sr_def wf_insert ex_cache_simps)
  then show ?thesis by (simp add: sr_wf_def cache_ok_def)
qed

theorem sr_handlepacket_safe_witness:
  "\<exists>sr'. sr_handlepacket ex_sr (enc_eth ex_eth_hdr @
      enc_ip (ex_ip_hdr (htonl 0x0A000105) (htonl 0x0A000207)) @ replicate 8 0) 42 ''eth1'' = Inr sr' \<and>
    sr_wf sr' \<and> same_config ex_sr sr'"
proof -
  let ?p = "enc_eth ex_eth_hdr @
    enc_ip (ex_ip_hdr (htonl 0x0A000105) (htonl 0x0A000207)) @ replicate 8 0"
  have "14 + 4 * unat (ip_hl (dec_ip (mslice ?p 14 20))) \<le> (42 :: nat)"
    by (simp add: mslice_def ex_ip_hdr_def)
  then show ?thesis
    by (intro sr_handlepacket_safe [OF ex_sr_wf, where i = ex_if1]) simp_all
qed

theorem timeout_round_preserves_wf_witness:
  "\<exists>sr'. arpcache_timeout_round ex_sr = Inr sr' \<and> sr_wf sr' \<and> same_config ex_sr sr'"
  by (rule timeout_round_preserves_wf [OF ex_sr_wf])

end
