(* ===== verification/RouterBehaviour.thy ===== *)
theory RouterBehaviour
  imports RouterSafety
begin

text \<open>
  What the packet path does, on every branch. A frame is written as its headers and payload, and the
  behaviour of the code is related to a small specification: \<open>ip_decision\<close> says what has to be
  done with an IP packet, \<open>deliver\<close> what it means to send an IP packet to a neighbour (directly, or
  by parking it until the neighbour's address is known), \<open>icmp_error\<close> and \<open>echo_reply\<close> what is
  sent back.
\<close>

section \<open>Specification\<close>

text \<open>The checksum that the code stores for a block: \<^verbatim>\<open>htons\<close> of \<^verbatim>\<open>ip_checksum\<close>.\<close>

definition csum :: "byte list \<Rightarrow> u16" where
  "csum bs = (case ip_checksum bs (int (length bs)) of Inl _ \<Rightarrow> 0 | Inr c \<Rightarrow> htons c)"

definition ip_eth :: "mac \<Rightarrow> sr_if \<Rightarrow> sr_ethernet_hdr" where
  "ip_eth d out = \<lparr>ether_dhost = d, ether_shost = if_addr out, ether_type = htons ethertype_ip\<rparr>"

definition next_hop :: "sr_rt \<Rightarrow> u32 \<Rightarrow> u32" where
  "next_hop rt dst = (if rt_gw rt \<noteq> 0 then rt_gw rt else dst)"

text \<open>The route to an address together with its interface.\<close>

definition route_to :: "sr_instance \<Rightarrow> u32 \<Rightarrow> (sr_if \<times> u32) option" where
  "route_to sr dst =
     (case lpm_lookup (routing_table sr) dst of
        None \<Rightarrow> None
      | Some rt \<Rightarrow> map_option (\<lambda>out. (out, next_hop rt dst))
                    (sr_get_interface (if_list sr) (rt_interface rt)))"

text \<open>
  Parking a frame until the address \<open>nh\<close> is resolved: the frame joins the request for \<open>nh\<close>; a
  request that has not been sent before is broadcast now.
\<close>

definition parked :: "sr_if \<Rightarrow> byte list \<Rightarrow> sr_packet" where
  "parked out frame = \<lparr>pk_buf = frame, pk_len = length frame, pk_iface = strncpy (if_name out) 32\<rparr>"

definition await :: "sr_instance \<Rightarrow> sr_if \<Rightarrow> u32 \<Rightarrow> byte list \<Rightarrow> sr_instance" where
  "await sr out nh frame =
     (case get_or_alloc_req (cache sr) nh of (a, c) \<Rightarrow>
        let sr1 = sr\<lparr>cache := upd_req a (\<lambda>r. r\<lparr>rq_packets := parked out frame # rq_packets r\<rparr>) c\<rparr>;
            sr2 = transmit sr1 (arp_request_frame out nh) (if_name out);
            (now, sr3) = time_now sr2
        in if map_option rq_times_sent (deref_req a (requests c)) = Some 0
           then sr3\<lparr>cache := upd_req a (\<lambda>r. r\<lparr>rq_sent := now, rq_times_sent := 1\<rparr>) (cache sr3)\<rparr>
           else sr1)"

definition deliver :: "sr_instance \<Rightarrow> sr_if \<Rightarrow> u32 \<Rightarrow> mac \<Rightarrow> byte list \<Rightarrow> sr_instance" where
  "deliver sr out nh d body =
     (case sr_arpcache_lookup (cache sr) nh of
        Some entry \<Rightarrow> transmit sr (enc_eth (ip_eth (ae_mac entry) out) @ body) (if_name out)
      | None \<Rightarrow> await sr out nh (enc_eth (ip_eth d out) @ body))"

text \<open>The ICMP error of the given type and code about the packet whose first 28 bytes are \<open>data\<close>.\<close>

definition icmp_error_body :: "sr_if \<Rightarrow> u32 \<Rightarrow> byte \<Rightarrow> byte \<Rightarrow> byte list \<Rightarrow> byte list" where
  "icmp_error_body out dst ty co data =
     (let ip0 = t3_ip_hdr (if_ip out) dst; icmp0 = t3_icmp_hdr ty co data in
      enc_ip (ip0\<lparr>ip_sum := csum (enc_ip ip0)\<rparr>) @
      enc_icmp_t3 (icmp0\<lparr>t3_icmp_sum := csum (enc_icmp_t3 icmp0)\<rparr>))"

definition icmp_error :: "sr_instance \<Rightarrow> u32 \<Rightarrow> byte \<Rightarrow> byte \<Rightarrow> byte list \<Rightarrow> sr_instance" where
  "icmp_error sr dst ty co data =
     (case route_to sr dst of
        None \<Rightarrow> sr
      | Some (out, nh) \<Rightarrow>
          deliver sr out nh (MAC 0 0 0 0 0 0) (icmp_error_body out dst ty co data))"

text \<open>The IP header of a forwarded packet: one hop less and a fresh checksum.\<close>

definition forwarded :: "sr_ip_hdr \<Rightarrow> byte list \<Rightarrow> sr_ip_hdr" where
  "forwarded h pl =
     (let h0 = h\<lparr>ip_ttl := ip_ttl h - 1, ip_sum := 0\<rparr> in
      h0\<lparr>ip_sum := csum (take (4 * unat (ip_hl h)) (enc_ip h0 @ pl))\<rparr>)"

definition echo_reply_frame :: "sr_if \<Rightarrow> sr_ethernet_hdr \<Rightarrow> sr_ip_hdr \<Rightarrow> byte list \<Rightarrow> byte list" where
  "echo_reply_frame iface e h pl =
     (let ip0 = h\<lparr>ip_src := ip_dst h, ip_dst := ip_src h, ip_ttl := 64, ip_sum := 0\<rparr>;
          icmp0 = \<lparr>icmp_type = 0, icmp_code = 0, icmp_sum = 0\<rparr>; data = drop 4 pl in
      enc_eth (e\<lparr>ether_dhost := ether_shost e, ether_shost := if_addr iface\<rparr>) @
      enc_ip (ip0\<lparr>ip_sum := csum (take (4 * unat (ip_hl h)) (enc_ip ip0 @ pl))\<rparr>) @
      enc_icmp (icmp0\<lparr>icmp_sum := csum (enc_icmp icmp0 @ data)\<rparr>) @ data)"

text \<open>What has to be done with an IP packet.\<close>

datatype ip_action = Discard | Echo_Reply | Error_Message byte byte "byte list" | Forward sr_if u32

definition ip_decision :: "sr_instance \<Rightarrow> sr_ip_hdr \<Rightarrow> byte list \<Rightarrow> ip_action" where
  "ip_decision sr h pl =
     (if sr_get_interface_by_ip (if_list sr) (ip_dst h) \<noteq> None then
        if ip_p h = ip_protocol_icmp then (if pl ! 0 = 8 then Echo_Reply else Discard)
        else Error_Message 3 3 (take 28 (enc_ip h @ pl))
      else if ip_ttl h \<le> 1 then Error_Message 11 0 (take 28 (enc_ip h @ pl))
      else
        case lpm_lookup (routing_table sr) (ip_dst h) of
          None \<Rightarrow> Error_Message 3 0 (take 28 (enc_ip (forwarded h pl) @ pl))
        | Some rt \<Rightarrow>
            (case sr_get_interface (if_list sr) (rt_interface rt) of
               None \<Rightarrow> Discard
             | Some out \<Rightarrow> Forward out (next_hop rt (ip_dst h))))"

definition perform ::
    "sr_instance \<Rightarrow> sr_ethernet_hdr \<Rightarrow> sr_ip_hdr \<Rightarrow> byte list \<Rightarrow> string \<Rightarrow> ip_action \<Rightarrow> sr_instance" where
  "perform sr e h pl interface act =
     (case act of
        Discard \<Rightarrow> sr
      | Echo_Reply \<Rightarrow>
          (case sr_get_interface (if_list sr) interface of
             None \<Rightarrow> sr
           | Some iface \<Rightarrow> transmit sr (echo_reply_frame iface e h pl) interface)
      | Error_Message ty co data \<Rightarrow> icmp_error sr (ip_src h) ty co data
      | Forward out nh \<Rightarrow> deliver sr out nh (ether_dhost e) (enc_ip (forwarded h pl) @ pl))"

section \<open>Sending\<close>

lemma ip_checksum_csum:
  assumes "n \<le> length p"
  shows "\<exists>c. ip_checksum p (int n) = Inr c \<and> htons c = csum (take n p)"
proof -
  have "ip_checksum_words (take n p) (int n) 0 = ip_checksum_words p (int n) 0"
    using assms by (simp add: ip_sum.loop_ok)
  then show ?thesis
    using ip_checksum_safe [of "int n" p] assms by (auto simp: csum_def ip_checksum_def)
qed

lemma send_frame:
  assumes "sr_get_interface (if_list sr) n = Some i" "ether_shost e = if_addr i"
    and "len = 14 + length body" "len \<le> max_frame"
  shows "rbind (sr_send_packet sr (enc_eth e @ body) len n) (\<lambda>(_, sr'). Inr sr') =
    Inr (transmit sr (enc_eth e @ body) n)"
proof -
  have "\<exists>r. sr_send_packet sr (enc_eth e @ body) len n =
      Inr (r, transmit sr (take len (enc_eth e @ body)) n)"
    using assms by (intro sr_send_packet_ok) simp_all
  then show ?thesis using assms(3) by auto
qed

lemma send_arp_request_ok:
  assumes "sr_get_interface (if_list sr) n = Some i"
  shows "send_arp_request sr nh n = Inr (transmit sr (arp_request_frame i nh) n)"
  using assms by (simp add: send_arp_request_def arp_request_frame_def send_frame [OF assms])

lemma queue_and_request:
  assumes wf: "arpcache_wf (cache sr)" and i: "sr_get_interface (if_list sr) (if_name out) = Some out"
    and len: "len = length frame" "0 < len"
  shows "rbind (sr_arpcache_queuereq (cache sr) nh frame len (if_name out))
    (\<lambda>(req, c'). request_if_new (sr\<lparr>cache := c'\<rparr>) req nh (if_name out)) = Inr (await sr out nh frame)"
proof -
  obtain a c where g: "get_or_alloc_req (cache sr) nh = (a, c)"
    by (cases "get_or_alloc_req (cache sr) nh")
  from get_or_alloc_spec [OF wf g] obtain r where r: "deref_req a (requests c) = Some r" "rq_addr r = a"
    by blast
  have i': "sr_get_interface (if_list (sr\<lparr>cache := c'\<rparr>)) (if_name out) = Some out" for c'
    using i by simp
  show ?thesis
    using g r len
    by (simp add: queuereq_eq request_if_new_def deref_upd_req send_arp_request_ok [OF i']
        await_def parked_def time_now_eq Let_def)
qed

text \<open>The two halves of \<open>deliver\<close> in the code: the ARP cache hit and the miss.\<close>

lemma deliver_code:
  assumes "arpcache_wf (cache sr)" "sr_get_interface (if_list sr) (if_name out) = Some out"
    and "len = 14 + length body" "len \<le> max_frame"
  shows "(case sr_arpcache_lookup (cache sr) nh of
      Some entry \<Rightarrow> rbind (sr_send_packet sr (enc_eth (ip_eth (ae_mac entry) out) @ body) len
        (if_name out)) (\<lambda>(_, sr'). Inr sr')
    | None \<Rightarrow> rbind (sr_arpcache_queuereq (cache sr) nh (enc_eth (ip_eth d out) @ body) len (if_name out))
        (\<lambda>(req, c'). request_if_new (sr\<lparr>cache := c'\<rparr>) req nh (if_name out))) =
    Inr (deliver sr out nh d body)"
proof (cases "sr_arpcache_lookup (cache sr) nh")
  case None
  then show ?thesis
    using queue_and_request [of sr out len "enc_eth (ip_eth d out) @ body" nh] assms
    by (simp add: deliver_def)
next
  case (Some entry)
  then show ?thesis
    using send_frame [OF assms(2) _ assms(3,4), of "ip_eth (ae_mac entry) out"]
    by (simp add: deliver_def ip_eth_def)
qed

lemma send_icmp_t3_eq:
  assumes "arpcache_wf (cache sr)" "28 \<le> length (enc_ip h @ pl)"
  shows "send_icmp_t3 sr (enc_eth e @ enc_ip h @ pl) len ty co =
    Inr (icmp_error sr (ip_src h) ty co (take 28 (enc_ip h @ pl)))"
proof (cases "lpm_lookup (routing_table sr) (ip_src h)")
  case None
  then show ?thesis by (simp add: send_icmp_t3_def icmp_error_def route_to_def)
next
  case rt: (Some rt)
  show ?thesis
  proof (cases "sr_get_interface (if_list sr) (rt_interface rt)")
    case None
    with rt show ?thesis by (simp add: send_icmp_t3_def icmp_error_def route_to_def)
  next
    case out: (Some out)
    define data where "data = take 28 (enc_ip h @ pl)"
    then have len: "length data = 28" using assms(2) by simp
    let ?ip = "t3_ip_hdr (if_ip out) (ip_src h)" and ?ic = "t3_icmp_hdr ty co data"
    have [simp]: "length (t3_data ?ic) = 28" "uint (ip_hl ?ip) = 5"
      using len by (simp_all add: t3_icmp_hdr_def t3_ip_hdr_def)
    obtain c where c: "ip_checksum (enc_ip ?ip) 20 = Inr c" "htons c = csum (enc_ip ?ip)"
      using ip_checksum_csum [of 20 "enc_ip ?ip"] by auto
    obtain c2 where c2: "ip_checksum (enc_icmp_t3 ?ic) 36 = Inr c2"
        "htons c2 = csum (enc_icmp_t3 ?ic)"
      using ip_checksum_csum [of 36 "enc_icmp_t3 ?ic"] by auto
    have rd: "rd_bytes (enc_eth e @ enc_ip h @ pl) 14 28 = Inr data"
      using assms(2) by (simp add: mslice_def data_def)
    note n = get_interface_name [OF out]
    let ?body = "icmp_error_body out (ip_src h) ty co data"
    have b: "?body = enc_ip (?ip\<lparr>ip_sum := htons c\<rparr>) @ enc_icmp_t3 (?ic\<lparr>t3_icmp_sum := htons c2\<rparr>)"
      by (simp add: icmp_error_body_def Let_def c c2)
    have "length ?body = 56" by (simp add: b)
    then show ?thesis
      unfolding data_def [symmetric] using rt out c c2 rd
        deliver_code [OF assms(1) n, of 70 ?body "next_hop rt (ip_src h)" "MAC 0 0 0 0 0 0"]
      by (simp add: send_icmp_t3_def icmp_error_def route_to_def Let_def next_hop_def ip_eth_def b
          cong: option.case_cong)
  qed
qed



section \<open>The IP path refines its specification\<close>

lemma hl_int: "uint (w :: 4 word) * 4 = int (4 * unat w)"
  by (metis nat_hl_bytes int_nat_eq mult_nonneg_nonneg uint_ge_0 zero_le_numeral)

lemma ip_eth_upd:
  "e\<lparr>ether_shost := if_addr out, ether_type := htons ethertype_ip\<rparr> = ip_eth (ether_dhost e) out"
  by (cases e) (simp add: ip_eth_def)

lemma forward_ip_packet_eq:
  assumes wf: "arpcache_wf (cache sr)" and len: "len = 34 + length pl" "8 \<le> length pl" "len \<le> max_frame"
    and hl: "4 * unat (ip_hl h) \<le> 20 + length pl"
    and far: "sr_get_interface_by_ip (if_list sr) (ip_dst h) = None"
  shows "forward_ip_packet sr (enc_eth e @ enc_ip h @ pl) len =
    Inr (perform sr e h pl interface (ip_decision sr h pl))"
proof (cases "ip_ttl h \<le> 1")
  case True
  then show ?thesis
    using send_icmp_t3_eq [OF wf, of h pl] len far
    by (simp add: forward_ip_packet_def perform_def ip_decision_def)
next
  case ttl: False
  let ?h0 = "h\<lparr>ip_ttl := ip_ttl h - 1, ip_sum := 0\<rparr>"
  obtain c where c: "ip_checksum (enc_ip ?h0 @ pl) (int (4 * unat (ip_hl h))) = Inr c"
    "htons c = csum (take (4 * unat (ip_hl h)) (enc_ip ?h0 @ pl))"
    using ip_checksum_csum [of "4 * unat (ip_hl h)" "enc_ip ?h0 @ pl"] hl by auto
  have f: "forwarded h pl = ?h0\<lparr>ip_sum := htons c\<rparr>"
    unfolding forwarded_def Let_def by (simp only: c(2))
  then have src: "ip_src (forwarded h pl) = ip_src h" by simp
  have code: "forward_ip_packet sr (enc_eth e @ enc_ip h @ pl) len =
    (case lpm_lookup (routing_table sr) (ip_dst h) of
       None \<Rightarrow> send_icmp_t3 sr (enc_eth e @ enc_ip (forwarded h pl) @ pl) len 3 0
     | Some rt \<Rightarrow> (case sr_get_interface (if_list sr) (rt_interface rt) of
         None \<Rightarrow> Inr sr
       | Some out \<Rightarrow>
          (case sr_arpcache_lookup (cache sr) (next_hop rt (ip_dst h)) of
             Some entry \<Rightarrow> rbind (sr_send_packet sr (enc_eth (ip_eth (ae_mac entry) out) @
                 enc_ip (forwarded h pl) @ pl) len (if_name out)) (\<lambda>(_, sr'). Inr sr')
           | None \<Rightarrow> rbind (sr_arpcache_queuereq (cache sr) (next_hop rt (ip_dst h))
                 (enc_eth (ip_eth (ether_dhost e) out) @ enc_ip (forwarded h pl) @ pl) len (if_name out))
               (\<lambda>(req, c'). request_if_new (sr\<lparr>cache := c'\<rparr>) req (next_hop rt (ip_dst h))
                  (if_name out)))))"
    using ttl len c(1)
    by (simp add: forward_ip_packet_def Let_def hl_int f next_hop_def ip_eth_upd mslice_def
        ip_eth_def [symmetric] cong: option.case_cong if_cong)
  show ?thesis
  proof (cases "route_to sr (ip_dst h)")
    case None
    then show ?thesis
      unfolding code
      using send_icmp_t3_eq [OF wf, of "forwarded h pl" pl] len far ttl src
      by (auto simp: route_to_def perform_def ip_decision_def split: option.split_asm)
  next
    case (Some x)
    then obtain rt out where rt: "lpm_lookup (routing_table sr) (ip_dst h) = Some rt"
      and out: "sr_get_interface (if_list sr) (rt_interface rt) = Some out"
      by (auto simp: route_to_def split: option.splits)
    show ?thesis
      unfolding code
      using deliver_code [OF wf get_interface_name [OF out], of len "enc_ip (forwarded h pl) @ pl"]
        rt out len far ttl
      by (simp add: perform_def ip_decision_def)
  qed
qed

lemma send_icmp_echo_reply_eq:
  assumes i: "sr_get_interface (if_list sr) interface = Some iface"
    and len: "len = 34 + length pl" "4 \<le> length pl" "len \<le> max_frame"
    and hl: "4 * unat (ip_hl h) \<le> 20 + length pl"
  shows "send_icmp_echo_reply sr (enc_eth e @ enc_ip h @ pl) len interface =
    Inr (transmit sr (echo_reply_frame iface e h pl) interface)"
proof -
  obtain ic d where pl: "pl = enc_icmp ic @ d" using len by (auto intro: icmp_cases [of pl])
  let ?ip0 = "h\<lparr>ip_src := ip_dst h, ip_dst := ip_src h, ip_ttl := 64, ip_sum := 0\<rparr>"
  let ?ic0 = "\<lparr>icmp_type = 0, icmp_code = 0, icmp_sum = 0\<rparr>"
  let ?e = "e\<lparr>ether_dhost := ether_shost e, ether_shost := if_addr iface\<rparr>"
  obtain c where c: "ip_checksum (enc_ip ?ip0 @ pl) (int (4 * unat (ip_hl h))) = Inr c"
    "htons c = csum (take (4 * unat (ip_hl h)) (enc_ip ?ip0 @ pl))"
    using ip_checksum_csum [of "4 * unat (ip_hl h)" "enc_ip ?ip0 @ pl"] hl by auto
  obtain c2 where c2: "ip_checksum (enc_icmp ?ic0 @ d) (int len - 34) = Inr c2"
    "htons c2 = csum (enc_icmp ?ic0 @ d)"
    using ip_checksum_csum [of "len - 34" "enc_icmp ?ic0 @ d"] len pl by auto
  let ?body = "enc_ip (?ip0\<lparr>ip_sum := htons c\<rparr>) @ enc_icmp (?ic0\<lparr>icmp_sum := htons c2\<rparr>) @ d"
  have "echo_reply_frame iface e h pl = enc_eth ?e @ ?body"
    unfolding echo_reply_frame_def Let_def using c(2) c2(2) pl by simp
  moreover have "rbind (sr_send_packet sr (enc_eth ?e @ ?body) len interface) (\<lambda>(_, sr'). Inr sr') =
      Inr (transmit sr (enc_eth ?e @ ?body) interface)"
    using i len pl by (intro send_frame) simp_all
  ultimately show ?thesis
    using i c(1) c2(1) len pl
    by (simp add: send_icmp_echo_reply_def Let_def mslice_def hl_int)
qed

lemma handle_ip_packet_eq:
  assumes "arpcache_wf (cache sr)" "sr_get_interface (if_list sr) interface = Some iface"
    and "len = 34 + length pl" "8 \<le> length pl" "len \<le> max_frame"
    and "4 * unat (ip_hl h) \<le> 20 + length pl"
  shows "handle_ip_packet sr (enc_eth e @ enc_ip h @ pl) len interface =
    Inr (perform sr e h pl interface (ip_decision sr h pl))"
proof (cases "sr_get_interface_by_ip (if_list sr) (ip_dst h)")
  case None
  with assms show ?thesis
    using forward_ip_packet_eq [OF assms(1,3-6) None] by (simp add: handle_ip_packet_def)
next
  case (Some i)
  have "rd8 (enc_eth e @ enc_ip h @ pl) 34 = Inr (pl ! 0)"
    using assms(4) by (cases pl) (simp_all add: nth_append)
  moreover have "send_icmp_t3 sr (enc_eth e @ enc_ip h @ pl) len 3 3 =
      Inr (icmp_error sr (ip_src h) 3 3 (take 28 (enc_ip h @ pl)))"
    using assms(4) by (intro send_icmp_t3_eq [OF assms(1)]) simp
  moreover have "send_icmp_echo_reply sr (enc_eth e @ enc_ip h @ pl) len interface =
      Inr (transmit sr (echo_reply_frame iface e h pl) interface)"
    using assms(4) by (intro send_icmp_echo_reply_eq [OF assms(2,3) _ assms(5,6)]) simp
  ultimately show ?thesis
    using Some assms(2-4)
    by (simp add: handle_ip_packet_def perform_def ip_decision_def)
qed

section \<open>Parking a frame\<close>

lemma find_upd_sent [simp]:
  "find_req ip (requests (upd_req a (\<lambda>r. r\<lparr>rq_sent := t, rq_times_sent := n\<rparr>) c)) =
     map_option (\<lambda>r. if rq_addr r = a then r\<lparr>rq_sent := t, rq_times_sent := n\<rparr> else r)
       (find_req ip (requests c))"
  by (rule find_upd_req) simp

lemma find_upd_other:
  assumes "arpcache_wf c" "deref_req a (requests c) = Some r" "rq_ip r \<noteq> ip" "\<And>r. rq_ip (f r) = rq_ip r"
  shows "find_req ip (requests (upd_req a f c)) = find_req ip (requests c)"
proof (cases "find_req ip (requests c)")
  case (Some q)
  then have q: "q \<in> set (requests c)" "rq_ip q = ip" using req_by_ip.search_hit by blast+
  have "rq_addr q \<noteq> a"
    using deref_unique [of "requests c" q] q assms(1-3) by (auto simp: arpcache_wf_def)
  with Some assms(4) show ?thesis by (simp add: find_upd_req)
qed (simp add: find_upd_req assms(4))

lemma await_eq:
  assumes "get_or_alloc_req (cache sr) nh = (a, c)" "deref_req a (requests c) = Some r"
  shows "await sr out nh frame =
    (let sr1 = sr\<lparr>cache := upd_req a (\<lambda>r. r\<lparr>rq_packets := parked out frame # rq_packets r\<rparr>) c\<rparr>;
         sr2 = transmit sr1 (arp_request_frame out nh) (if_name out)
     in if rq_times_sent r = 0
        then sr2\<lparr>env_ticks := Suc (env_ticks sr2),
               cache := upd_req a (\<lambda>r. r\<lparr>rq_sent := fst (env_clock sr (env_ticks sr2)),
                   rq_times_sent := 1\<rparr>) (cache sr1)\<rparr>
        else sr1)"
  using assms by (simp add: await_def time_now_eq Let_def)

lemma await_spec:
  assumes wf: "arpcache_wf (cache sr)"
  shows "find_req nh (requests (cache (await sr out nh frame))) \<noteq> None"
    and "pending_pkts (cache (await sr out nh frame)) nh = parked out frame # pending_pkts (cache sr) nh"
    and "ip \<noteq> nh \<Longrightarrow> find_req ip (requests (cache (await sr out nh frame))) = find_req ip (requests (cache sr))"
    and "entries (cache (await sr out nh frame)) = entries (cache sr)"
    and "wire (await sr out nh frame) =
      (case find_req nh (requests (cache sr)) of
         Some r \<Rightarrow> if rq_times_sent r = 0 then wire sr @ [vns_frame (if_name out) (arp_request_frame out nh)]
                  else wire sr
       | None \<Rightarrow> wire sr @ [vns_frame (if_name out) (arp_request_frame out nh)])"
    and "map_option rq_times_sent (find_req nh (requests (cache (await sr out nh frame)))) =
      Some (case find_req nh (requests (cache sr)) of
              Some r \<Rightarrow> if rq_times_sent r = 0 then 1 else rq_times_sent r | None \<Rightarrow> 1)"
proof -
  obtain a c where g: "get_or_alloc_req (cache sr) nh = (a, c)"
    by (cases "get_or_alloc_req (cache sr) nh")
  from get_or_alloc_spec [OF wf g] obtain r where r: "find_req nh (requests c) = Some r"
    "rq_addr r = a" "deref_req a (requests c) = Some r" "rq_packets r = pending_pkts (cache sr) nh"
    "\<And>ip. ip \<noteq> nh \<Longrightarrow> find_req ip (requests c) = find_req ip (requests (cache sr))"
    "entries c = entries (cache sr)"
    by (auto simp: pending_pkts_def)
  have wfc: "arpcache_wf c" using wf_get_or_alloc [OF wf, of nh] g by simp
  have t: "rq_times_sent r = (case find_req nh (requests (cache sr)) of None \<Rightarrow> 0
      | Some r \<Rightarrow> rq_times_sent r)"
    using g r(1) by (auto simp: get_or_alloc_req_def split: option.splits)
  have ip: "rq_ip r = nh" using r(1) req_by_ip.search_hit by blast
  note eq = await_eq [OF g r(3), of out frame]
  show "find_req nh (requests (cache (await sr out nh frame))) \<noteq> None"
    using r(1) by (simp add: eq Let_def find_upd_req)
  show "pending_pkts (cache (await sr out nh frame)) nh = parked out frame # pending_pkts (cache sr) nh"
    using r(1,2,4) by (simp add: eq Let_def find_upd_req pending_pkts_def)
  show "find_req ip (requests (cache (await sr out nh frame))) = find_req ip (requests (cache sr))"
    if "ip \<noteq> nh"
    using r(5) [OF that] r(3) ip that
    by (simp add: eq Let_def find_upd_other [of _ a] wfc wf_upd_req deref_upd_req
        del: find_upd_sent)
  show "entries (cache (await sr out nh frame)) = entries (cache sr)"
    using r(6) by (simp add: eq Let_def)
  show "wire (await sr out nh frame) =
      (case find_req nh (requests (cache sr)) of
         Some r \<Rightarrow> if rq_times_sent r = 0 then wire sr @ [vns_frame (if_name out) (arp_request_frame out nh)]
                  else wire sr
       | None \<Rightarrow> wire sr @ [vns_frame (if_name out) (arp_request_frame out nh)])"
    using t by (simp add: eq Let_def split: option.splits)
  show "map_option rq_times_sent (find_req nh (requests (cache (await sr out nh frame)))) =
      Some (case find_req nh (requests (cache sr)) of
              Some r \<Rightarrow> if rq_times_sent r = 0 then 1 else rq_times_sent r | None \<Rightarrow> 1)"
    using t r(1,2) by (simp add: eq Let_def find_upd_req split: option.splits)
qed

lemma await_wf:
  assumes "sr_wf sr" "42 \<le> length frame" "length frame \<le> max_frame"
    and "sr_get_interface (if_list sr) (if_name out) = Some out"
  shows "sr_wf (await sr out nh frame) \<and> same_config sr (await sr out nh frame)"
proof -
  have "arpcache_wf (cache sr)" using assms(1) by (simp add: sr_wf_def cache_ok_def)
  moreover have "0 < length frame" using assms(2) by linarith
  ultimately show ?thesis
    using queue_and_request_safe [OF assms(1) refl assms(2,3,4), of nh]
      queue_and_request [of sr out "length frame" frame nh] assms(4) by simp
qed

section \<open>The ARP path\<close>

definition arp_reply_frame :: "sr_if \<Rightarrow> sr_ethernet_hdr \<Rightarrow> sr_arp_hdr \<Rightarrow> byte list" where
  "arp_reply_frame iface e a =
     enc_eth \<lparr>ether_dhost = ether_shost e, ether_shost = if_addr iface,
              ether_type = htons ethertype_arp\<rparr> @
     enc_arp \<lparr>ar_hrd = htons arp_hrd_ethernet, ar_pro = htons ethertype_ip, ar_hln = 6, ar_pln = 4,
              ar_op = htons arp_op_reply, ar_sha = if_addr iface, ar_sip = if_ip iface,
              ar_tha = ar_sha a, ar_tip = ar_sip a\<rparr>"

text \<open>A waiting packet as it is sent once the neighbour's address is known.\<close>

definition resolved_msg :: "sr_if list \<Rightarrow> mac \<Rightarrow> sr_packet \<Rightarrow> byte list" where
  "resolved_msg ifs m p =
     (case sr_get_interface ifs (pk_iface p) of
        None \<Rightarrow> []
      | Some out \<Rightarrow> vns_frame (pk_iface p) (enc_eth (ip_eth m out) @ drop 14 (pk_buf p)))"

lemma send_waiting_wire:
  assumes "list_all (queued_ok (if_list sr)) ps"
  shows "\<exists>sr'. send_waiting sr m ps = Inr sr' \<and> same_core sr sr' \<and>
    wire sr' = wire sr @ map (resolved_msg (if_list sr) m) ps"
  using assms
proof (induction ps arbitrary: sr)
  case (Cons p ps)
  then obtain i where i: "sr_get_interface (if_list sr) (pk_iface p) = Some i"
    and len: "pk_len p = length (pk_buf p)" "42 \<le> pk_len p" "pk_len p \<le> max_frame"
    by (auto simp: queued_ok_def)
  then obtain e r where b: "pk_buf p = enc_eth e @ r"
    by (auto intro: frame_eth_cases [of "pk_buf p"])
  let ?f = "enc_eth (ip_eth m i) @ r"
  obtain x where s: "sr_send_packet sr ?f (pk_len p) (pk_iface p) = Inr (x, transmit sr ?f (pk_iface p))"
    using sr_send_packet_ok [of "pk_len p" ?f sr "pk_iface p" i] i b len by (auto simp: ip_eth_def)
  have same: "same_core sr (transmit sr ?f (pk_iface p))" by (simp add: same_core_def same_config_def)
  obtain sr' where w: "send_waiting (transmit sr ?f (pk_iface p)) m ps = Inr sr'"
    "same_core (transmit sr ?f (pk_iface p)) sr'"
    "wire sr' = wire (transmit sr ?f (pk_iface p)) @ map (resolved_msg (if_list sr) m) ps"
    using Cons.IH [of "transmit sr ?f (pk_iface p)"] Cons.prems by auto
  with i b s same_core_trans [OF same w(2)] show ?case
    by (simp add: resolved_msg_def ip_eth_def [symmetric])
qed simp

lemma destroy_unlinked:
  assumes "arpcache_wf c" "sr_arpcache_insert c m ip t = (Some r, c')"
  shows "sr_arpreq_destroy c' (rq_addr r) = c'"
proof -
  have f: "find_req ip (requests c) = Some r" and c': "requests c' = filter (\<lambda>r. rq_ip r \<noteq> ip) (requests c)"
    using assms by (auto simp: sr_arpcache_insert_def unlink_ip_eq arpcache_wf_def Let_def)
  then have r: "r \<in> set (requests c)" "rq_ip r = ip" using req_by_ip.search_hit by blast+
  have "q = r" if "q \<in> set (requests c)" "rq_addr q = rq_addr r" for q
    using that r assms(1) by (auto simp: arpcache_wf_def distinct_map dest: inj_onD)
  then have "filter (\<lambda>q. rq_addr q \<noteq> rq_addr r) (requests c') = requests c'"
    using r c' by (intro filter_True) auto
  moreover have "distinct (map rq_addr (requests c'))"
    using assms(1) c' by (simp add: arpcache_wf_def distinct_map_filter)
  ultimately show ?thesis by (simp add: sr_arpreq_destroy_def unlink_addr_eq)
qed

lemma handle_arp_reply:
  assumes wf: "sr_wf sr" and op: "ar_op a = htons arp_op_reply"
  shows "\<exists>sr'. handle_arp_packet sr (enc_eth e @ enc_arp a @ pad) (42 + length pad) interface = Inr sr' \<and>
    same_config sr sr' \<and>
    cache sr' = snd (sr_arpcache_insert (cache sr) (ar_sha a) (ar_sip a) (fst (env_clock sr (env_ticks sr)))) \<and>
    wire sr' = wire sr @ map (resolved_msg (if_list sr) (ar_sha a)) (pending_pkts (cache sr) (ar_sip a))"
proof -
  obtain req c k where i: "sr_arpcache_insert (cache sr) (ar_sha a) (ar_sip a) (fst (env_clock sr (env_ticks sr))) =
      (req, c)" and n: "arpcache_insert_now sr (ar_sha a) (ar_sip a) = (req, sr\<lparr>env_ticks := k, cache := c\<rparr>)"
    by (rule insert_now_cases)
  let ?sr1 = "sr\<lparr>env_ticks := k\<rparr>"
  have cwf: "arpcache_wf (cache sr)" using wf by (simp add: sr_wf_def cache_ok_def)
  have req: "req = find_req (ar_sip a) (requests (cache sr))"
    using i cwf by (auto simp: sr_arpcache_insert_def unlink_ip_eq arpcache_wf_def Let_def)
  have code: "handle_arp_packet sr (enc_eth e @ enc_arp a @ pad) (42 + length pad) interface =
    (case req of None \<Rightarrow> Inr (?sr1\<lparr>cache := c\<rparr>)
     | Some r \<Rightarrow> rbind (send_waiting (?sr1\<lparr>cache := c\<rparr>) (ar_sha a) (rq_packets r)) (\<lambda>sr2.
         Inr (sr2\<lparr>cache := sr_arpreq_destroy (cache sr2) (rq_addr r)\<rparr>)))"
    using op n by (simp add: handle_arp_packet_def Let_def protocol_consts split: option.splits)
  show ?thesis
  proof (cases req)
    case None
    with req i show ?thesis by (simp add: code pending_pkts_def)
  next
    case (Some r)
    have "req_ok (if_list sr) r"
      using cache_ok_insert [OF _ i, of "if_list sr"] wf Some by (simp add: sr_wf_def)
    then obtain sr2 where s: "send_waiting (?sr1\<lparr>cache := c\<rparr>) (ar_sha a) (rq_packets r) = Inr sr2"
      "same_core (?sr1\<lparr>cache := c\<rparr>) sr2"
      "wire sr2 = wire sr @ map (resolved_msg (if_list sr) (ar_sha a)) (rq_packets r)"
      using send_waiting_wire [of "?sr1\<lparr>cache := c\<rparr>" "rq_packets r" "ar_sha a"]
      by (auto simp: req_ok_def)
    have "sr_arpreq_destroy c (rq_addr r) = c"
      using destroy_unlinked [OF cwf] i Some by simp
    with s Some i req show ?thesis
      by (simp add: code pending_pkts_def same_core_def)
  qed
qed

end
