(* ===== verification/PacketPath.thy ===== *)
theory PacketPath
  imports RouterBehaviour
begin

text \<open>
  The properties of the packet path: the refinement of the specification by \<^verbatim>\<open>sr_handlepacket\<close> for
  IP and ARP frames, the end-to-end behaviour of address resolution, and the frames on which the
  code reads or writes outside its buffers.
\<close>

section \<open>Frames that the router handles\<close>

definition ip_frame :: "sr_ethernet_hdr \<Rightarrow> sr_ip_hdr \<Rightarrow> byte list \<Rightarrow> byte list" where
  "ip_frame e h pl = enc_eth e @ enc_ip h @ pl"

definition arp_frame :: "sr_ethernet_hdr \<Rightarrow> sr_arp_hdr \<Rightarrow> byte list \<Rightarrow> byte list" where
  "arp_frame e a pad = enc_eth e @ enc_arp a @ pad"

text \<open>An IP frame that carries at least eight bytes behind its header and whose header length fits.\<close>

definition good_ip :: "sr_ethernet_hdr \<Rightarrow> sr_ip_hdr \<Rightarrow> byte list \<Rightarrow> bool" where
  "good_ip e h pl \<longleftrightarrow> ether_type e = htons ethertype_ip \<and> 8 \<le> length pl \<and>
     34 + length pl \<le> max_frame \<and> 4 * unat (ip_hl h) \<le> 20 + length pl"

lemma length_frames [simp]:
  "length (ip_frame e h pl) = 34 + length pl" "length (arp_frame e a pad) = 42 + length pad"
  by (simp_all add: ip_frame_def arp_frame_def)

lemma dispatch_ip:
  assumes "ether_type e = htons ethertype_ip"
  shows "sr_handlepacket sr (ip_frame e h pl) (34 + length pl) interface =
    handle_ip_packet sr (enc_eth e @ enc_ip h @ pl) (34 + length pl) interface"
  using assms by (simp add: sr_handlepacket_def ip_frame_def protocol_consts)

lemma dispatch_arp:
  assumes "ether_type e = htons ethertype_arp"
  shows "sr_handlepacket sr (arp_frame e a pad) (42 + length pad) interface =
    handle_arp_packet sr (enc_eth e @ enc_arp a @ pad) (42 + length pad) interface"
  using assms by (simp add: sr_handlepacket_def arp_frame_def)

section \<open>IP\<close>

lemma forwarded_fields:
  "ip_ttl (forwarded h pl) = ip_ttl h - 1"
  "(forwarded h pl)\<lparr>ip_ttl := ip_ttl h, ip_sum := ip_sum h\<rparr> = h"
  "ip_src (forwarded h pl) = ip_src h" "ip_dst (forwarded h pl) = ip_dst h"
  by (cases h, simp add: forwarded_def Let_def)+

lemma handlepacket_ip:
  assumes "arpcache_wf (cache sr)" "sr_get_interface (if_list sr) interface = Some iface" "good_ip e h pl"
  shows "sr_handlepacket sr (ip_frame e h pl) (length (ip_frame e h pl)) interface =
    Inr (perform sr e h pl interface (ip_decision sr h pl))"
  using assms by (simp add: dispatch_ip good_ip_def handle_ip_packet_eq)

text \<open>
  Claim C1: on every well-formed IP frame the packet path implements its specification: the state
  after \<^verbatim>\<open>sr_handlepacket\<close> is the one that performs the decision taken from the header alone, namely
  echo reply, port unreachable (3/3), time exceeded (11/0), network unreachable (3/0), forwarding to
  the next hop of the longest matching route, or discarding; and it always ends without a fault.
\<close>

theorem ip_packet_refines_decision:
  assumes "arpcache_wf (cache sr)" and "sr_get_interface (if_list sr) interface = Some iface"
    and "good_ip e h pl"
  shows "sr_handlepacket sr (ip_frame e h pl) (length (ip_frame e h pl)) interface =
    Inr (perform sr e h pl interface (ip_decision sr h pl))"
  using assms by (rule handlepacket_ip)

text \<open>
  Forwarding to a neighbour whose MAC is cached. A packet for another host, with more than
  one hop left and a route, leaves on the interface of that route, from its MAC to the next hop's,
  with the time to live decremented by one, the same addresses and the same payload; exactly this
  one frame is written and the ARP cache is untouched.
\<close>

theorem forward_to_known_neighbour:
  assumes "arpcache_wf (cache sr)" and "sr_get_interface (if_list sr) interface = Some iface"
    and "good_ip e h pl" and "sr_get_interface_by_ip (if_list sr) (ip_dst h) = None"
    and "1 < ip_ttl h" and "lpm_lookup (routing_table sr) (ip_dst h) = Some rt"
    and "sr_get_interface (if_list sr) (rt_interface rt) = Some out"
    and "sr_arpcache_lookup (cache sr) (if rt_gw rt \<noteq> 0 then rt_gw rt else ip_dst h) = Some entry"
  shows "\<exists>sr' h'. sr_handlepacket sr (ip_frame e h pl) (length (ip_frame e h pl)) interface = Inr sr' \<and>
    wire sr' = wire sr @ [vns_frame (if_name out) (ip_frame \<lparr>ether_dhost = ae_mac entry,
      ether_shost = if_addr out, ether_type = htons ethertype_ip\<rparr> h' pl)] \<and> cache sr' = cache sr \<and>
    ip_ttl h' = ip_ttl h - 1 \<and> h'\<lparr>ip_ttl := ip_ttl h, ip_sum := ip_sum h\<rparr> = h"
proof -
  let ?sr' = "deliver sr out (next_hop rt (ip_dst h)) (ether_dhost e) (enc_ip (forwarded h pl) @ pl)"
  have "sr_handlepacket sr (ip_frame e h pl) (length (ip_frame e h pl)) interface = Inr ?sr'"
    using assms
    by (simp add: handlepacket_ip [OF assms(1-3)] ip_decision_def perform_def not_le del: length_frames)
  with assms(8) show ?thesis
    by (intro exI [of _ ?sr'] exI [of _ "forwarded h pl"])
      (simp add: deliver_def next_hop_def ip_frame_def ip_eth_def forwarded_fields)
qed

text \<open>An ARP request for the address is outstanding and has been transmitted.\<close>

definition request_sent :: "sr_arpcache \<Rightarrow> u32 \<Rightarrow> bool" where
  "request_sent c ip =
     (case find_req ip (requests c) of None \<Rightarrow> False | Some r \<Rightarrow> rq_times_sent r \<noteq> 0)"

text \<open>
  Claim C17: forwarding to a neighbour whose MAC is not known. The packet, with its time to live
  decremented, joins the packets that wait for the next hop, in front of them (the documentation describes
  a first in, first out queue, at whose end it would join); an ARP request for the
  next hop is broadcast if and only if none has been sent yet. Entries and the packets waiting for other addresses stay as they are.
\<close>

theorem forward_parks_packet:
  assumes "arpcache_wf (cache sr)" and "sr_get_interface (if_list sr) interface = Some iface"
    and "good_ip e h pl" and "ip_decision sr h pl = Forward out nh"
    and "sr_arpcache_lookup (cache sr) nh = None"
  shows "\<exists>sr' h' r. sr_handlepacket sr (ip_frame e h pl) (length (ip_frame e h pl)) interface = Inr sr' \<and>
    wire sr' = wire sr @ (if request_sent (cache sr) nh then []
      else [vns_frame (if_name out) (arp_request_frame out nh)]) \<and>
    find_req nh (requests (cache sr')) = Some r \<and> rq_times_sent r \<noteq> 0 \<and>
    map pk_buf (rq_packets r) = ip_frame \<lparr>ether_dhost = ether_dhost e, ether_shost = if_addr out,
      ether_type = htons ethertype_ip\<rparr> h' pl # map pk_buf (pending_pkts (cache sr) nh) \<and>
    ip_ttl h' = ip_ttl h - 1 \<and> h'\<lparr>ip_ttl := ip_ttl h, ip_sum := ip_sum h\<rparr> = h \<and>
    entries (cache sr') = entries (cache sr) \<and>
    (\<forall>ip. ip \<noteq> nh \<longrightarrow> find_req ip (requests (cache sr')) = find_req ip (requests (cache sr)))"
proof -
  let ?f = "enc_eth (ip_eth (ether_dhost e) out) @ enc_ip (forwarded h pl) @ pl"
  let ?sr' = "await sr out nh ?f"
  note spec = await_spec [OF assms(1), where nh = nh and out = out and frame = ?f]
  have "sr_handlepacket sr (ip_frame e h pl) (length (ip_frame e h pl)) interface = Inr ?sr'"
    using assms(4,5)
    by (simp add: handlepacket_ip [OF assms(1-3)] perform_def deliver_def del: length_frames)
  moreover obtain r where r: "find_req nh (requests (cache ?sr')) = Some r"
    using spec(1) by auto
  moreover have "rq_packets r = parked out ?f # pending_pkts (cache sr) nh"
    using spec(2) r by (simp add: pending_pkts_def [of "cache ?sr'"])
  moreover have "rq_times_sent r \<noteq> 0"
    using spec(6) r by (simp split: option.splits if_splits)
  moreover have "wire ?sr' = wire sr @ (if request_sent (cache sr) nh then []
      else [vns_frame (if_name out) (arp_request_frame out nh)])"
    using spec(5) by (simp add: request_sent_def split: option.splits)
  ultimately show ?thesis
    using spec(3,4)
    by (intro exI [of _ ?sr'] exI [of _ "forwarded h pl"] exI [of _ r])
      (simp add: parked_def ip_frame_def ip_eth_def forwarded_fields)
qed

text \<open>
  Claim C18: the ICMP errors. When the decision on an IP packet is an error message and the neighbour
  towards the packet's source is known, exactly one frame is written: a 56-byte IP packet from the
  outgoing interface's address back to the source of the offending packet, carrying the type and
  code of the decision and the first 28 bytes of the packet as \<open>data\<close>.
\<close>

theorem icmp_error_sent:
  assumes "arpcache_wf (cache sr)" and "sr_get_interface (if_list sr) interface = Some iface"
    and "good_ip e h pl" and "ip_decision sr h pl = Error_Message ty co data"
    and "lpm_lookup (routing_table sr) (ip_src h) = Some rt"
    and "sr_get_interface (if_list sr) (rt_interface rt) = Some out"
    and "sr_arpcache_lookup (cache sr) (if rt_gw rt \<noteq> 0 then rt_gw rt else ip_src h) = Some entry"
  shows "\<exists>sr' ip icmp. sr_handlepacket sr (ip_frame e h pl) (length (ip_frame e h pl)) interface = Inr sr' \<and>
    wire sr' = wire sr @ [vns_frame (if_name out) (ip_frame \<lparr>ether_dhost = ae_mac entry,
      ether_shost = if_addr out, ether_type = htons ethertype_ip\<rparr> ip (enc_icmp_t3 icmp))] \<and>
    cache sr' = cache sr \<and> ip\<lparr>ip_sum := 0\<rparr> = t3_ip_hdr (if_ip out) (ip_src h) \<and>
    icmp\<lparr>t3_icmp_sum := 0\<rparr> = t3_icmp_hdr ty co data \<and> length data = 28 \<and>
    ((ty = 11 \<and> co = 0 \<and> ip_ttl h \<le> 1 \<and> data = take 28 (enc_ip h @ pl)) \<or>
     (ty = 3 \<and> co = 3 \<and> ip_p h \<noteq> ip_protocol_icmp \<and> data = take 28 (enc_ip h @ pl)) \<or>
     (ty = 3 \<and> co = 0 \<and> lpm_lookup (routing_table sr) (ip_dst h) = None))"
proof -
  let ?ip = "t3_ip_hdr (if_ip out) (ip_src h)" and ?ic = "t3_icmp_hdr ty co data"
  let ?ip' = "?ip\<lparr>ip_sum := csum (enc_ip ?ip)\<rparr>" and ?ic' = "?ic\<lparr>t3_icmp_sum := csum (enc_icmp_t3 ?ic)\<rparr>"
  let ?sr' = "icmp_error sr (ip_src h) ty co data"
  have "sr_handlepacket sr (ip_frame e h pl) (length (ip_frame e h pl)) interface = Inr ?sr'"
    using assms(4) by (simp add: handlepacket_ip [OF assms(1-3)] perform_def del: length_frames)
  moreover have "length data = 28 \<and>
    ((ty = 11 \<and> co = 0 \<and> ip_ttl h \<le> 1 \<and> data = take 28 (enc_ip h @ pl)) \<or>
     (ty = 3 \<and> co = 3 \<and> ip_p h \<noteq> ip_protocol_icmp \<and> data = take 28 (enc_ip h @ pl)) \<or>
     (ty = 3 \<and> co = 0 \<and> lpm_lookup (routing_table sr) (ip_dst h) = None))"
    using assms(3,4)
    by (auto simp: ip_decision_def good_ip_def min_def split: if_splits option.splits)
  ultimately show ?thesis
    using assms(5-7)
    by (intro exI [of _ ?sr'] exI [of _ ?ip'] exI [of _ ?ic'])
      (simp add: icmp_error_def route_to_def deliver_def next_hop_def ip_frame_def ip_eth_def
        icmp_error_body_def Let_def, simp add: t3_ip_hdr_def t3_icmp_hdr_def)
qed

text \<open>
  Claim C19: ping. An ICMP echo request for one of the router's addresses is answered on the receiving
  interface by a frame of the same length that goes back to the sender's MAC, with source and
  destination address exchanged, a time to live of 64, type and code 0, and the identifier, sequence
  number and data of the request unchanged.
\<close>

theorem echo_request_answered:
  assumes "arpcache_wf (cache sr)" and "sr_get_interface (if_list sr) interface = Some iface"
    and "good_ip e h pl" and "sr_get_interface_by_ip (if_list sr) (ip_dst h) \<noteq> None"
    and "ip_p h = ip_protocol_icmp" and "pl ! 0 = 8"
  shows "\<exists>sr' h' s. sr_handlepacket sr (ip_frame e h pl) (length (ip_frame e h pl)) interface = Inr sr' \<and>
    wire sr' = wire sr @ [vns_frame interface (ip_frame \<lparr>ether_dhost = ether_shost e,
      ether_shost = if_addr iface, ether_type = htons ethertype_ip\<rparr> h'
      (enc_icmp \<lparr>icmp_type = 0, icmp_code = 0, icmp_sum = s\<rparr> @ drop 4 pl))] \<and>
    cache sr' = cache sr \<and> ip_src h' = ip_dst h \<and> ip_dst h' = ip_src h \<and> ip_ttl h' = 64"
proof -
  let ?ip = "h\<lparr>ip_src := ip_dst h, ip_dst := ip_src h, ip_ttl := 64, ip_sum := 0\<rparr>"
  define c where "c = csum (take (4 * unat (ip_hl h)) (enc_ip ?ip @ pl))"
  define s where "s = csum (enc_icmp \<lparr>icmp_type = 0, icmp_code = 0, icmp_sum = 0\<rparr> @ drop 4 pl)"
  let ?sr' = "transmit sr (echo_reply_frame iface e h pl) interface"
  have "sr_handlepacket sr (ip_frame e h pl) (length (ip_frame e h pl)) interface = Inr ?sr'"
    using assms(2,4-6)
    by (simp add: handlepacket_ip [OF assms(1-3)] perform_def ip_decision_def del: length_frames)
  moreover have "e\<lparr>ether_dhost := ether_shost e, ether_shost := if_addr iface\<rparr> =
      \<lparr>ether_dhost = ether_shost e, ether_shost = if_addr iface, ether_type = htons ethertype_ip\<rparr>"
    using assms(3) by (cases e) (simp add: good_ip_def)
  then have "echo_reply_frame iface e h pl = ip_frame \<lparr>ether_dhost = ether_shost e,
      ether_shost = if_addr iface, ether_type = htons ethertype_ip\<rparr> (?ip\<lparr>ip_sum := c\<rparr>)
      (enc_icmp \<lparr>icmp_type = 0, icmp_code = 0, icmp_sum = s\<rparr> @ drop 4 pl)"
    unfolding echo_reply_frame_def Let_def ip_frame_def c_def s_def
    by (simp only: sr_icmp_hdr.update_convs)
  ultimately show ?thesis
    by (intro exI [of _ ?sr'] exI [of _ "?ip\<lparr>ip_sum := c\<rparr>"] exI [of _ s]) simp
qed

text \<open>The header that forwarding writes, and when it verifies.\<close>

lemma forwarded_sum_verifies_iff:
  assumes "ip_hl h = 5"
  shows "ip_checksum (enc_ip (forwarded h pl)) 20 = Inr 0 \<longleftrightarrow>
    lo16 (ip_sum (forwarded h pl)) = hi16 (ip_sum (forwarded h pl))"
proof -
  let ?h0 = "h\<lparr>ip_ttl := ip_ttl h - 1, ip_sum := 0\<rparr>"
  obtain c where c: "ip_checksum (enc_ip ?h0) (int 20) = Inr c" "htons c = csum (enc_ip ?h0)"
    using ip_checksum_csum [of 20 "enc_ip ?h0"] by auto
  have f: "forwarded h pl = ?h0\<lparr>ip_sum := htons c\<rparr>"
    by (simp add: forwarded_def Let_def assms c(2))
  have "msplice (enc_ip ?h0) 10 (enc16 0) = enc_ip (?h0\<lparr>ip_sum := 0\<rparr>)"
    by (simp only: enc_ip_sum)
  then have "msplice (enc_ip ?h0) 10 (enc16 0) = enc_ip ?h0" by simp
  with swapped_store_verifies_iff [of 10 20 "enc_ip ?h0" c] c(1)
  have "ip_checksum (enc_ip (?h0\<lparr>ip_sum := htons c\<rparr>)) 20 = Inr 0 \<longleftrightarrow> lo16 c = hi16 c"
    unfolding enc_ip_sum [of "htons c" ?h0] by simp
  with f show ?thesis by (auto simp: htons_def)
qed

text \<open>
  Claim C31: the checksum of a forwarded packet. The header in the frame that the router writes for a
  forwarded packet without IP options verifies at the next hop if and only if the two bytes of its
  checksum are equal, because the code converts a value that is already in network byte order.
\<close>

theorem forwarded_checksum_verifies_iff:
  assumes "arpcache_wf (cache sr)" and "sr_get_interface (if_list sr) interface = Some iface"
    and "good_ip e h pl" and "ip_decision sr h pl = Forward out nh"
    and "sr_arpcache_lookup (cache sr) nh = Some entry" and "ip_hl h = 5"
  shows "\<exists>sr' h'. sr_handlepacket sr (ip_frame e h pl) (length (ip_frame e h pl)) interface = Inr sr' \<and>
    wire sr' = wire sr @ [vns_frame (if_name out) (ip_frame \<lparr>ether_dhost = ae_mac entry,
      ether_shost = if_addr out, ether_type = htons ethertype_ip\<rparr> h' pl)] \<and>
    ip_dst h' = ip_dst h \<and> (ip_checksum (enc_ip h') 20 = Inr 0 \<longleftrightarrow> lo16 (ip_sum h') = hi16 (ip_sum h'))"
proof -
  let ?sr' = "deliver sr out nh (ether_dhost e) (enc_ip (forwarded h pl) @ pl)"
  have "sr_handlepacket sr (ip_frame e h pl) (length (ip_frame e h pl)) interface = Inr ?sr'"
    by (simp add: handlepacket_ip [OF assms(1-3)] assms(4) perform_def del: length_frames)
  moreover have "ip_dst (forwarded h pl) = ip_dst h" by (simp add: forwarded_def Let_def)
  ultimately show ?thesis
    using assms(5) forwarded_sum_verifies_iff [OF assms(6), of pl]
    by (intro exI [of _ ?sr'] exI [of _ "forwarded h pl"]) (simp add: deliver_def ip_frame_def ip_eth_def)
qed

section \<open>ARP\<close>

lemma arp_request_eq:
  assumes "ether_type e = htons ethertype_arp" and "ar_op a = htons arp_op_request"
    and "sr_get_interface (if_list sr) interface = Some rcv"
  shows "sr_handlepacket sr (arp_frame e a pad) (length (arp_frame e a pad)) interface =
    Inr (case sr_get_interface_by_ip (if_list sr) (ar_tip a) of
           None \<Rightarrow> sr
         | Some iface \<Rightarrow> if if_addr iface = if_addr rcv
                        then transmit sr (arp_reply_frame iface e a) interface
                        else log_frame sr (arp_reply_frame iface e a))"
proof (cases "sr_get_interface_by_ip (if_list sr) (ar_tip a)")
  case None
  with assms(1,2) show ?thesis by (simp add: dispatch_arp handle_arp_packet_def)
next
  case (Some iface)
  have code: "handle_arp_packet sr (enc_eth e @ enc_arp a @ pad) (42 + length pad) interface =
      rbind (sr_send_packet sr (arp_reply_frame iface e a) 42 interface) (\<lambda>(_, sr'). Inr sr')"
    using assms(2) Some
    by (simp add: handle_arp_packet_def send_arp_reply_def arp_reply_frame_def)
  show ?thesis
  proof (cases "if_addr iface = if_addr rcv")
    case True
    with assms(3) have "rbind (sr_send_packet sr (arp_reply_frame iface e a) 42 interface)
        (\<lambda>(_, sr'). Inr sr') = Inr (transmit sr (arp_reply_frame iface e a) interface)"
      unfolding arp_reply_frame_def by (intro send_frame [OF assms(3)]) simp_all
    with True Some assms(1) show ?thesis by (simp add: dispatch_arp code)
  next
    case False
    have "sr_send_packet sr (arp_reply_frame iface e a) 42 interface =
        Inr (- 1, log_frame sr (take 42 (arp_reply_frame iface e a)))"
      using False assms(3) by (intro sr_send_packet_rejected) (simp_all add: arp_reply_frame_def)
    with False Some assms(1) show ?thesis
      by (simp add: dispatch_arp code) (simp add: arp_reply_frame_def)
  qed
qed

text \<open>
  Claim C20: ARP requests. A request for an address that no interface has is ignored. A request for
  an interface's address is answered on the receiving interface, to the requester, with that
  interface's address and MAC; the answer reaches the wire exactly when that MAC is also the
  receiving interface's, and is otherwise only logged, because the sender refuses frames with a
  foreign source address. In no case is the mapping of the requester entered into the ARP cache, as
  the documentation says it is.
\<close>

theorem arp_request_answered:
  assumes "ether_type e = htons ethertype_arp" and "ar_op a = htons arp_op_request"
    and "sr_get_interface (if_list sr) interface = Some rcv"
  shows "sr_handlepacket sr (arp_frame e a pad) (length (arp_frame e a pad)) interface =
    Inr (case sr_get_interface_by_ip (if_list sr) (ar_tip a) of
           None \<Rightarrow> sr
         | Some iface \<Rightarrow> if if_addr iface = if_addr rcv
                        then transmit sr (arp_reply_frame iface e a) interface
                        else log_frame sr (arp_reply_frame iface e a))"
  using assms by (rule arp_request_eq)

text \<open>
  ARP replies. A reply sends every packet that waits for the replying address, in the order
  of the queue, each on the interface it was queued for, from that interface's MAC to the learned
  MAC with the queued payload; nothing else is written. The request is gone afterwards, the mapping
  has been inserted, and packets waiting for other addresses still wait.
\<close>

theorem arp_reply_releases_packets:
  assumes "sr_wf sr" and "ether_type e = htons ethertype_arp" and "ar_op a = htons arp_op_reply"
  shows "\<exists>sr'. sr_handlepacket sr (arp_frame e a pad) (length (arp_frame e a pad)) interface = Inr sr' \<and>
    wire sr' = wire sr @ map (resolved_msg (if_list sr) (ar_sha a)) (pending_pkts (cache sr) (ar_sip a)) \<and>
    cache sr' = snd (sr_arpcache_insert (cache sr) (ar_sha a) (ar_sip a)
      (fst (env_clock sr (env_ticks sr)))) \<and>
    (\<forall>ip. pending_pkts (cache sr') ip = (if ip = ar_sip a then [] else pending_pkts (cache sr) ip))"
proof -
  have "arpcache_wf (cache sr)" using assms(1) by (simp add: sr_wf_def cache_ok_def)
  then show ?thesis
    using handle_arp_reply [OF assms(1,3), of e pad interface] assms(2)
    by (auto simp: dispatch_arp pending_insert)
qed

section \<open>Address resolution from end to end\<close>


fun handle_all :: "sr_instance \<Rightarrow> byte list list \<Rightarrow> string \<Rightarrow> sr_instance res" where
  "handle_all sr [] interface = Inr sr"
| "handle_all sr (f # fs) interface =
     rbind (sr_handlepacket sr f (length f) interface) (\<lambda>sr'. handle_all sr' fs interface)"

lemma vns_frame_strncpy [simp]: "vns_frame (strncpy n 32) f = vns_frame n f"
proof -
  have "name_field (strncpy n 32) 16 = name_field n 16" by (simp add: name_field_def strncpy_def)
  then show ?thesis by (simp add: vns_frame_def)
qed

lemma decision_config: "same_config sr sr' \<Longrightarrow> ip_decision sr' = ip_decision sr"
  by (auto simp: fun_eq_iff ip_decision_def same_config_def cong: option.case_cong)

lemma packets_parked:
  assumes "sr_wf sr" "sr_get_interface (if_list sr) interface = Some iface"
    "sr_arpcache_lookup (cache sr) nh = None"
    "list_all (\<lambda>(e, h, pl, out). good_ip e h pl \<and> ip_decision sr h pl = Forward out nh) ps"
  shows "\<exists>sr'. handle_all sr (map (\<lambda>(e, h, pl, out). ip_frame e h pl) ps) interface = Inr sr' \<and> sr_wf sr' \<and>
    same_config sr sr' \<and> pending_pkts (cache sr') nh =
      rev (map (\<lambda>(e, h, pl, out). parked out (ip_frame (ip_eth (ether_dhost e) out) (forwarded h pl) pl)) ps) @
      pending_pkts (cache sr) nh"
  using assms
proof (induction ps arbitrary: sr)
  case Nil
  then show ?case by (simp add: same_config_def)
next
  case (Cons p ps)
  obtain e h pl out where p: "p = (e, h, pl, out)" by (cases p)
  with Cons.prems(4) have good: "good_ip e h pl" and d: "ip_decision sr h pl = Forward out nh" by simp_all
  let ?f = "ip_frame (ip_eth (ether_dhost e) out) (forwarded h pl) pl"
  let ?sr1 = "await sr out nh ?f"
  have wf: "arpcache_wf (cache sr)" using Cons.prems(1) by (simp add: sr_wf_def cache_ok_def)
  have out: "sr_get_interface (if_list sr) (if_name out) = Some out"
    using d get_interface_name by (auto simp: ip_decision_def split: if_splits option.splits)
  have h: "sr_handlepacket sr (ip_frame e h pl) (length (ip_frame e h pl)) interface = Inr ?sr1"
    using d Cons.prems(3) handlepacket_ip [OF wf Cons.prems(2) good]
    by (simp add: perform_def deliver_def ip_frame_def)
  have wf1: "sr_wf ?sr1" and c1: "same_config sr ?sr1"
    using await_wf [OF Cons.prems(1) _ _ out, of ?f nh] good by (simp_all add: good_ip_def)
  have "sr_get_interface (if_list ?sr1) interface = Some iface" using Cons.prems(2) c1 by (simp add: same_config_def)
  moreover have "sr_arpcache_lookup (cache ?sr1) nh = None"
    using Cons.prems(3) await_spec(4) [OF wf] by (simp add: sr_arpcache_lookup_def)
  moreover have "list_all (\<lambda>(e, h, pl, out). good_ip e h pl \<and> ip_decision ?sr1 h pl = Forward out nh) ps"
    using Cons.prems(4) by (simp add: decision_config [OF c1])
  ultimately obtain sr' where "handle_all ?sr1 (map (\<lambda>(e, h, pl, out). ip_frame e h pl) ps) interface = Inr sr'"
    "sr_wf sr'" "same_config ?sr1 sr'" "pending_pkts (cache sr') nh =
      rev (map (\<lambda>(e, h, pl, out). parked out (ip_frame (ip_eth (ether_dhost e) out) (forwarded h pl) pl)) ps) @
      pending_pkts (cache ?sr1) nh"
    using Cons.IH [OF wf1] by blast
  with h c1 await_spec(2) [OF wf] show ?case
    by (intro exI [of _ sr']) (simp add: p same_config_def del: length_frames)
qed

text \<open>
  Claim C14: the packets that wait for a neighbour leave in the reverse order of their arrival. When packets
  for the same next hop, whose MAC is unknown, arrive one after the other and then that hop's ARP reply,
  the router sends each of them once, forwarded to the learned MAC on the interface of its route, the
  newest first, and behind them those that waited before, in the order in which they wait. The
  documentation describes the queue as first in, first out.
\<close>

theorem waiting_packets_leave_newest_first:
  assumes "sr_wf sr" and "sr_get_interface (if_list sr) interface = Some iface"
    and "sr_arpcache_lookup (cache sr) nh = None"
    and "list_all (\<lambda>(e, h, pl, out). good_ip e h pl \<and> ip_decision sr h pl = Forward out nh) ps"
    and "ether_type e2 = htons ethertype_arp" and "ar_op a = htons arp_op_reply" and "ar_sip a = nh"
  shows "\<exists>sr1 sr2. handle_all sr (map (\<lambda>(e, h, pl, out). ip_frame e h pl) ps) interface = Inr sr1 \<and>
    sr_handlepacket sr1 (arp_frame e2 a pad) (length (arp_frame e2 a pad)) interface2 = Inr sr2 \<and>
    wire sr2 = wire sr1 @ rev (map (\<lambda>(e, h, pl, out). vns_frame (if_name out) (ip_frame \<lparr>ether_dhost = ar_sha a,
        ether_shost = if_addr out, ether_type = htons ethertype_ip\<rparr> (forwarded h pl) pl)) ps) @
      map (resolved_msg (if_list sr) (ar_sha a)) (pending_pkts (cache sr) nh) \<and>
    pending_pkts (cache sr2) nh = []"
proof -
  from packets_parked [OF assms(1-4)] obtain sr1 where
    1: "handle_all sr (map (\<lambda>(e, h, pl, out). ip_frame e h pl) ps) interface = Inr sr1" "sr_wf sr1" "if_list sr1 = if_list sr"
      "pending_pkts (cache sr1) nh =
        rev (map (\<lambda>(e, h, pl, out). parked out (ip_frame (ip_eth (ether_dhost e) out) (forwarded h pl) pl)) ps) @
        pending_pkts (cache sr) nh"
    by (auto simp: same_config_def)
  obtain sr2 where 2: "sr_handlepacket sr1 (arp_frame e2 a pad) (length (arp_frame e2 a pad)) interface2 = Inr sr2"
    "wire sr2 = wire sr1 @ map (resolved_msg (if_list sr) (ar_sha a)) (pending_pkts (cache sr1) nh)"
    "cache sr2 = snd (sr_arpcache_insert (cache sr1) (ar_sha a) nh (fst (env_clock sr1 (env_ticks sr1))))"
    using handle_arp_reply [OF 1(2) assms(6), of e2 pad interface2] assms(5,7) 1(3) by (auto simp: dispatch_arp)
  have "resolved_msg (if_list sr) (ar_sha a) (parked out (ip_frame (ip_eth (ether_dhost e) out) (forwarded h pl) pl)) =
      vns_frame (if_name out) (ip_frame \<lparr>ether_dhost = ar_sha a, ether_shost = if_addr out,
        ether_type = htons ethertype_ip\<rparr> (forwarded h pl) pl)" if "(e, h, pl, out) \<in> set ps" for e h pl out
  proof -
    have "ip_decision sr h pl = Forward out nh" using assms(4) that by (auto simp: list_all_iff)
    then have "sr_get_interface (if_list sr) (if_name out) = Some out"
      using get_interface_name by (auto simp: ip_decision_def split: if_splits option.splits)
    then show ?thesis by (simp add: resolved_msg_def parked_def ip_frame_def ip_eth_def)
  qed
  then have "map (\<lambda>(e, h, pl, out). resolved_msg (if_list sr) (ar_sha a)
        (parked out (ip_frame (ip_eth (ether_dhost e) out) (forwarded h pl) pl))) ps =
      map (\<lambda>(e, h, pl, out). vns_frame (if_name out) (ip_frame \<lparr>ether_dhost = ar_sha a,
        ether_shost = if_addr out, ether_type = htons ethertype_ip\<rparr> (forwarded h pl) pl)) ps" by auto
  moreover have "arpcache_wf (cache sr1)" using 1(2) by (simp add: sr_wf_def cache_ok_def)
  ultimately show ?thesis
    using 1(1,4) 2 by (intro exI [of _ sr1] exI [of _ sr2]) (simp add: rev_map comp_def case_prod_unfold pending_insert)
qed

section \<open>Frames that are not checked enough\<close>

text \<open>
  Claim C37: ICMP errors about short packets read past the frame. When an expired packet for another
  host carries fewer than eight bytes behind its header and there is a route back to its source, the
  28-byte copy of \<^verbatim>\<open>send_icmp_t3\<close> runs over the end of the received frame.
\<close>

theorem short_packet_overread:
  assumes "ether_type e = htons ethertype_ip" and "length pl < 8"
    and "sr_get_interface_by_ip (if_list sr) (ip_dst h) = None" and "ip_ttl h \<le> 1"
    and "route_to sr (ip_src h) = Some x"
  shows "sr_handlepacket sr (ip_frame e h pl) (length (ip_frame e h pl)) interface = Inl OutOfBounds"
proof -
  obtain rt out where rt: "lpm_lookup (routing_table sr) (ip_src h) = Some rt"
    "sr_get_interface (if_list sr) (rt_interface rt) = Some out"
    using assms(5) by (auto simp: route_to_def split: option.splits)
  let ?ip = "t3_ip_hdr (if_ip out) (ip_src h)"
  have "uint (ip_hl ?ip) * 4 = 20" by (simp add: t3_ip_hdr_def)
  moreover obtain c where "ip_checksum (enc_ip ?ip) 20 = Inr c"
    using ip_checksum_safe [of 20 "enc_ip ?ip"] by auto
  ultimately have "send_icmp_t3 sr (enc_eth e @ enc_ip h @ pl) len ty co = Inl OutOfBounds" for len ty co
    using rt assms(2) by (simp add: send_icmp_t3_def Let_def)
  with assms show ?thesis
    by (simp add: dispatch_ip handle_ip_packet_def forward_ip_packet_def)
qed

text \<open>
  Claim C38: the header length field is trusted. Forwarding a packet whose IP header length exceeds
  the frame makes \<^verbatim>\<open>ip_checksum\<close> read past its end.
\<close>

theorem header_length_overread:
  assumes "ether_type e = htons ethertype_ip" and "20 + length pl < 4 * unat (ip_hl h)"
    and "sr_get_interface_by_ip (if_list sr) (ip_dst h) = None" and "1 < ip_ttl h"
  shows "sr_handlepacket sr (ip_frame e h pl) (length (ip_frame e h pl)) interface = Inl OutOfBounds"
proof -
  have "ip_checksum (enc_ip h' @ pl) (uint (ip_hl h) * 4) = Inl OutOfBounds" for h'
    using assms(2) by (intro ip_checksum_oob) (simp only: hl_int of_nat_less_iff length_append length_enc_hdr)
  moreover have "\<not> ip_ttl h \<le> 1" using assms(4) by (simp add: not_le)
  ultimately show ?thesis
    using assms(1,3) by (simp add: dispatch_ip handle_ip_packet_def forward_ip_packet_def Let_def)
qed

text \<open>
  Claim C39: the ICMP header of a packet for the router is not checked either. Of the frames with an ICMP packet
  for the router (and an IP header of 20 bytes) that end within the first four bytes of the ICMP header, exactly two kinds fault: those that
  end with the IP header, when the ICMP type is read, and echo requests, when the reply's header is
  written. The others are discarded.
\<close>

theorem short_icmp_fault:
  assumes "ether_type e = htons ethertype_ip" and "ip_hl h = 5" and "ip_p h = ip_protocol_icmp"
    and "sr_get_interface_by_ip (if_list sr) (ip_dst h) \<noteq> None"
    and "sr_get_interface (if_list sr) interface = Some iface"
    and "length pl < 4"
  shows "sr_handlepacket sr (ip_frame e h pl) (length (ip_frame e h pl)) interface =
    (if pl = [] \<or> pl ! 0 = 8 then Inl OutOfBounds else Inr sr)"
proof (cases pl)
  case Nil
  with assms show ?thesis
    by (auto simp: dispatch_ip [of e _ _ "[]", simplified] handle_ip_packet_def rd8_def mslice_def)
next
  case (Cons b bs)
  have t: "rd8 (enc_eth e @ enc_ip h @ pl) 34 = Inr (pl ! 0)"
    using Cons by (simp add: rd8_def nth_append)
  show ?thesis
  proof (cases "pl ! 0 = 8")
    case True
    let ?ip0 = "h\<lparr>ip_src := ip_dst h, ip_dst := ip_src h, ip_ttl := 64, ip_sum := 0\<rparr>"
    obtain c where c: "ip_checksum (enc_ip ?ip0 @ pl) 20 = Inr c"
      using ip_checksum_safe [of 20 "enc_ip ?ip0 @ pl"] by auto
    have "wr_struct enc_icmp (enc_eth e' @ enc_ip h' @ pl) 34 i = Inl OutOfBounds" for e' h' i
      using assms(6) by (simp add: wr_struct_def)
    then have "send_icmp_echo_reply sr (enc_eth e @ enc_ip h @ pl) (34 + length pl) interface =
        Inl OutOfBounds"
      using assms(2,5) c by (simp add: send_icmp_echo_reply_def Let_def mslice_def)
    with t True assms(1,3,4) show ?thesis by (auto simp: dispatch_ip handle_ip_packet_def)
  next
    case False
    moreover have "pl \<noteq> []" using Cons by simp
    ultimately show ?thesis using t assms(1,3,4) by (auto simp: dispatch_ip handle_ip_packet_def)
  qed
qed

text \<open>
  Every other frame is ignored: frames shorter than the headers of their protocol, frames
  of an unknown Ethernet type, and ARP messages that are neither request nor reply leave the router
  as it was.
\<close>

theorem other_frames_ignored:
  assumes "length packet < 14 \<or>
     ethertype packet = Inr ty \<and> (ty \<noteq> ethertype_arp \<and> ty \<noteq> ethertype_ip \<or>
       ty = ethertype_ip \<and> length packet < 34 \<or> ty = ethertype_arp \<and> length packet < 42 \<or>
       ty = ethertype_arp \<and> htons (ar_op (dec_arp (mslice packet 14 28))) \<notin> {arp_op_request, arp_op_reply})"
  shows "sr_handlepacket sr packet (length packet) interface = Inr sr"
proof (cases "length packet < 14")
  case False
  then have "ethertype packet = Inr (htons (ether_type (dec_eth (mslice packet 0 14))))"
    by (simp add: ethertype_def)
  with False assms show ?thesis
    by (auto simp: sr_handlepacket_def handle_arp_packet_def handle_ip_packet_def Let_def protocol_consts)
qed (simp add: sr_handlepacket_def)

section \<open>Examples\<close>

abbreviation (input) ex_host :: u32 where "ex_host \<equiv> htonl 0x0A000105"
abbreviation (input) ex_known :: u32 where "ex_known \<equiv> htonl 0x0A000209"
abbreviation (input) ex_unknown :: u32 where "ex_unknown \<equiv> htonl 0x0A000207"

definition ex_pl :: "byte list" where
  "ex_pl = [8, 0, 0, 0, 0, 1, 0, 2]"

lemma ex_good: "ip_hl h = 5 \<Longrightarrow> good_ip ex_eth_hdr h ex_pl"
  by (simp add: good_ip_def ex_eth_hdr_def ex_pl_def)

lemma ex_routes:
  "lpm_lookup [ex_rt1, ex_rt2] ex_known = Some ex_rt2"
  "lpm_lookup [ex_rt1, ex_rt2] ex_unknown = Some ex_rt2"
  "lpm_lookup [ex_rt1, ex_rt2] ex_host = Some ex_rt1"
  by (simp_all add: lpm_lookup_def ex_rt1_def ex_rt2_def byte_simps)

lemma ex_hops:
  "rt_gw ex_rt1 = 0" "rt_gw ex_rt2 = 0" "rt_interface ex_rt1 = ''eth1''" "rt_interface ex_rt2 = ''eth2''"
  by (simp_all add: ex_rt1_def ex_rt2_def)

lemma ex_if_fields [simp]:
  "if_ip ex_if1 = htonl 0x0A000101" "if_ip ex_if2 = htonl 0x0A000201"
  "if_addr ex_if1 = MAC 2 0 0 0 0 1" "if_addr ex_if2 = MAC 2 0 0 0 0 2"
  "if_name ex_if1 = ''eth1''" "if_name ex_if2 = ''eth2''"
  "strncmp_eq ''eth1'' n 32 = (take 32 n = ''eth1'')"
  by (simp_all add: ex_if1_def ex_if2_def strncmp_eq_def eq_commute [of _ "take _ _"])

lemma ex_length [simp]: "length ex_pl = 8"
  by (simp add: ex_pl_def)

lemma ex_ip_fields [simp]:
  "ip_hl (ex_ip_hdr s d) = 5" "ip_src (ex_ip_hdr s d) = s" "ip_dst (ex_ip_hdr s d) = d"
  "ip_ttl (ex_ip_hdr s d) = 64" "ip_p (ex_ip_hdr s d) = 17" "\<not> (64 :: byte) \<le> 1" "(1 :: byte) < 64"
  by (simp_all add: ex_ip_hdr_def word_le_nat_alt word_less_nat_alt)

lemma ex_decision:
  "ip_decision ex_sr (ex_ip_hdr ex_host ex_known) ex_pl = Forward ex_if2 ex_known"
  "ip_decision ex_sr (ex_ip_hdr ex_host ex_unknown) ex_pl = Forward ex_if2 ex_unknown"
  by (simp_all add: ip_decision_def ex_routes ex_hops next_hop_def)

lemma ex_arp_wf: "arpcache_wf (cache ex_sr)"
  using ex_sr_wf by (simp add: sr_wf_def cache_ok_def)

lemma ex_in: "sr_get_interface (if_list ex_sr) ''eth1'' = Some ex_if1" by simp

theorem ip_packet_refines_decision_witness:
  "sr_handlepacket ex_sr (ip_frame ex_eth_hdr (ex_ip_hdr ex_host ex_known) ex_pl) 42 ''eth1'' =
    Inr (perform ex_sr ex_eth_hdr (ex_ip_hdr ex_host ex_known) ex_pl ''eth1'' (Forward ex_if2 ex_known))"
  using ip_packet_refines_decision [OF ex_arp_wf ex_in ex_good, of "ex_ip_hdr ex_host ex_known"]
  by (simp add: ex_decision)

theorem forward_to_known_neighbour_witness:
  "\<exists>sr' h'. sr_handlepacket ex_sr (ip_frame ex_eth_hdr (ex_ip_hdr ex_host ex_known) ex_pl) 42 ''eth1'' =
      Inr sr' \<and>
    wire sr' = [vns_frame ''eth2'' (ip_frame \<lparr>ether_dhost = MAC 4 0 0 0 0 9,
      ether_shost = MAC 2 0 0 0 0 2, ether_type = htons ethertype_ip\<rparr> h' ex_pl)] \<and> ip_ttl h' = 63"
  using forward_to_known_neighbour [OF ex_arp_wf ex_in ex_good, of "ex_ip_hdr ex_host ex_known" ex_rt2 ex_if2]
  by (auto simp: ex_routes ex_hops ex_lookup)

theorem forward_parks_packet_witness:
  "\<exists>sr' r. sr_handlepacket ex_sr (ip_frame ex_eth_hdr (ex_ip_hdr ex_host ex_unknown) ex_pl) 42 ''eth1'' =
      Inr sr' \<and>
    wire sr' = [vns_frame ''eth2'' (arp_request_frame ex_if2 ex_unknown)] \<and>
    find_req ex_unknown (requests (cache sr')) = Some r \<and> length (rq_packets r) = 1"
proof -
  have "sr_arpcache_lookup (cache ex_sr) ex_unknown = None" by (simp add: ex_lookup)
  from forward_parks_packet [OF ex_arp_wf ex_in ex_good ex_decision(2) this] obtain sr' r h' where
    "sr_handlepacket ex_sr (ip_frame ex_eth_hdr (ex_ip_hdr ex_host ex_unknown) ex_pl) (34 + length ex_pl)
      ''eth1'' = Inr sr'"
    "wire sr' = [vns_frame (if_name ex_if2) (arp_request_frame ex_if2 ex_unknown)]"
    "find_req ex_unknown (requests (cache sr')) = Some r"
    "map pk_buf (rq_packets r) = [h']"
    by (auto simp: request_sent_def pending_pkts_def)
  moreover from this(4) have "length (rq_packets r) = 1" by auto
  ultimately show ?thesis by auto
qed

theorem icmp_error_sent_witness:
  "\<exists>sr' ip icmp. sr_handlepacket ex_sr (ip_frame ex_eth_hdr
      (ex_ip_hdr ex_known (htonl 0x01020304)) ex_pl) 42 ''eth1'' = Inr sr' \<and>
    wire sr' = [vns_frame ''eth2'' (ip_frame \<lparr>ether_dhost = MAC 4 0 0 0 0 9,
      ether_shost = MAC 2 0 0 0 0 2, ether_type = htons ethertype_ip\<rparr> ip (enc_icmp_t3 icmp))] \<and>
    t3_icmp_type icmp = 3 \<and> t3_icmp_code icmp = 0"
proof -
  let ?h = "ex_ip_hdr ex_known (htonl 0x01020304)"
  have "lpm_lookup [ex_rt1, ex_rt2] (htonl 0x01020304) = None"
    by (simp add: lpm_lookup_def ex_rt1_def ex_rt2_def byte_simps)
  then have "ip_decision ex_sr ?h ex_pl = Error_Message 3 0 (take 28 (enc_ip (forwarded ?h ex_pl) @ ex_pl))"
    by (simp add: ip_decision_def)
  from icmp_error_sent [OF ex_arp_wf ex_in ex_good this, of ex_rt2 ex_if2] obtain sr' ip icmp where
    "sr_handlepacket ex_sr (ip_frame ex_eth_hdr ?h ex_pl) (34 + length ex_pl) ''eth1'' = Inr sr'"
    "wire sr' = [vns_frame (if_name ex_if2) (ip_frame \<lparr>ether_dhost = MAC 4 0 0 0 0 9,
      ether_shost = if_addr ex_if2, ether_type = htons ethertype_ip\<rparr> ip (enc_icmp_t3 icmp))]"
    and ic: "\<exists>data. icmp\<lparr>t3_icmp_sum := 0\<rparr> = t3_icmp_hdr 3 0 data"
    by (auto simp: ex_routes ex_hops ex_lookup)
  moreover from ic have "t3_icmp_type icmp = 3 \<and> t3_icmp_code icmp = 0"
    by (cases icmp) (auto simp: t3_icmp_hdr_def)
  ultimately show ?thesis by auto
qed

theorem forwarded_checksum_verifies_iff_witness:
  "\<exists>sr' h'. sr_handlepacket ex_sr (ip_frame ex_eth_hdr (ex_ip_hdr ex_host ex_known) ex_pl) 42 ''eth1'' =
      Inr sr' \<and>
    wire sr' = [vns_frame ''eth2'' (ip_frame \<lparr>ether_dhost = MAC 4 0 0 0 0 9,
      ether_shost = MAC 2 0 0 0 0 2, ether_type = htons ethertype_ip\<rparr> h' ex_pl)] \<and>
    (ip_checksum (enc_ip h') 20 = Inr 0 \<longleftrightarrow> lo16 (ip_sum h') = hi16 (ip_sum h'))"
proof -
  have "sr_arpcache_lookup (cache ex_sr) ex_known \<noteq> None" by (simp add: ex_lookup)
  then obtain entry where "sr_arpcache_lookup (cache ex_sr) ex_known = Some entry" by auto
  moreover have "ae_mac entry = MAC 4 0 0 0 0 9" using calculation by (auto simp: ex_lookup)
  moreover have "ip_hl (ex_ip_hdr ex_host ex_known) = 5" by (simp add: ex_ip_hdr_def)
  ultimately show ?thesis
    using forwarded_checksum_verifies_iff [OF ex_arp_wf ex_in ex_good ex_decision(1)] by auto
qed

lemma ex_forwarded_sum_wrong:
  "ip_checksum (enc_ip (forwarded (ex_ip_hdr ex_host ex_known) ex_pl)) 20 \<noteq> Inr 0"
proof -
  have "ip_sum (forwarded (ex_ip_hdr ex_host ex_known) ex_pl) = 0x64C4"
    by (simp add: forwarded_def Let_def csum_def ip_checksum_def ex_ip_hdr_def enc_ip_def enc16_def
        enc32_def ip_checksum_words.simps fold_carry.simps rd16_def byte_simps)
  with forwarded_sum_verifies_iff [of "ex_ip_hdr ex_host ex_known" ex_pl] show ?thesis
    by (simp add: byte_simps)
qed

theorem echo_request_answered_witness:
  "\<exists>sr' h' s. sr_handlepacket ex_sr (ip_frame ex_eth_hdr
      ((ex_ip_hdr ex_host (htonl 0x0A000201))\<lparr>ip_p := ip_protocol_icmp\<rparr>) ex_pl) 42 ''eth1'' = Inr sr' \<and>
    wire sr' = [vns_frame ''eth1'' (ip_frame \<lparr>ether_dhost = MAC 4 0 0 0 0 5,
      ether_shost = MAC 2 0 0 0 0 1, ether_type = htons ethertype_ip\<rparr> h'
      (enc_icmp \<lparr>icmp_type = 0, icmp_code = 0, icmp_sum = s\<rparr> @ [0, 1, 0, 2]))] \<and> ip_dst h' = ex_host"
proof -
  let ?h = "(ex_ip_hdr ex_host (htonl 0x0A000201))\<lparr>ip_p := ip_protocol_icmp\<rparr>"
  have "good_ip ex_eth_hdr ?h ex_pl" by (intro ex_good) simp
  from echo_request_answered [OF ex_arp_wf ex_in this] show ?thesis
    by (auto simp: ex_pl_def ex_eth_hdr_def)
qed

definition ex_arp :: "u16 \<Rightarrow> u32 \<Rightarrow> u32 \<Rightarrow> sr_arp_hdr" where
  "ex_arp op sip tip = \<lparr>ar_hrd = htons arp_hrd_ethernet, ar_pro = htons ethertype_ip, ar_hln = 6,
     ar_pln = 4, ar_op = htons op, ar_sha = MAC 4 0 0 0 0 7, ar_sip = sip, ar_tha = MAC 2 0 0 0 0 2,
     ar_tip = tip\<rparr>"

definition ex_arp_eth :: sr_ethernet_hdr where
  "ex_arp_eth = \<lparr>ether_dhost = MAC 2 0 0 0 0 2, ether_shost = MAC 4 0 0 0 0 7,
     ether_type = htons ethertype_arp\<rparr>"

text \<open>The same request is answered on the interface that has the address and dropped on the other.\<close>

theorem arp_request_answered_witness:
  "let f = arp_frame ex_arp_eth (ex_arp arp_op_request ex_unknown (htonl 0x0A000201)) [] in
   (\<exists>sr'. sr_handlepacket ex_sr f 42 ''eth2'' = Inr sr' \<and> length (wire sr') = 1) \<and>
   (\<exists>sr'. sr_handlepacket ex_sr f 42 ''eth1'' = Inr sr' \<and> wire sr' = [])"
  using arp_request_answered [of ex_arp_eth "ex_arp arp_op_request ex_unknown (htonl 0x0A000201)" ex_sr
      "''eth2''" ex_if2 "[]"]
    arp_request_answered [of ex_arp_eth "ex_arp arp_op_request ex_unknown (htonl 0x0A000201)" ex_sr
      "''eth1''" ex_if1 "[]"]
  by (simp add: ex_arp_eth_def ex_arp_def)


theorem waiting_packets_leave_newest_first_witness:
  "\<exists>sr1 sr2. handle_all ex_sr [ip_frame ex_eth_hdr (ex_ip_hdr ex_host ex_unknown) [1, 1, 1, 1, 1, 1, 1, 1],
      ip_frame ex_eth_hdr (ex_ip_hdr ex_host ex_unknown) [2, 2, 2, 2, 2, 2, 2, 2]] ''eth1'' = Inr sr1 \<and>
    sr_handlepacket sr1 (arp_frame ex_arp_eth (ex_arp arp_op_reply ex_unknown (htonl 0x0A000201)) []) 42 ''eth2'' = Inr sr2 \<and>
    (\<exists>e h h'. wire sr2 = wire sr1 @ [vns_frame ''eth2'' (ip_frame e h [2, 2, 2, 2, 2, 2, 2, 2]),
      vns_frame ''eth2'' (ip_frame e h' [1, 1, 1, 1, 1, 1, 1, 1])])"
proof -
  let ?a = "ex_arp arp_op_reply ex_unknown (htonl 0x0A000201)" and ?h = "ex_ip_hdr ex_host ex_unknown"
  let ?ps = "[(ex_eth_hdr, ?h, [1, 1, 1, 1, 1, 1, 1, 1 :: byte], ex_if2), (ex_eth_hdr, ?h, [2, 2, 2, 2, 2, 2, 2, 2], ex_if2)]"
  have "sr_arpcache_lookup (cache ex_sr) ex_unknown = None" by (simp add: ex_lookup)
  moreover have "list_all (\<lambda>(e, h, pl, out). good_ip e h pl \<and> ip_decision ex_sr h pl = Forward out ex_unknown) ?ps"
    by (simp add: good_ip_def ip_decision_def ex_routes ex_hops next_hop_def) (simp add: ex_eth_hdr_def)
  ultimately show ?thesis
    using waiting_packets_leave_newest_first [OF ex_sr_wf ex_in, of ex_unknown ?ps ex_arp_eth ?a "[]" "''eth2''"]
    by (force simp: ex_arp_eth_def ex_arp_def pending_pkts_def)
qed

theorem arp_reply_releases_packets_witness:
  "\<exists>sr'. sr_handlepacket ex_sr (arp_frame ex_arp_eth (ex_arp arp_op_reply ex_unknown (htonl 0x0A000201)) [])
      42 ''eth2'' = Inr sr' \<and> wire sr' = []"
  using arp_reply_releases_packets [OF ex_sr_wf, of ex_arp_eth
      "ex_arp arp_op_reply ex_unknown (htonl 0x0A000201)" "[]" "''eth2''"]
  by (auto simp: ex_arp_eth_def ex_arp_def pending_pkts_def)

theorem short_packet_overread_witness:
  "sr_handlepacket ex_sr (ip_frame ex_eth_hdr ((ex_ip_hdr ex_host ex_known)\<lparr>ip_ttl := 1\<rparr>) [1, 2]) 36
     ''eth1'' = Inl OutOfBounds"
  using short_packet_overread [of ex_eth_hdr "[1, 2]" ex_sr "(ex_ip_hdr ex_host ex_known)\<lparr>ip_ttl := 1\<rparr>"
      "(ex_if1, ex_host)" "''eth1''"]
  by (simp add: ex_eth_hdr_def route_to_def ex_routes ex_hops next_hop_def)

theorem header_length_overread_witness:
  "sr_handlepacket ex_sr (ip_frame ex_eth_hdr ((ex_ip_hdr ex_host ex_known)\<lparr>ip_hl := 15\<rparr>) ex_pl) 42
     ''eth1'' = Inl OutOfBounds"
  using header_length_overread [of ex_eth_hdr ex_pl "(ex_ip_hdr ex_host ex_known)\<lparr>ip_hl := 15\<rparr>" ex_sr
      "''eth1''"]
  by (simp add: ex_eth_hdr_def)

theorem short_icmp_fault_witness:
  "sr_handlepacket ex_sr (ip_frame ex_eth_hdr
     ((ex_ip_hdr ex_host (htonl 0x0A000101))\<lparr>ip_p := ip_protocol_icmp\<rparr>) [8]) 35 ''eth1'' = Inl OutOfBounds"
  using short_icmp_fault [of ex_eth_hdr "(ex_ip_hdr ex_host (htonl 0x0A000101))\<lparr>ip_p := ip_protocol_icmp\<rparr>"
      ex_sr "''eth1''" ex_if1 "[8]"]
  by (simp add: ex_eth_hdr_def)

theorem other_frames_ignored_witness:
  "sr_handlepacket ex_sr (replicate 20 0) 20 ''eth1'' = Inr ex_sr"
proof -
  have "ethertype (replicate 20 0) = Inr 0"
    by (simp add: ethertype_def mslice_def dec_eth_def field_def dec16_def) (simp add: byte_simps numeral_eq_Suc)
  then show ?thesis
    using other_frames_ignored [of "replicate 20 0" 0 ex_sr "''eth1''"] by (simp add: protocol_consts)
qed

end
