(* ===== verification/ArpRetry.thy ===== *)
theory ArpRetry
  imports PacketPath
begin

text \<open>
  Retransmission and giving up: what one call of \<^verbatim>\<open>handle_arpreq\<close> does in each of its cases, what
  a round of the timer thread does to every outstanding request, and that without an answer every
  request disappears after at most six rounds.
\<close>

section \<open>Host unreachable\<close>

text \<open>
  The message for one waiting packet. Its checksums come from \<^verbatim>\<open>cksum\<close>, whose result is stored as it
  is. \<open>None\<close> when the code skips the packet: no route to its source, or no known neighbour there.
\<close>

definition cksum16 :: "byte list \<Rightarrow> u16" where
  "cksum16 bs = (case cksum bs (int (length bs)) of Inl _ \<Rightarrow> 0 | Inr c \<Rightarrow> c)"

definition unreachable_body :: "sr_if \<Rightarrow> u32 \<Rightarrow> byte list \<Rightarrow> byte list" where
  "unreachable_body i dst data =
     (let ip0 = t3_ip_hdr (if_ip i) dst; icmp0 = t3_icmp_hdr 3 1 data in
      enc_ip (ip0\<lparr>ip_sum := cksum16 (enc_ip ip0)\<rparr>) @
      enc_icmp_t3 (icmp0\<lparr>t3_icmp_sum := cksum16 (enc_icmp_t3 icmp0)\<rparr>))"

definition unreachable_for :: "sr_instance \<Rightarrow> sr_packet \<Rightarrow> (sr_if \<times> byte list) option" where
  "unreachable_for sr p =
     (let src = ip_src (dec_ip (mslice (pk_buf p) 14 20)) in
      case (sr_get_interface (if_list sr) (pk_iface p), route_to sr src) of
        (Some i, Some (out, nh)) \<Rightarrow>
          map_option (\<lambda>entry. (out, enc_eth (ip_eth (ae_mac entry) out) @
              unreachable_body i src (mslice (pk_buf p) 14 28)))
            (sr_arpcache_lookup (cache sr) nh)
      | _ \<Rightarrow> None)"

lemma cksum_cksum16:
  assumes "n = length p"
  shows "cksum p (int n) = Inr (cksum16 p)"
  using cksum_safe [of "int n" p] assms by (auto simp: cksum16_def)

lemma host_unreachable_one_eq:
  assumes "queued_ok (if_list sr) p"
  shows "host_unreachable_one sr p = Inr (case unreachable_for sr p of None \<Rightarrow> sr
    | Some (out, frame) \<Rightarrow> transmit sr frame (if_name out))"
proof -
  obtain i where i: "sr_get_interface (if_list sr) (pk_iface p) = Some i"
    and len: "42 \<le> length (pk_buf p)"
    using assms by (auto simp: queued_ok_def)
  define src where "src = ip_src (dec_ip (mslice (pk_buf p) 14 20))"
  define data where "data = mslice (pk_buf p) 14 28"
  have ld: "length data = 28" using len by (simp add: data_def)
  let ?ip = "t3_ip_hdr (if_ip i) src" and ?ic = "t3_icmp_hdr 3 1 data"
  have c: "cksum (enc_ip ?ip) 20 = Inr (cksum16 (enc_ip ?ip))"
    using cksum_cksum16 [of 20 "enc_ip ?ip"] by simp
  have l2: "length (enc_icmp_t3 ?ic) = 36" using ld by (simp add: t3_icmp_hdr_def)
  have c2: "cksum (enc_icmp_t3 ?ic) 36 = Inr (cksum16 (enc_icmp_t3 ?ic))"
    using cksum_cksum16 [of 36 "enc_icmp_t3 ?ic"] l2 by simp
  have body: "enc_ip (?ip\<lparr>ip_sum := cksum16 (enc_ip ?ip)\<rparr>) @
      enc_icmp_t3 (?ic\<lparr>t3_icmp_sum := cksum16 (enc_icmp_t3 ?ic)\<rparr>) = unreachable_body i src data"
    by (simp add: unreachable_body_def Let_def)
  have lb: "length (unreachable_body i src data) = 56"
    using ld by (simp add: unreachable_body_def Let_def t3_icmp_hdr_def)
  have send: "rbind (sr_send_packet sr (enc_eth (ip_eth m out) @ unreachable_body i src data) 70 (if_name out))
      (\<lambda>(_, sr'). Inr sr') = Inr (transmit sr (enc_eth (ip_eth m out) @ unreachable_body i src data) (if_name out))"
    if "sr_get_interface (if_list sr) (if_name out) = Some out" for m out
    using that lb by (intro send_frame) (simp_all add: ip_eth_def)
  have "host_unreachable_one sr p =
    (case lpm_lookup (routing_table sr) src of
       None \<Rightarrow> Inr sr
     | Some best \<Rightarrow> (case sr_get_interface (if_list sr) (rt_interface best) of
         None \<Rightarrow> Inr sr
       | Some out \<Rightarrow> (case sr_arpcache_lookup (cache sr) (next_hop best src) of
           Some entry \<Rightarrow> rbind (sr_send_packet sr (enc_eth (ip_eth (ae_mac entry) out) @
             unreachable_body i src data) 70 (if_name out)) (\<lambda>(_, sr'). Inr sr')
         | None \<Rightarrow> Inr sr)))"
    using i len c c2
    by (simp add: host_unreachable_one_def Let_def src_def [symmetric] data_def [symmetric] body
        next_hop_def ip_eth_def cong: option.case_cong if_cong)
  then show ?thesis
    using i send get_interface_name
    by (auto simp: unreachable_for_def route_to_def src_def [symmetric] data_def [symmetric] Let_def
        split: option.splits)
qed

text \<open>Messages for other packets do not change what is decided for the next one.\<close>

lemma unreachable_for_same: "same_core sr sr' \<Longrightarrow> unreachable_for sr' p = unreachable_for sr p"
  by (simp add: unreachable_for_def route_to_def same_core_def same_config_def Let_def
      cong: option.case_cong)

definition unreachable_msgs :: "sr_instance \<Rightarrow> sr_packet list \<Rightarrow> byte list list" where
  "unreachable_msgs sr ps = concat (map (\<lambda>p. case unreachable_for sr p of None \<Rightarrow> []
     | Some (out, frame) \<Rightarrow> [vns_frame (if_name out) frame]) ps)"

lemma unreachable_msgs_same: "same_core sr sr' \<Longrightarrow> unreachable_msgs sr' ps = unreachable_msgs sr ps"
  by (simp add: unreachable_msgs_def unreachable_for_same)

lemma host_unreachable_loop_wire:
  assumes "list_all (queued_ok (if_list sr)) ps"
  shows "\<exists>sr'. host_unreachable_loop sr ps = Inr sr' \<and> same_core sr sr' \<and>
    wire sr' = wire sr @ unreachable_msgs sr ps"
  using assms
proof (induction ps arbitrary: sr)
  case Nil
  then show ?case by (simp add: unreachable_msgs_def)
next
  case (Cons p ps)
  define sr1 where "sr1 = (case unreachable_for sr p of None \<Rightarrow> sr
    | Some (out, frame) \<Rightarrow> transmit sr frame (if_name out))"
  have one: "host_unreachable_one sr p = Inr sr1"
    using host_unreachable_one_eq [of sr p] Cons.prems by (simp add: sr1_def)
  have s: "same_core sr sr1"
    by (auto simp: sr1_def same_core_def same_config_def split: option.splits prod.splits)
  have w: "wire sr1 = wire sr @ unreachable_msgs sr [p]"
    by (auto simp: sr1_def unreachable_msgs_def split: option.splits)
  obtain sr' where "host_unreachable_loop sr1 ps = Inr sr'" "same_core sr1 sr'"
    "wire sr' = wire sr1 @ unreachable_msgs sr ps"
    using Cons.IH [of sr1] Cons.prems same_core_if [OF s] unreachable_msgs_same [OF s] by auto
  with one w same_core_trans [OF s] show ?case by (auto simp: unreachable_msgs_def)
qed

section \<open>One call of \<^verbatim>\<open>handle_arpreq\<close>\<close>

definition retry_msg :: "sr_instance \<Rightarrow> sr_arpreq \<Rightarrow> byte list" where
  "retry_msg sr r =
     (case sr_get_interface (if_list sr) (pk_iface (hd (rq_packets r))) of
        None \<Rightarrow> [] | Some i \<Rightarrow> vns_frame (if_name i) (arp_request_frame i (rq_ip r)))"

lemma send_for_req_wire:
  assumes "req_ok (if_list sr) r"
  shows "\<exists>sr'. send_arp_request_for_req sr r = Inr sr' \<and> same_core sr sr' \<and>
    wire sr' = wire sr @ [retry_msg sr r]"
proof -
  obtain p ps i where p: "rq_packets r = p # ps" "sr_get_interface (if_list sr) (pk_iface p) = Some i"
    using assms by (cases "rq_packets r") (auto simp: req_ok_def queued_ok_def)
  note n = get_interface_name [OF p(2)]
  have "rbind (sr_send_packet sr (arp_request_frame i (rq_ip r)) 42 (if_name i)) (\<lambda>(_, sr'). Inr sr') =
      Inr (transmit sr (arp_request_frame i (rq_ip r)) (if_name i))"
    unfolding arp_request_frame_def by (intro send_frame [OF n]) simp_all
  with p show ?thesis
    by (auto simp: send_arp_request_for_req_def retry_msg_def same_core_def same_config_def)
qed

text \<open>What happens to the request with address \<open>a\<close>, and what is written, at time \<open>now\<close>.\<close>

definition arpreq_step :: "int \<Rightarrow> sr_arpreq \<Rightarrow> sr_arpreq option" where
  "arpreq_step now r =
     (if now - rq_sent r < 1 then Some r
      else if rq_times_sent r \<ge> 5 then None
      else Some (r\<lparr>rq_sent := now, rq_times_sent := rq_times_sent r + 1\<rparr>))"

definition arpreq_msgs :: "sr_instance \<Rightarrow> int \<Rightarrow> sr_arpreq \<Rightarrow> byte list list" where
  "arpreq_msgs sr now r =
     (if now - rq_sent r < 1 then []
      else if rq_times_sent r \<ge> 5 then unreachable_msgs sr (rq_packets r)
      else [retry_msg sr r])"

lemma deref_upd_cases:
  assumes "\<And>r. rq_addr (f r) = rq_addr r"
  shows "deref_req b (requests (upd_req a f c)) =
    (if b = a then map_option f (deref_req a (requests c)) else deref_req b (requests c))"
proof (cases "b = a")
  case True
  then show ?thesis
    by (cases "deref_req a (requests c)")
      (auto simp: assms deref_upd_req dest: req_by_addr.search_hit)
qed (simp add: assms deref_upd_other)

lemma handle_arpreq_eq:
  assumes wf: "sr_wf sr" and r: "deref_req a (requests (cache sr)) = Some r"
  shows "\<exists>sr'. handle_arpreq sr a = Inr sr' \<and> sr_wf sr' \<and> same_config sr sr' \<and>
    env_ticks sr < env_ticks sr' \<and> entries (cache sr') = entries (cache sr) \<and>
    wire sr' = wire sr @ arpreq_msgs sr (fst (env_clock sr (env_ticks sr))) r \<and>
    (\<forall>b. deref_req b (requests (cache sr')) =
      (if b = a then arpreq_step (fst (env_clock sr (env_ticks sr))) r
       else deref_req b (requests (cache sr))))"
proof -
  let ?sr1 = "sr\<lparr>env_ticks := Suc (env_ticks sr)\<rparr>" and ?now = "fst (env_clock sr (env_ticks sr))"
  have c: "arpcache_wf (cache sr)" and q: "req_ok (if_list sr) r"
    using wf r req_by_addr.search_hit [of a "requests (cache sr)" r]
    by (auto simp: sr_wf_def cache_ok_def)
  have m: "unreachable_msgs ?sr1 ps = unreachable_msgs sr ps" for ps
    by (rule unreachable_msgs_same) (simp add: same_core_def)
  obtain sr2 where h: "send_icmp_host_unreachable ?sr1 r = Inr sr2" "same_core ?sr1 sr2"
    "wire sr2 = wire sr @ unreachable_msgs sr (rq_packets r)"
    using host_unreachable_loop_wire [of ?sr1 "rq_packets r"] q
    by (auto simp: send_icmp_host_unreachable_def req_ok_def m)
  obtain sr3 where s: "send_arp_request_for_req ?sr1 r = Inr sr3" "same_core ?sr1 sr3"
    "wire sr3 = wire sr @ [retry_msg sr r]"
    using send_for_req_wire [of ?sr1 r] q by (auto simp: retry_msg_def)
  have a: "rq_addr r = a" using r req_by_addr.search_hit by blast
  obtain sr' where sr': "handle_arpreq sr a = Inr sr'" "sr_wf sr'" "same_config sr sr'"
    using handle_arpreq_safe [OF wf r] by (auto simp: rpost_iff)
  have "env_ticks sr < env_ticks sr' \<and> entries (cache sr') = entries (cache sr) \<and>
    wire sr' = wire sr @ arpreq_msgs sr ?now r \<and>
    (\<forall>b. deref_req b (requests (cache sr')) =
      (if b = a then arpreq_step ?now r else deref_req b (requests (cache sr))))"
    using sr'(1) r h s c a
    by (auto simp: handle_arpreq_def time_now_eq arpreq_msgs_def arpreq_step_def same_core_def
        deref_destroy deref_upd_cases sr_arpreq_destroy_def [THEN arg_cong, of entries]
        split: if_splits)
  with sr' show ?thesis by blast
qed

section \<open>A round of the timer thread\<close>

text \<open>
  \<open>slept sr\<close>: every later reading of the clock is at least one second after every earlier one, which
  is what \<^verbatim>\<open>sleep(1.0)\<close> establishes at the start of a round. \<open>stamped sr\<close>: the time stamps of the
  requests are earlier readings of the clock.
\<close>

definition slept :: "sr_instance \<Rightarrow> bool" where
  "slept sr \<longleftrightarrow> (\<forall>j k. j < env_ticks sr \<longrightarrow> env_ticks sr \<le> k \<longrightarrow>
     fst (env_clock sr j) + 1 \<le> fst (env_clock sr k))"

definition stamped :: "sr_instance \<Rightarrow> bool" where
  "stamped sr \<longleftrightarrow> (\<forall>r \<in> set (requests (cache sr)). \<exists>j < env_ticks sr. rq_sent r = fst (env_clock sr j))"

definition next_try :: "sr_arpreq \<Rightarrow> sr_arpreq \<Rightarrow> bool" where
  "next_try r r' \<longleftrightarrow> rq_ip r' = rq_ip r \<and> rq_packets r' = rq_packets r \<and>
     rq_times_sent r' = rq_times_sent r + 1"

text \<open>The fate of a request that is due: gone after five transmissions, else one more transmission.\<close>

definition tried :: "sr_instance \<Rightarrow> sr_arpreq \<Rightarrow> sr_arpreq option \<Rightarrow> bool" where
  "tried sr r res \<longleftrightarrow>
     (if 5 \<le> rq_times_sent r then res = None
      else \<exists>r'. res = Some r' \<and> next_try r r' \<and> (\<exists>j < env_ticks sr. rq_sent r' = fst (env_clock sr j)))"

text \<open>The sweep handles each of the addresses once; all of them are due.\<close>

lemma sweep_loop_due:
  assumes "sr_wf sr" "distinct as"
    and "\<And>a. a \<in> set as \<Longrightarrow> \<exists>r. deref_req a (requests (cache sr)) = Some r \<and>
      (\<forall>k \<ge> env_ticks sr. rq_sent r + 1 \<le> fst (env_clock sr k))"
  shows "\<exists>sr'. sweep_loop sr as = Inr sr' \<and> sr_wf sr' \<and> same_config sr sr' \<and>
    env_ticks sr \<le> env_ticks sr' \<and>
    (\<forall>b. b \<notin> set as \<longrightarrow> deref_req b (requests (cache sr')) = deref_req b (requests (cache sr))) \<and>
    (\<forall>b \<in> set as. \<exists>r. deref_req b (requests (cache sr)) = Some r \<and>
       tried sr' r (deref_req b (requests (cache sr'))))"
  using assms
proof (induction as arbitrary: sr)
  case (Cons a as)
  let ?now = "fst (env_clock sr (env_ticks sr))"
  obtain r where r: "deref_req a (requests (cache sr)) = Some r"
    "\<forall>k \<ge> env_ticks sr. rq_sent r + 1 \<le> fst (env_clock sr k)"
    using Cons.prems(3) [of a] by auto
  from handle_arpreq_eq [OF Cons.prems(1) r(1)] obtain sr1 where
    h: "handle_arpreq sr a = Inr sr1" "sr_wf sr1" "same_config sr sr1" "env_ticks sr < env_ticks sr1"
    and d: "\<And>b. deref_req b (requests (cache sr1)) =
      (if b = a then arpreq_step ?now r else deref_req b (requests (cache sr)))"
    by blast
  have clk: "env_clock sr1 = env_clock sr" using h(3) by (simp add: same_config_def)
  have "\<exists>r. deref_req b (requests (cache sr1)) = Some r \<and>
      (\<forall>k \<ge> env_ticks sr1. rq_sent r + 1 \<le> fst (env_clock sr1 k))" if "b \<in> set as" for b
    using Cons.prems(2) Cons.prems(3) [of b] that h(4) by (auto simp: d clk)
  from Cons.IH [OF h(2) _ this] Cons.prems(2) obtain sr' where
    s: "sweep_loop sr1 as = Inr sr'" "sr_wf sr'" "same_config sr1 sr'" "env_ticks sr1 \<le> env_ticks sr'"
    and o: "\<And>b. b \<notin> set as \<Longrightarrow> deref_req b (requests (cache sr')) = deref_req b (requests (cache sr1))"
    and t: "\<And>b. b \<in> set as \<Longrightarrow> \<exists>r. deref_req b (requests (cache sr1)) = Some r \<and>
       tried sr' r (deref_req b (requests (cache sr')))"
    by auto
  have "\<not> ?now - rq_sent r < 1" using r(2) by (auto simp: not_less dest: spec [of _ "env_ticks sr"])
  moreover have "env_clock sr' = env_clock sr" using s(3) clk by (simp add: same_config_def)
  ultimately have ta: "tried sr' r (deref_req a (requests (cache sr')))"
    using Cons.prems(2) o [of a] s(4) h(4)
    by (auto simp: d tried_def arpreq_step_def next_try_def intro: exI [of _ "env_ticks sr"])
  have tb: "\<exists>r. deref_req b (requests (cache sr)) = Some r \<and> tried sr' r (deref_req b (requests (cache sr')))"
    if "b \<in> set as" for b
    using t [OF that] Cons.prems(2) that d [of b] by (cases "b = a") auto
  have "\<forall>b. b \<notin> set (a # as) \<longrightarrow> deref_req b (requests (cache sr')) = deref_req b (requests (cache sr))"
    using o by (simp add: d)
  then show ?case
    using h(1,4) s r(1) ta tb same_config_trans [OF h(3) s(3)] by auto
qed auto

lemma requests_expire [simp]: "requests (arpcache_expire t c) = requests c"
  by (simp add: arpcache_expire_def)

lemma timeout_round_due:
  assumes "sr_wf sr" "stamped sr" "slept sr"
  shows "\<exists>sr'. arpcache_timeout_round sr = Inr sr' \<and> sr_wf sr' \<and> stamped sr' \<and> same_config sr sr' \<and>
    (\<forall>b. case deref_req b (requests (cache sr)) of
       None \<Rightarrow> deref_req b (requests (cache sr')) = None
     | Some r \<Rightarrow> tried sr' r (deref_req b (requests (cache sr'))))"
proof -
  let ?sr1 = "sr\<lparr>env_ticks := Suc (env_ticks sr),
    cache := arpcache_expire (fst (env_clock sr (env_ticks sr))) (cache sr)\<rparr>"
  let ?rs = "requests (cache sr)"
  have rs: "requests (cache ?sr1) = ?rs" by (simp add: arpcache_expire_def)
  have wf1: "sr_wf ?sr1" using assms(1) by (simp add: sr_wf_def cache_ok_expire)
  have d: "distinct (map rq_addr ?rs)" using assms(1) by (simp add: sr_wf_def cache_ok_def arpcache_wf_def)
  have due: "\<exists>r. deref_req a ?rs = Some r \<and> (\<forall>k \<ge> env_ticks ?sr1. rq_sent r + 1 \<le> fst (env_clock ?sr1 k))"
    if "a \<in> set (map rq_addr ?rs)" for a
  proof -
    from that obtain r where r: "r \<in> set ?rs" "rq_addr r = a" by auto
    with assms(2) obtain j where "j < env_ticks sr" "rq_sent r = fst (env_clock sr j)"
      by (auto simp: stamped_def)
    with assms(3) have "\<forall>k \<ge> Suc (env_ticks sr). rq_sent r + 1 \<le> fst (env_clock sr k)"
      by (simp add: slept_def)
    with deref_unique [OF d r(1)] r(2) show ?thesis by auto
  qed
  obtain sr' where s: "sweep_loop ?sr1 (map rq_addr ?rs) = Inr sr'" "sr_wf sr'" "same_config ?sr1 sr'"
    and o: "\<And>b. b \<notin> set (map rq_addr ?rs) \<Longrightarrow> deref_req b (requests (cache sr')) = deref_req b ?rs"
    and t: "\<And>b. b \<in> set (map rq_addr ?rs) \<Longrightarrow> \<exists>r. deref_req b ?rs = Some r \<and>
       tried sr' r (deref_req b (requests (cache sr')))"
    using sweep_loop_due [OF wf1 d] due unfolding rs by blast
  have each: "case deref_req b ?rs of None \<Rightarrow> deref_req b (requests (cache sr')) = None
     | Some r \<Rightarrow> tried sr' r (deref_req b (requests (cache sr')))" for b
  proof (cases "b \<in> set (map rq_addr ?rs)")
    case False
    then have "deref_req b ?rs = None" by (auto simp: req_by_addr.search_None_iff)
    with o [OF False] show ?thesis by simp
  qed (use t [of b] in auto)
  have "\<exists>j < env_ticks sr'. rq_sent r' = fst (env_clock sr' j)" if "r' \<in> set (requests (cache sr'))" for r'
  proof -
    have "deref_req (rq_addr r') (requests (cache sr')) = Some r'"
      using deref_unique [OF _ that] s(2) by (simp add: sr_wf_def cache_ok_def arpcache_wf_def)
    with each [of "rq_addr r'"] show ?thesis
      by (auto simp: tried_def split: option.splits if_splits)
  qed
  then have "stamped sr'" by (simp add: stamped_def)
  with s each show ?thesis
    by (auto simp: arpcache_timeout_round_def time_now_eq sr_arpcache_sweepreqs_def)
qed

section \<open>Rounds of the timer without an answer\<close>

inductive sweeps :: "sr_instance \<Rightarrow> nat \<Rightarrow> sr_instance \<Rightarrow> bool" where
  sweeps_0: "sweeps sr 0 sr"
| sweeps_Suc: "sweeps sr n sr1 \<Longrightarrow> slept sr1 \<Longrightarrow> arpcache_timeout_round sr1 = Inr sr2 \<Longrightarrow>
    sweeps sr (Suc n) sr2"

inductive_cases sweeps_SucE: "sweeps sr (Suc n) sr2"

text \<open>What is left of a request after \<open>n\<close> rounds.\<close>

definition aged :: "nat \<Rightarrow> sr_arpreq \<Rightarrow> sr_arpreq option \<Rightarrow> bool" where
  "aged n r res \<longleftrightarrow>
     (if 5 < unat (rq_times_sent r) + n then res = None
      else \<exists>r'. res = Some r' \<and> rq_ip r' = rq_ip r \<and> rq_packets r' = rq_packets r \<and>
        unat (rq_times_sent r') = unat (rq_times_sent r) + n)"

lemma aged_0: "unat (rq_times_sent r) \<le> 5 \<Longrightarrow> aged 0 r (Some r)"
  by (simp add: aged_def)

lemma aged_None: "aged n r None \<Longrightarrow> aged (Suc n) r None"
  by (simp add: aged_def split: if_splits)

lemma aged_Suc:
  assumes "aged n r (Some r1)" "tried sr r1 res"
  shows "aged (Suc n) r res"
proof -
  have n: "unat (rq_times_sent r) + n \<le> 5" "rq_ip r1 = rq_ip r" "rq_packets r1 = rq_packets r"
    and t: "unat (rq_times_sent r1) = unat (rq_times_sent r) + n"
    using assms(1) by (auto simp: aged_def split: if_splits)
  show ?thesis
  proof (cases "5 \<le> rq_times_sent r1")
    case True
    with t have "5 \<le> unat (rq_times_sent r) + n" by (simp add: word_le_nat_alt)
    with True assms(2) show ?thesis by (simp add: aged_def tried_def)
  next
    case False
    with t have "unat (rq_times_sent r) + n < 5" by (simp add: word_le_nat_alt)
    moreover have "unat (rq_times_sent r1 + 1) = Suc (unat (rq_times_sent r1))"
      using False by (simp add: unat_word_ariths word_le_nat_alt)
    ultimately show ?thesis
      using False assms(2) n t by (auto simp: aged_def tried_def next_try_def)
  qed
qed

lemma sweeps_aged:
  assumes "sweeps sr n sr'" "sr_wf sr" "stamped sr"
  shows "sr_wf sr' \<and> stamped sr' \<and>
    (\<forall>b. case deref_req b (requests (cache sr)) of
       None \<Rightarrow> deref_req b (requests (cache sr')) = None
     | Some r \<Rightarrow> aged n r (deref_req b (requests (cache sr'))))"
  using assms
proof (induction rule: sweeps.induct)
  case (sweeps_0 sr)
  have "unat (rq_times_sent r) \<le> 5" if "deref_req b (requests (cache sr)) = Some r" for b r
    using that sweeps_0(1) req_by_addr.search_hit [of b "requests (cache sr)" r]
    by (auto simp: sr_wf_def cache_ok_def req_ok_def word_le_nat_alt)
  with sweeps_0 show ?case by (auto simp: aged_0 split: option.splits)
next
  case (sweeps_Suc sr n sr1 sr2)
  then have wf: "sr_wf sr1" "stamped sr1" by simp_all
  from timeout_round_due [OF this sweeps_Suc.hyps(2)] sweeps_Suc.hyps(3)
  have d: "sr_wf sr2" "stamped sr2" "\<And>b. case deref_req b (requests (cache sr1)) of
       None \<Rightarrow> deref_req b (requests (cache sr2)) = None
     | Some r \<Rightarrow> tried sr2 r (deref_req b (requests (cache sr2)))" by auto
  have "case deref_req b (requests (cache sr)) of
       None \<Rightarrow> deref_req b (requests (cache sr2)) = None
     | Some r \<Rightarrow> aged (Suc n) r (deref_req b (requests (cache sr2)))" for b
  proof -
    have "case deref_req b (requests (cache sr)) of
       None \<Rightarrow> deref_req b (requests (cache sr1)) = None
     | Some r \<Rightarrow> aged n r (deref_req b (requests (cache sr1)))"
      using sweeps_Suc.IH [OF sweeps_Suc.prems] by blast
    with d(3) [of b] show ?thesis
      by (auto intro: aged_Suc aged_None split: option.splits)
  qed
  with d show ?case by simp
qed

section \<open>Checksums of the messages\<close>

lemma cksum_store_verifies:
  assumes "even i" "i + 2 \<le> length p" "length p \<le> max_block" "msplice p i (enc16 0) = p"
  shows "ip_checksum (msplice p i (enc16 (cksum16 p))) (int (length p)) = Inr 0"
proof -
  obtain c where c: "ip_checksum p (int (length p)) = Inr c"
    "cksum p (int (length p)) = Inr (if c = 0 then 0xFFFF else c)"
    using cksum_value [of "int (length p)" p] assms(3) by auto
  then have "ip_checksum (msplice p i (enc16 0)) (int (length p)) = Inr c" by (simp add: assms(4))
  from store_verifies_iff [OF assms(1,2) order_refl assms(3) this] obtain S where
    S: "(S + unat c) mod 65535 = 0" "S + unat c \<noteq> 0" "S = 0 \<longrightarrow> c = 0xFFFF"
    and iff: "\<And>v. ip_checksum (msplice p i (enc16 v)) (int (length p)) = Inr 0 \<longleftrightarrow>
      S + unat v \<noteq> 0 \<and> (S + unat v) mod 65535 = 0" by metis
  show ?thesis
  proof (cases "c = 0")
    case True
    with S have "S mod 65535 = 0" by simp
    then have "(S + 65535) mod 65535 = 0" by (metis mod_add_self2)
    with True c(2) iff show ?thesis by (simp add: cksum16_def)
  next
    case False
    with c(2) iff S show ?thesis by (simp add: cksum16_def)
  qed
qed

lemma unreachable_body_checksums:
  assumes "length data = 28"
  shows "ip_checksum (take 20 (unreachable_body i dst data)) 20 = Inr 0"
    and "ip_checksum (drop 20 (unreachable_body i dst data)) 36 = Inr 0"
proof -
  let ?ip = "t3_ip_hdr (if_ip i) dst" and ?ic = "t3_icmp_hdr 3 1 data"
  have len: "length (enc_icmp_t3 ?ic) = 36" using assms by (simp add: t3_icmp_hdr_def)
  have "msplice (enc_ip ?ip) 10 (enc16 0) = enc_ip (?ip\<lparr>ip_sum := 0\<rparr>)"
    by (simp only: enc_ip_sum)
  also have "\<dots> = enc_ip ?ip" by (simp add: t3_ip_hdr_def)
  finally have 1: "ip_checksum (msplice (enc_ip ?ip) 10 (enc16 (cksum16 (enc_ip ?ip)))) 20 = Inr 0"
    using cksum_store_verifies [of 10 "enc_ip ?ip"] by simp
  have "msplice (enc_icmp_t3 ?ic) 2 (enc16 0) = enc_icmp_t3 (?ic\<lparr>t3_icmp_sum := 0\<rparr>)"
    by (simp only: enc_t3_sum)
  also have "\<dots> = enc_icmp_t3 ?ic" by (simp add: t3_icmp_hdr_def)
  finally have 2: "ip_checksum (msplice (enc_icmp_t3 ?ic) 2 (enc16 (cksum16 (enc_icmp_t3 ?ic)))) 36 = Inr 0"
    using cksum_store_verifies [of 2 "enc_icmp_t3 ?ic"] len by simp
  have "unreachable_body i dst data = msplice (enc_ip ?ip) 10 (enc16 (cksum16 (enc_ip ?ip))) @
      msplice (enc_icmp_t3 ?ic) 2 (enc16 (cksum16 (enc_icmp_t3 ?ic)))"
    by (simp add: unreachable_body_def Let_def enc_ip_sum enc_t3_sum)
  then show "ip_checksum (take 20 (unreachable_body i dst data)) 20 = Inr 0"
    "ip_checksum (drop 20 (unreachable_body i dst data)) 36 = Inr 0"
    using 1 2 by simp_all
qed

section \<open>Properties\<close>

text \<open>
  Claim C16: one call of \<^verbatim>\<open>handle_arpreq\<close>, in every case. Less than a second after the last
  transmission nothing happens. A due request with fewer than five transmissions is broadcast once
  more, on the interface of its newest packet, and counted. A due request with five transmissions
  is destroyed after a host-unreachable message for every waiting packet whose sender can be
  reached through a known neighbour. Other requests and the cache entries are untouched.
\<close>

theorem handle_arpreq_behaviour:
  assumes "sr_wf sr" and "deref_req a (requests (cache sr)) = Some r"
    and "now = fst (env_clock sr (env_ticks sr))"
  shows "\<exists>sr'. handle_arpreq sr a = Inr sr' \<and> entries (cache sr') = entries (cache sr) \<and>
    (\<forall>b. b \<noteq> a \<longrightarrow> deref_req b (requests (cache sr')) = deref_req b (requests (cache sr))) \<and>
    (if now - rq_sent r < 1
     then deref_req a (requests (cache sr')) = Some r \<and> wire sr' = wire sr
     else if rq_times_sent r < 5
     then deref_req a (requests (cache sr')) =
            Some (r\<lparr>rq_sent := now, rq_times_sent := rq_times_sent r + 1\<rparr>) \<and>
          (\<exists>i. sr_get_interface (if_list sr) (pk_iface (hd (rq_packets r))) = Some i \<and>
            wire sr' = wire sr @ [vns_frame (if_name i) (arp_request_frame i (rq_ip r))])
     else deref_req a (requests (cache sr')) = None \<and>
          wire sr' = wire sr @ unreachable_msgs sr (rq_packets r))"
proof -
  have "req_ok (if_list sr) r"
    using assms(1,2) req_by_addr.search_hit [of a "requests (cache sr)" r]
    by (auto simp: sr_wf_def cache_ok_def)
  then obtain i where "sr_get_interface (if_list sr) (pk_iface (hd (rq_packets r))) = Some i"
    by (cases "rq_packets r") (auto simp: req_ok_def queued_ok_def)
  moreover obtain sr' where "handle_arpreq sr a = Inr sr'" "entries (cache sr') = entries (cache sr)"
    "wire sr' = wire sr @ arpreq_msgs sr now r"
    "\<And>b. deref_req b (requests (cache sr')) =
      (if b = a then arpreq_step now r else deref_req b (requests (cache sr)))"
    using handle_arpreq_eq [OF assms(1,2)] unfolding assms(3) by blast
  moreover have "rq_times_sent r < 5 \<longleftrightarrow> \<not> 5 \<le> rq_times_sent r" by (simp add: not_le)
  ultimately show ?thesis
    by (intro exI [of _ sr']) (simp add: arpreq_step_def arpreq_msgs_def retry_msg_def)
qed

text \<open>
  Claim C15: unanswered requests are given up. Over rounds of the timer thread that are at least one
  second apart, every outstanding request keeps its address and packets and gains one transmission
  per round until it has five; the next round destroys it. No round creates a request, so after six
  rounds the queue is empty.
\<close>

theorem unanswered_requests_given_up:
  assumes "sweeps sr n sr'" and "sr_wf sr" and "stamped sr"
  shows "(\<forall>b. case deref_req b (requests (cache sr)) of
       None \<Rightarrow> deref_req b (requests (cache sr')) = None
     | Some r \<Rightarrow>
         if 5 < unat (rq_times_sent r) + n then deref_req b (requests (cache sr')) = None
         else \<exists>r'. deref_req b (requests (cache sr')) = Some r' \<and> rq_ip r' = rq_ip r \<and>
           rq_packets r' = rq_packets r \<and> unat (rq_times_sent r') = unat (rq_times_sent r) + n) \<and>
    (6 \<le> n \<longrightarrow> requests (cache sr') = [])"
proof -
  note s = sweeps_aged [OF assms]
  have "requests (cache sr') = []" if "6 \<le> n"
  proof (rule ccontr)
    assume "requests (cache sr') \<noteq> []"
    then obtain r' where r': "r' \<in> set (requests (cache sr'))" by (cases "requests (cache sr')") auto
    then have "deref_req (rq_addr r') (requests (cache sr')) = Some r'"
      using s deref_unique by (auto simp: sr_wf_def cache_ok_def arpcache_wf_def)
    with s that show False
      by (auto simp: aged_def split: option.splits if_splits dest!: spec [of _ "rq_addr r'"])
  qed
  with s show ?thesis unfolding aged_def by blast
qed

text \<open>
  Claim C27: the host-unreachable messages carry correct checksums. Every frame that
  \<^verbatim>\<open>send_icmp_host_unreachable\<close> builds has an IP header and an ICMP message that verify.
\<close>

theorem host_unreachable_checksums_verify:
  assumes "queued_ok (if_list sr) p" and "unreachable_for sr p = Some (out, frame)"
  shows "host_unreachable_one sr p = Inr (transmit sr frame (if_name out)) \<and>
    ip_checksum (take 20 (drop 14 frame)) 20 = Inr 0 \<and> ip_checksum (drop 34 frame) 36 = Inr 0"
proof -
  have len: "length (mslice (pk_buf p) 14 28) = 28" using assms(1) by (simp add: queued_ok_def)
  obtain m i src where f: "frame = enc_eth (ip_eth m out) @ unreachable_body i src (mslice (pk_buf p) 14 28)"
    using assms(2) by (auto simp: unreachable_for_def Let_def split: option.splits)
  then have "drop 34 frame = drop 20 (unreachable_body i src (mslice (pk_buf p) 14 28))" by simp
  with f host_unreachable_one_eq [OF assms(1)] assms(2) unreachable_body_checksums [OF len]
  show ?thesis by simp
qed

section \<open>Examples\<close>

text \<open>The example router with one packet waiting for an unknown neighbour.\<close>

definition ex_wait :: sr_instance where
  "ex_wait = await ex_sr ex_if2 ex_unknown (ip_frame ex_eth_hdr (ex_ip_hdr ex_host ex_unknown) ex_pl)"

lemma ex_wait_wf: "sr_wf ex_wait" "env_clock ex_wait = (\<lambda>k. (int k, 0))"
  using await_wf [OF ex_sr_wf, of "ip_frame ex_eth_hdr (ex_ip_hdr ex_host ex_unknown) ex_pl" ex_if2]
  by (simp_all add: ex_wait_def same_config_def fun_eq_iff)

lemma ex_wait_state:
  "requests (cache ex_wait) = [\<lparr>rq_addr = 0, rq_ip = ex_unknown, rq_sent = 0, rq_times_sent = 1,
     rq_packets = [parked ex_if2 (ip_frame ex_eth_hdr (ex_ip_hdr ex_host ex_unknown) ex_pl)]\<rparr>]"
  "env_ticks ex_wait = 1"
proof -
  have "next_addr (cache ex_sr) = 0"
    by (simp add: ex_sr_def sr_arpcache_insert_def ex_cache_def sr_arpcache_init_def Let_def)
  then show "requests (cache ex_wait) = [\<lparr>rq_addr = 0, rq_ip = ex_unknown, rq_sent = 0, rq_times_sent = 1,
     rq_packets = [parked ex_if2 (ip_frame ex_eth_hdr (ex_ip_hdr ex_host ex_unknown) ex_pl)]\<rparr>]"
    "env_ticks ex_wait = 1"
    by (simp_all add: ex_wait_def await_def get_or_alloc_req_def time_now_eq Let_def transmit_def
        log_frame_no_log upd_req_def)
qed

lemma ex_stamped: "stamped ex_wait"
  by (simp add: stamped_def ex_wait_state ex_wait_wf)

lemma ticking_sweeps:
  assumes "sr_wf sr" "stamped sr" "env_clock sr = (\<lambda>k. (int k, 0))"
  shows "\<exists>sr'. sweeps sr n sr' \<and> env_clock sr' = (\<lambda>k. (int k, 0))"
proof (induction n)
  case 0
  then show ?case using assms(3) sweeps_0 by blast
next
  case (Suc n)
  then obtain sr1 where s: "sweeps sr n sr1" "env_clock sr1 = (\<lambda>k. (int k, 0))" by blast
  have "slept sr1" by (simp add: slept_def s(2))
  moreover obtain sr2 where "arpcache_timeout_round sr1 = Inr sr2" "same_config sr1 sr2"
    using timeout_round_due [of sr1] sweeps_aged [OF s(1) assms(1,2)] calculation by blast
  ultimately show ?case using s sweeps_Suc [of sr n sr1 sr2] by (auto simp: same_config_def)
qed

theorem handle_arpreq_behaviour_witness:
  "\<exists>sr'. handle_arpreq ex_wait 0 = Inr sr' \<and>
     wire sr' = wire ex_wait @ [vns_frame ''eth2'' (arp_request_frame ex_if2 ex_unknown)] \<and>
     map_option rq_times_sent (deref_req 0 (requests (cache sr'))) = Some 2"
proof -
  have "if_list ex_wait = [ex_if1, ex_if2]"
    using await_wf [OF ex_sr_wf, of "ip_frame ex_eth_hdr (ex_ip_hdr ex_host ex_unknown) ex_pl" ex_if2]
    by (simp add: ex_wait_def same_config_def)
  then show ?thesis
    using handle_arpreq_behaviour [OF ex_wait_wf(1), of 0 _ 1]
    by (auto simp: ex_wait_state ex_wait_wf(2) parked_def strncpy_def)
qed

theorem unanswered_requests_given_up_witness:
  "\<exists>sr'. sweeps ex_wait 6 sr' \<and> requests (cache ex_wait) \<noteq> [] \<and> requests (cache sr') = []"
proof -
  obtain sr' where s: "sweeps ex_wait 6 sr'"
    using ticking_sweeps [OF ex_wait_wf(1) ex_stamped ex_wait_wf(2)] by blast
  with unanswered_requests_given_up [OF s ex_wait_wf(1) ex_stamped] show ?thesis
    by (auto simp: ex_wait_state)
qed

theorem host_unreachable_checksums_verify_witness:
  "\<exists>frame. unreachable_for ex_sr (parked ex_if1 (ip_frame ex_eth_hdr (ex_ip_hdr ex_known ex_host) ex_pl)) =
      Some (ex_if2, frame) \<and> ip_checksum (drop 34 frame) 36 = Inr 0"
proof -
  let ?p = "parked ex_if1 (ip_frame ex_eth_hdr (ex_ip_hdr ex_known ex_host) ex_pl)"
  have "\<exists>frame. unreachable_for ex_sr ?p = Some (ex_if2, frame)"
    by (simp add: unreachable_for_def parked_def ip_frame_def mslice_def Let_def route_to_def ex_routes
        ex_hops next_hop_def ex_lookup)
  moreover have "queued_ok (if_list ex_sr) ?p"
    by (simp add: queued_ok_def parked_def)
  ultimately show ?thesis
    using host_unreachable_checksums_verify [of ex_sr ?p ex_if2] by auto
qed

end
