(* ===== verification/WireSafety.thy ===== *)
theory WireSafety
  imports ArpRetry
begin

text \<open>
  What the router puts on the wire: every handler only appends messages to the wire, and each of them
  is a complete VNS packet message for an existing interface whose Ethernet source is the address of
  that interface.
\<close>

section \<open>Well-formed messages\<close>

definition sent_ok :: "sr_if list \<Rightarrow> byte list \<Rightarrow> bool" where
  "sent_ok ifs msg \<longleftrightarrow> (\<exists>n i e body. sr_get_interface ifs n = Some i \<and> ether_shost e = if_addr i \<and>
     14 + length body \<le> max_frame \<and> msg = vns_frame n (enc_eth e @ body))"

definition emits :: "sr_instance \<Rightarrow> sr_instance \<Rightarrow> bool" where
  "emits sr sr' \<longleftrightarrow> if_list sr' = if_list sr \<and>
     (\<exists>ms. wire sr' = wire sr @ ms \<and> list_all (sent_ok (if_list sr)) ms)"

lemma emits_refl [simp]: "emits sr sr"
  by (simp add: emits_def)

lemma emits_trans [trans]: "emits a b \<Longrightarrow> emits b c \<Longrightarrow> emits a c"
  by (auto simp: emits_def)

lemma emits_upd [simp]:
  "emits sr (sr'\<lparr>cache := c\<rparr>) = emits sr sr'" "emits sr (sr'\<lparr>env_ticks := n\<rparr>) = emits sr sr'"
  "emits (sr\<lparr>cache := c\<rparr>) sr' = emits sr sr'" "emits (sr\<lparr>env_ticks := n\<rparr>) sr' = emits sr sr'"
  by (simp_all add: emits_def)

lemma emits_send:
  assumes "sr_send_packet sr buf len n = Inr (r, sr')" "len \<le> max_frame"
  shows "emits sr sr'"
proof (cases "14 \<le> len \<and> len \<le> length buf")
  case True
  show ?thesis
  proof (cases "\<exists>i. sr_get_interface (if_list sr) n = Some i \<and> ether_shost (dec_eth (take 14 buf)) = if_addr i")
    case ok: True
    then obtain i where i: "sr_get_interface (if_list sr) n = Some i"
      "ether_shost (dec_eth (take 14 buf)) = if_addr i" by blast
    then have sr': "sr' = transmit sr (take len buf) n"
      using sr_send_packet_ok [of len buf sr n i] True assms by auto
    have "take len buf = enc_eth (dec_eth (take 14 buf)) @ drop 14 (take len buf)"
      using True take_drop_chain [of 14 "take len buf" 0] by (simp add: eth.enc_dec min_absorb1)
    then have "sent_ok (if_list sr) (vns_frame n (take len buf))"
      unfolding sent_ok_def using True assms(2) i
      by (intro exI [of _ n] exI [of _ i] exI [of _ "dec_eth (take 14 buf)"]
          exI [of _ "drop 14 (take len buf)"]) simp
    then show ?thesis by (simp add: sr' emits_def)
  next
    case False
    then have "sr' = log_frame sr (take len buf)"
      using sr_send_packet_rejected [of len buf sr n] True assms(1) by auto
    then show ?thesis by (simp add: emits_def)
  qed
next
  case False
  then show ?thesis using assms(1) by (auto simp: sr_send_packet_def Let_def rbind_eq_Inr split: if_splits)
qed

definition emitting :: "sr_instance \<Rightarrow> sr_instance res \<Rightarrow> bool" where
  "emitting sr m \<longleftrightarrow> (\<forall>sr'. m = Inr sr' \<longrightarrow> emits sr sr')"

lemma emitting_simps [simp]: "emitting sr (Inl e)" "emitting sr (Inr sr') = emits sr sr'"
  by (simp_all add: emitting_def)

lemma emitting_bind:
  "(\<And>x. m = Inr x \<Longrightarrow> emitting sr (f x)) \<Longrightarrow> emitting sr (rbind m f)"
  by (auto simp: emitting_def rbind_eq_Inr)

lemma emitting_seq:
  "emitting sr m \<Longrightarrow> (\<And>sr1. m = Inr sr1 \<Longrightarrow> emitting sr1 (f sr1)) \<Longrightarrow> emitting sr (rbind m f)"
  by (auto simp: emitting_def rbind_eq_Inr intro: emits_trans)

lemma emitting_send [simp]:
  "len \<le> max_frame \<Longrightarrow> emitting sr (rbind (sr_send_packet sr buf len n) (\<lambda>(_, sr'). Inr sr'))"
  by (rule emitting_bind) (auto intro: emits_send)

section \<open>The handlers\<close>

lemma emitting_arp_request [simp]: "emitting sr (send_arp_request sr tip n)"
  by (auto simp: send_arp_request_def split: option.split)

lemma emitting_request_if_new: "emitting sr (request_if_new sr a nh n)"
  by (auto simp: request_if_new_def time_now_eq split: option.split intro!: emitting_seq)

lemma emitting_request_upd [simp]: "emitting sr (request_if_new (sr\<lparr>cache := c\<rparr>) a nh n)"
  using emitting_request_if_new [of "sr\<lparr>cache := c\<rparr>"] by (auto simp: emitting_def)

lemma emitting_icmp_t3 [simp]: "emitting sr (send_icmp_t3 sr packet len ty co)"
  unfolding send_icmp_t3_def Let_def
  by (rule emitting_bind, auto split: option.split intro!: emitting_bind)

lemma emitting_echo [simp]: "len \<le> max_frame \<Longrightarrow> emitting sr (send_icmp_echo_reply sr packet len n)"
  unfolding send_icmp_echo_reply_def Let_def
  by (auto split: option.split intro!: emitting_bind) (blast intro: emits_send)+

lemma emitting_forward [simp]: "len \<le> max_frame \<Longrightarrow> emitting sr (forward_ip_packet sr packet len)"
  unfolding forward_ip_packet_def Let_def
  by (rule emitting_bind, auto split: option.split intro!: emitting_bind) (blast intro: emits_send)+

lemma emitting_ip [simp]: "len \<le> max_frame \<Longrightarrow> emitting sr (handle_ip_packet sr packet len n)"
  unfolding handle_ip_packet_def by (auto split: option.split intro!: emitting_bind)

lemma emitting_waiting:
  "list_all (queued_ok ifs) ps \<Longrightarrow> emitting sr (send_waiting sr m ps)"
proof (induction ps arbitrary: sr)
  case (Cons p ps)
  have "emitting sr (send_waiting sr1 m ps)" if "sr_send_packet sr buf (pk_len p) (pk_iface p) = Inr (r, sr1)"
    for buf r sr1
  proof -
    have "emits sr sr1" using that Cons.prems by (auto intro: emits_send simp: queued_ok_def)
    with Cons show ?thesis by (auto simp: emitting_def intro: emits_trans)
  qed
  then show ?case by (auto split: option.split intro!: emitting_bind)
qed simp

lemma emitting_arp_reply [simp]: "emitting sr (send_arp_reply sr packet len n)"
  unfolding send_arp_reply_def by (auto split: option.split intro!: emitting_bind)

lemma emitting_arp [simp]:
  assumes "sr_wf sr"
  shows "emitting sr (handle_arp_packet sr packet len n)"
proof -
  have "emits sr sr1 \<and> (\<forall>r sr'. req = Some r \<longrightarrow> send_waiting sr1 ha (rq_packets r) = Inr sr' \<longrightarrow> emits sr sr')"
    if ins: "arpcache_insert_now sr ha ip = (req, sr1)" for ha ip req sr1
  proof -
    obtain c k where i: "sr_arpcache_insert (cache sr) ha ip (fst (env_clock sr (env_ticks sr))) = (req, c)"
      and sr1: "sr1 = sr\<lparr>env_ticks := k, cache := c\<rparr>"
      using insert_now_cases [of sr ha ip] ins by (metis Pair_inject)
    then show ?thesis
      using emitting_waiting [of "if_list sr" _ sr1 ha] cache_ok_insert [OF _ i, of "if_list sr"] assms
      by (auto simp: sr_wf_def req_ok_def emitting_def)
  qed
  then show ?thesis
    unfolding handle_arp_packet_def Let_def
    by (auto split: option.split prod.split intro!: emitting_bind)
qed

lemma emitting_handlepacket:
  "sr_wf sr \<Longrightarrow> len \<le> max_frame \<Longrightarrow> emitting sr (sr_handlepacket sr packet len n)"
  unfolding sr_handlepacket_def Let_def by (auto intro!: emitting_bind)

section \<open>The timer\<close>

lemma emitting_for_req [simp]: "emitting sr (send_arp_request_for_req sr r)"
  unfolding send_arp_request_for_req_def
  by (auto split: option.split list.split)

lemma emitting_unreachable_one: "emitting sr (host_unreachable_one sr p)"
  unfolding host_unreachable_one_def Let_def
  by (auto split: option.split intro!: emitting_bind)

lemma emitting_unreachable: "emitting sr (host_unreachable_loop sr ps)"
  by (induction ps arbitrary: sr) (auto intro!: emitting_seq emitting_unreachable_one)

lemma emitting_arpreq: "emitting sr (handle_arpreq sr a)"
proof -
  let ?sr1 = "sr\<lparr>env_ticks := Suc (env_ticks sr)\<rparr>"
  have "emitting ?sr1 (rbind (send_icmp_host_unreachable ?sr1 r) (\<lambda>s. Inr (s\<lparr>cache := f s\<rparr>)))"
    "emitting ?sr1 (rbind (send_arp_request_for_req ?sr1 r) (\<lambda>s. Inr (s\<lparr>cache := f s\<rparr>)))" for r f
    unfolding send_icmp_host_unreachable_def
    by (rule emitting_seq; simp add: emitting_unreachable emitting_for_req)+
  then show ?thesis
    unfolding handle_arpreq_def time_now_eq
    by (auto simp: emitting_def split: option.split)
qed

lemma emitting_sweep: "emitting sr (sweep_loop sr as)"
  by (induction as arbitrary: sr) (auto intro!: emitting_seq emitting_arpreq)

lemma emitting_round: "emitting sr (arpcache_timeout_round sr)"
  unfolding arpcache_timeout_round_def time_now_eq sr_arpcache_sweepreqs_def
  using emitting_sweep [of "sr\<lparr>env_ticks := _, cache := _\<rparr>"] by (auto simp: emitting_def)

end
