(* ===== verification/System.thy ===== *)
theory System
  imports WireSafety
begin

text \<open>
  The running router as a state machine. After \<^verbatim>\<open>sr_init\<close>, the main loop hands received frames to
  \<^verbatim>\<open>sr_handlepacket\<close> and the timer thread runs its rounds; the two are interleaved at the granularity
  of whole handlers. Every reachable state is well-formed, every event can be processed in it
  without a fault, and everything on the wire is a well-formed message with a legitimate source
  address.
\<close>

section \<open>Steps\<close>

text \<open>
  Frames that the VNS client delivers: complete, within the protocol's limit, on an existing
  interface, long enough for the unchecked 28-byte copy, and with a header length that fits.
\<close>

definition deliverable :: "sr_instance \<Rightarrow> byte list \<Rightarrow> string \<Rightarrow> bool" where
  "deliverable sr packet interface \<longleftrightarrow> 42 \<le> length packet \<and> length packet \<le> max_frame \<and>
     14 + 4 * unat (ip_hl (dec_ip (mslice packet 14 20))) \<le> length packet \<and>
     sr_get_interface (if_list sr) interface \<noteq> None"

datatype event = Packet "byte list" string | Timer

fun handle_event :: "sr_instance \<Rightarrow> event \<Rightarrow> sr_instance res" where
  "handle_event sr (Packet packet interface) = sr_handlepacket sr packet (length packet) interface"
| "handle_event sr Timer = arpcache_timeout_round sr"

fun admissible :: "sr_instance \<Rightarrow> event \<Rightarrow> bool" where
  "admissible sr (Packet packet interface) = deliverable sr packet interface"
| "admissible sr Timer = True"

inductive router_step :: "sr_instance \<Rightarrow> event \<Rightarrow> sr_instance \<Rightarrow> bool" where
  router_step: "admissible sr ev \<Longrightarrow> handle_event sr ev = Inr sr' \<Longrightarrow> router_step sr ev sr'"

inductive_simps router_step_simps: "router_step sr ev sr'"
inductive_cases router_stepE: "router_step sr ev sr'"

inductive reachable :: "sr_instance \<Rightarrow> sr_instance \<Rightarrow> bool" for sr0 where
  reach_init: "reachable sr0 (sr_init sr0)"
| reach_step: "reachable sr0 sr \<Longrightarrow> router_step sr ev sr' \<Longrightarrow> reachable sr0 sr'"

section \<open>Invariants\<close>

lemma keepsD: "keeps sr m \<Longrightarrow> \<exists>sr'. m = Inr sr' \<and> sr_wf sr' \<and> same_config sr sr'"
  by (auto simp: keeps_def rpost_iff)

lemma event_keeps:
  assumes "sr_wf sr" "admissible sr ev"
  shows "keeps sr (handle_event sr ev)"
proof (cases ev)
  case (Packet packet interface)
  with assms(2) obtain i where "sr_get_interface (if_list sr) interface = Some i"
    by (auto simp: deliverable_def)
  with Packet assms show ?thesis
    by (simp add: deliverable_def sr_handlepacket_def Let_def handle_arp_packet_safe
        handle_ip_packet_safe)
qed (use assms timeout_round_safe in simp)

lemma event_emits:
  assumes "sr_wf sr" "admissible sr ev" "handle_event sr ev = Inr sr'"
  shows "emits sr sr'"
  using assms emitting_handlepacket emitting_round
  by (cases ev) (auto simp: emitting_def deliverable_def)

definition wire_ok :: "sr_instance \<Rightarrow> bool" where
  "wire_ok sr \<longleftrightarrow> list_all (sent_ok (if_list sr)) (wire sr)"

lemma reachable_inv:
  assumes "reachable sr0 sr" "wire sr0 = []"
  shows "sr_wf sr \<and> same_config sr0 sr \<and> wire_ok sr"
  using assms
proof (induction rule: reachable.induct)
  case reach_init
  then show ?case
    by (simp add: sr_init_def sr_wf_def cache_ok_init wire_ok_def)
next
  case (reach_step sr ev sr')
  then have wf: "sr_wf sr" "wire_ok sr" "same_config sr0 sr"
    and ev: "admissible sr ev" "handle_event sr ev = Inr sr'"
    by (auto elim: router_stepE)
  have "sr_wf sr'" "same_config sr sr'"
    using keepsD [OF event_keeps [OF wf(1) ev(1)]] ev(2) by auto
  moreover have "wire_ok sr'"
    using event_emits [OF wf(1) ev] wf(2) by (auto simp: emits_def wire_ok_def)
  ultimately show ?case using wf(3) same_config_trans by blast
qed

section \<open>Properties\<close>

text \<open>
  In every state that the router reaches from its initialisation through any sequence of
  frames and timer rounds, the invariant holds (unique requests with at least one packet and at most
  five transmissions, complete queued frames for existing interfaces), interfaces and routes are the
  configured ones, and every message ever written is a VNS packet message for an existing interface
  whose Ethernet source address is the address of that interface.
\<close>

theorem reachable_invariant:
  assumes "reachable sr0 sr" and "wire sr0 = []"
  shows "sr_wf sr \<and> if_list sr = if_list sr0 \<and> routing_table sr = routing_table sr0 \<and>
    (\<forall>msg \<in> set (wire sr). \<exists>n i e body. sr_get_interface (if_list sr) n = Some i \<and>
       ether_shost e = if_addr i \<and> msg = vns_frame n (enc_eth e @ body))"
  using reachable_inv [OF assms]
  by (auto simp: same_config_def wire_ok_def sent_ok_def list_all_iff) blast

text \<open>
  The router never gets stuck. In every reachable state every deliverable frame and every
  timer round is processed to a next state; no event of the running system ends in a memory fault.
\<close>

theorem reachable_progress:
  assumes "reachable sr0 sr" and "wire sr0 = []" and "admissible sr ev"
  shows "\<exists>sr'. router_step sr ev sr' \<and> reachable sr0 sr'"
proof -
  have "sr_wf sr" using reachable_inv [OF assms(1,2)] by simp
  then obtain sr' where "handle_event sr ev = Inr sr'"
    using keepsD [OF event_keeps [OF _ assms(3)]] by blast
  with assms(1,3) have "router_step sr ev sr'" by (simp add: router_step)
  with assms(1) show ?thesis by (blast intro: reach_step)
qed

text \<open>
  The log of the wire only grows. A step appends messages and never rewrites earlier ones,
  so along every run the sequence written so far is a prefix of the later ones.
\<close>

theorem steps_extend_wire:
  assumes "sr_wf sr" and "router_step sr ev sr'"
  shows "\<exists>ms. wire sr' = wire sr @ ms \<and> list_all (sent_ok (if_list sr)) ms"
  using assms event_emits by (auto simp: router_step_simps emits_def)

section \<open>Interleaving inside a handler\<close>

text \<open>
  The lock of the ARP cache does not cover the use of the request that
  \<^verbatim>\<open>sr_arpcache_queuereq\<close> returns. When the packet path queues a frame on a request that has been
  sent five times and the timer thread handles that request before the packet path looks at
  \<^verbatim>\<open>req->times_sent\<close>, the request has been freed and the access is a use after free.
\<close>

theorem queued_request_race:
  assumes "sr_wf sr" and "find_req nh (requests (cache sr)) = Some r" and "5 \<le> rq_times_sent r"
    and "fst (env_clock sr (env_ticks sr)) - rq_sent r \<ge> 1"
    and "42 \<le> length frame" and "length frame \<le> max_frame"
    and "sr_get_interface (if_list sr) n = Some i"
  shows "\<exists>req c' sr'. sr_arpcache_queuereq (cache sr) nh frame (length frame) n = Inr (req, c') \<and>
    handle_arpreq (sr\<lparr>cache := c'\<rparr>) req = Inr sr' \<and> request_if_new sr' req nh n = Inl UseAfterFree"
proof -
  let ?p = "\<lparr>pk_buf = frame, pk_len = length frame, pk_iface = strncpy n 32\<rparr>"
  let ?f = "\<lambda>r. r\<lparr>rq_packets := ?p # rq_packets r\<rparr>"
  let ?c = "upd_req (rq_addr r) ?f (cache sr)"
  have q: "sr_arpcache_queuereq (cache sr) nh frame (length frame) n = Inr (rq_addr r, ?c)"
    using assms(2,5) by (subst queuereq_eq) (auto simp: get_or_alloc_req_def)
  have wf: "sr_wf (sr\<lparr>cache := ?c\<rparr>)"
    using cache_ok_queue [of "if_list sr" "cache sr" "length frame" frame n nh] assms q
    by (auto simp: sr_wf_def)
  have "r \<in> set (requests (cache sr))" using assms(2) req_by_ip.search_hit by blast
  then have "deref_req (rq_addr r) (requests (cache sr)) = Some r"
    using assms(1) by (intro deref_unique) (simp_all add: sr_wf_def cache_ok_def arpcache_wf_def)
  then have d: "deref_req (rq_addr r) (requests (cache (sr\<lparr>cache := ?c\<rparr>))) = Some (?f r)"
    by (simp add: deref_upd_req)
  from handle_arpreq_eq [OF wf d] obtain sr' where
    "handle_arpreq (sr\<lparr>cache := ?c\<rparr>) (rq_addr r) = Inr sr'"
    "deref_req (rq_addr r) (requests (cache sr')) =
      arpreq_step (fst (env_clock sr (env_ticks sr))) (?f r)" by auto
  moreover from this(2) have "request_if_new sr' (rq_addr r) nh n = Inl UseAfterFree"
    using assms(3,4) by (simp add: arpreq_step_def request_if_new_def)
  ultimately show ?thesis using q by blast
qed

section \<open>Examples\<close>

text \<open>The waiting router after its request has been sent five times.\<close>

definition ex_last_try :: sr_instance where
  "ex_last_try = ex_wait\<lparr>cache := upd_req 0 (\<lambda>r. r\<lparr>rq_times_sent := 5\<rparr>) (cache ex_wait)\<rparr>"

lemma ex_last_try_state:
  "sr_wf ex_last_try" "if_list ex_last_try = [ex_if1, ex_if2]" "routing_table ex_last_try = [ex_rt1, ex_rt2]"
  "entries (cache ex_last_try) = entries (cache ex_sr)" "env_ticks ex_last_try = 1"
  "env_clock ex_last_try = (\<lambda>k. (int k, 0))"
  "find_req ex_unknown (requests (cache ex_last_try)) = Some \<lparr>rq_addr = 0, rq_ip = ex_unknown,
     rq_sent = 0, rq_times_sent = 5,
     rq_packets = [parked ex_if2 (ip_frame ex_eth_hdr (ex_ip_hdr ex_host ex_unknown) ex_pl)]\<rparr>"
proof -
  have c: "same_config ex_sr ex_wait"
    using await_wf [OF ex_sr_wf, of "ip_frame ex_eth_hdr (ex_ip_hdr ex_host ex_unknown) ex_pl" ex_if2]
    by (simp add: ex_wait_def)
  then show "if_list ex_last_try = [ex_if1, ex_if2]" "routing_table ex_last_try = [ex_rt1, ex_rt2]"
    by (simp_all add: ex_last_try_def same_config_def)
  show "sr_wf ex_last_try"
    using ex_wait_wf(1) unfolding ex_last_try_def sr_wf_def
    by (simp, intro cache_ok_upd) (simp_all add: req_ok_def)
  show "entries (cache ex_last_try) = entries (cache ex_sr)"
    using await_spec(4) [OF ex_arp_wf, where out = ex_if2 and nh = ex_unknown]
    by (simp add: ex_last_try_def upd_req_def ex_wait_def)
qed (simp_all add: ex_last_try_def upd_req_def ex_wait_state ex_wait_wf(2))

theorem queued_request_race_witness:
  "\<exists>req c' sr'. sr_arpcache_queuereq (cache ex_last_try) ex_unknown (replicate 42 0) 42 ''eth2'' =
      Inr (req, c') \<and>
    handle_arpreq (ex_last_try\<lparr>cache := c'\<rparr>) req = Inr sr' \<and>
    request_if_new sr' req ex_unknown ''eth2'' = Inl UseAfterFree"
  using queued_request_race [OF ex_last_try_state(1,7), of "replicate 42 0" "''eth2''" ex_if2]
  by (simp add: ex_last_try_state)

lemma ex_reach: "reachable ex_sr (sr_init ex_sr)"
  by (rule reach_init)

theorem reachable_progress_witness:
  "\<exists>sr'. router_step (sr_init ex_sr) Timer sr' \<and> reachable ex_sr sr'"
  by (rule reachable_progress [OF ex_reach]) simp_all

theorem reachable_invariant_witness:
  "reachable ex_sr (sr_init ex_sr) \<and> sr_wf (sr_init ex_sr)"
  using reachable_invariant [OF ex_reach] ex_reach by simp

theorem steps_extend_wire_witness:
  "\<exists>sr' ms. router_step ex_wait Timer sr' \<and> wire sr' = wire ex_wait @ ms"
proof -
  obtain sr' where "handle_event ex_wait Timer = Inr sr'"
    using keepsD [OF event_keeps [OF ex_wait_wf(1), of Timer]] by auto
  then have "router_step ex_wait Timer sr'" by (simp add: router_step)
  with steps_extend_wire [OF ex_wait_wf(1) this] show ?thesis by blast
qed

end
