(* ===== verification/Sha1.thy ===== *)
theory Sha1
  imports Prelude
begin

text \<open>
  The SHA-1 implementation of \<^verbatim>\<open>sha1.c\<close>, which the VNS client uses to authenticate: the context, the
  incremental input, the compression of a block and the padding. A reference definition in the
  style of FIPS 180-1 (pad the whole message, split it into blocks, fold the compression function
  over them) follows, and the incremental code is shown to compute it, for every way of cutting the
  message into pieces.
\<close>

section \<open>The code\<close>

record SHA1Context =
  Message_Digest :: "u32 list"
  Length_Low :: u32
  Length_High :: u32
  Message_Block :: "byte list"
  Message_Block_Index :: nat
  Computed :: bool
  Corrupted :: bool

definition SHA1CircularShift :: "nat \<Rightarrow> u32 \<Rightarrow> u32" where
  "SHA1CircularShift bits w = (push_bit bits w AND 0xFFFFFFFF) OR drop_bit (32 - bits) w"

definition SHA1Reset :: "SHA1Context \<Rightarrow> SHA1Context" where
  "SHA1Reset ctx = ctx\<lparr>Length_Low := 0, Length_High := 0, Message_Block_Index := 0,
     Message_Digest := [0x67452301, 0xEFCDAB89, 0x98BADCFE, 0x10325476, 0xC3D2E1F0],
     Computed := False, Corrupted := False\<rparr>"

text \<open>The word sequence \<open>W\<close>: sixteen words of the block, extended to eighty.\<close>

definition block_word :: "byte list \<Rightarrow> nat \<Rightarrow> u32" where
  "block_word blk t = push_bit 24 (ucast (blk ! (t * 4))) OR push_bit 16 (ucast (blk ! (t * 4 + 1))) OR
     push_bit 8 (ucast (blk ! (t * 4 + 2))) OR ucast (blk ! (t * 4 + 3))"

definition extend_words :: "u32 list \<Rightarrow> nat \<Rightarrow> u32 list" where
  "extend_words W t =
     W @ [SHA1CircularShift 1 (W ! (t - 3) XOR W ! (t - 8) XOR W ! (t - 14) XOR W ! (t - 16))]"

definition word_sequence :: "byte list \<Rightarrow> u32 list" where
  "word_sequence blk = foldl extend_words (map (block_word blk) [0..<16]) [16..<80]"

text \<open>The four loops over the word buffers \<open>A\<close> to \<open>E\<close> differ in their function and constant.\<close>

type_synonym buffers = "u32 \<times> u32 \<times> u32 \<times> u32 \<times> u32"

fun round_with :: "(u32 \<Rightarrow> u32 \<Rightarrow> u32 \<Rightarrow> u32) \<Rightarrow> u32 \<Rightarrow> u32 list \<Rightarrow> buffers \<Rightarrow> nat \<Rightarrow> buffers" where
  "round_with f k W (A, B, C, D, E) t =
     ((SHA1CircularShift 5 A + f B C D + E + W ! t + k) AND 0xFFFFFFFF, A, SHA1CircularShift 30 B, C, D)"

definition rounds :: "u32 list \<Rightarrow> buffers \<Rightarrow> buffers" where
  "rounds W s0 =
     (let s1 = foldl (round_with (\<lambda>B C D. (B AND C) OR (NOT B AND D)) 0x5A827999 W) s0 [0..<20];
          s2 = foldl (round_with (\<lambda>B C D. B XOR C XOR D) 0x6ED9EBA1 W) s1 [20..<40];
          s3 = foldl (round_with (\<lambda>B C D. (B AND C) OR (B AND D) OR (C AND D)) 0x8F1BBCDC W) s2 [40..<60]
      in foldl (round_with (\<lambda>B C D. B XOR C XOR D) 0xCA62C1D6 W) s3 [60..<80])"

definition SHA1ProcessMessageBlock :: "SHA1Context \<Rightarrow> SHA1Context" where
  "SHA1ProcessMessageBlock ctx =
     (let H = Message_Digest ctx; W = word_sequence (Message_Block ctx) in
      case rounds W (H ! 0, H ! 1, H ! 2, H ! 3, H ! 4) of (A, B, C, D, E) \<Rightarrow>
        ctx\<lparr>Message_Digest := [(H ! 0 + A) AND 0xFFFFFFFF, (H ! 1 + B) AND 0xFFFFFFFF,
               (H ! 2 + C) AND 0xFFFFFFFF, (H ! 3 + D) AND 0xFFFFFFFF, (H ! 4 + E) AND 0xFFFFFFFF],
            Message_Block_Index := 0\<rparr>)"

text \<open>\<^verbatim>\<open>Message_Block[Message_Block_Index++] = b\<close>, which faults outside the 64-byte array.\<close>

definition put_byte :: "SHA1Context \<Rightarrow> byte \<Rightarrow> SHA1Context res" where
  "put_byte ctx b =
     rbind (wr8 (Message_Block ctx) (Message_Block_Index ctx) b) (\<lambda>blk.
       Inr (ctx\<lparr>Message_Block := blk, Message_Block_Index := Message_Block_Index ctx + 1\<rparr>))"

definition count_byte :: "SHA1Context \<Rightarrow> SHA1Context" where
  "count_byte ctx =
     (let low = (Length_Low ctx + 8) AND 0xFFFFFFFF; high = (Length_High ctx + 1) AND 0xFFFFFFFF in
      if low = 0 then ctx\<lparr>Length_Low := low, Length_High := high,
                          Corrupted := (Corrupted ctx \<or> high = 0)\<rparr>
      else ctx\<lparr>Length_Low := low\<rparr>)"

fun sha1_input_loop :: "SHA1Context \<Rightarrow> byte list \<Rightarrow> nat \<Rightarrow> SHA1Context res" where
  "sha1_input_loop ctx message_array 0 = Inr ctx"
| "sha1_input_loop ctx message_array (Suc length') =
     (if Corrupted ctx then Inr ctx
      else
        rbind (rd8 message_array 0) (\<lambda>b.
        rbind (put_byte ctx (b AND 0xFF)) (\<lambda>ctx1.
          let ctx2 = count_byte ctx1;
              ctx3 = (if Message_Block_Index ctx2 = 64 then SHA1ProcessMessageBlock ctx2 else ctx2)
          in sha1_input_loop ctx3 (drop 1 message_array) length')))"

definition SHA1Input :: "SHA1Context \<Rightarrow> byte list \<Rightarrow> nat \<Rightarrow> SHA1Context res" where
  "SHA1Input ctx message_array length' =
     (if length' = 0 then Inr ctx
      else if Computed ctx \<or> Corrupted ctx then Inr (ctx\<lparr>Corrupted := True\<rparr>)
      else sha1_input_loop ctx message_array length')"

text \<open>The zero-filling loops; the number of iterations is bounded by the distance to the limit.\<close>

function fill_zeros :: "SHA1Context \<Rightarrow> nat \<Rightarrow> SHA1Context res" where
  "fill_zeros ctx limit =
     (if Message_Block_Index ctx < limit then rbind (put_byte ctx 0) (\<lambda>ctx'. fill_zeros ctx' limit)
      else Inr ctx)"
  by pat_completeness auto
termination
  by (relation "measure (\<lambda>(ctx, limit). limit - Message_Block_Index ctx)")
    (auto simp: put_byte_def rbind_eq_Inr)

declare fill_zeros.simps [simp del]

definition store_length :: "SHA1Context \<Rightarrow> SHA1Context" where
  "store_length ctx = ctx\<lparr>Message_Block := (Message_Block ctx)
     [56 := ucast (drop_bit 24 (Length_High ctx) AND 0xFF), 57 := ucast (drop_bit 16 (Length_High ctx) AND 0xFF),
      58 := ucast (drop_bit 8 (Length_High ctx) AND 0xFF), 59 := ucast (Length_High ctx AND 0xFF),
      60 := ucast (drop_bit 24 (Length_Low ctx) AND 0xFF), 61 := ucast (drop_bit 16 (Length_Low ctx) AND 0xFF),
      62 := ucast (drop_bit 8 (Length_Low ctx) AND 0xFF), 63 := ucast (Length_Low ctx AND 0xFF)]\<rparr>"

definition SHA1PadMessage :: "SHA1Context \<Rightarrow> SHA1Context res" where
  "SHA1PadMessage ctx =
     rbind (if Message_Block_Index ctx > 55 then
              rbind (put_byte ctx 0x80) (\<lambda>ctx1.
              rbind (fill_zeros ctx1 64) (\<lambda>ctx2.
                fill_zeros (SHA1ProcessMessageBlock ctx2) 56))
            else
              rbind (put_byte ctx 0x80) (\<lambda>ctx1. fill_zeros ctx1 56))
       (\<lambda>ctx'. Inr (SHA1ProcessMessageBlock (store_length ctx')))"

definition SHA1Result :: "SHA1Context \<Rightarrow> (int \<times> SHA1Context) res" where
  "SHA1Result ctx =
     (if Corrupted ctx then Inr (0, ctx)
      else if \<not> Computed ctx then
        rbind (SHA1PadMessage ctx) (\<lambda>ctx'. Inr (1, ctx'\<lparr>Computed := True\<rparr>))
      else Inr (1, ctx))"

section \<open>Reference definition\<close>

definition sha1_f :: "nat \<Rightarrow> u32 \<Rightarrow> u32 \<Rightarrow> u32 \<Rightarrow> u32" where
  "sha1_f t B C D =
     (if t < 20 then (B AND C) OR (NOT B AND D) else if t < 40 then B XOR C XOR D
      else if t < 60 then (B AND C) OR (B AND D) OR (C AND D) else B XOR C XOR D)"

definition sha1_K :: "nat \<Rightarrow> u32" where
  "sha1_K t = (if t < 20 then 0x5A827999 else if t < 40 then 0x6ED9EBA1
     else if t < 60 then 0x8F1BBCDC else 0xCA62C1D6)"

definition ROTL :: "nat \<Rightarrow> u32 \<Rightarrow> u32" where
  "ROTL n w = push_bit n w OR drop_bit (32 - n) w"

fun sha1_W :: "byte list \<Rightarrow> nat \<Rightarrow> u32" where
  "sha1_W blk t =
     (if t < 16 then mk32 (blk ! (4 * t + 3)) (blk ! (4 * t + 2)) (blk ! (4 * t + 1)) (blk ! (4 * t))
      else ROTL 1 (sha1_W blk (t - 3) XOR sha1_W blk (t - 8) XOR sha1_W blk (t - 14) XOR sha1_W blk (t - 16)))"

declare sha1_W.simps [simp del]

definition sha1_round :: "byte list \<Rightarrow> buffers \<Rightarrow> nat \<Rightarrow> buffers" where
  "sha1_round blk s t = (case s of (A, B, C, D, E) \<Rightarrow>
     (ROTL 5 A + sha1_f t B C D + E + sha1_W blk t + sha1_K t, A, ROTL 30 B, C, D))"

definition compress :: "u32 list \<Rightarrow> byte list \<Rightarrow> u32 list" where
  "compress H blk =
     (case foldl (sha1_round blk) (H ! 0, H ! 1, H ! 2, H ! 3, H ! 4) [0..<80] of (A, B, C, D, E) \<Rightarrow>
        [H ! 0 + A, H ! 1 + B, H ! 2 + C, H ! 3 + D, H ! 4 + E])"

definition sha1_init :: "u32 list" where
  "sha1_init = [0x67452301, 0xEFCDAB89, 0x98BADCFE, 0x10325476, 0xC3D2E1F0]"

text \<open>The complete 64-byte blocks of a message and what is left behind them.\<close>

definition chunks :: "byte list \<Rightarrow> byte list list" where
  "chunks m = map (\<lambda>i. take 64 (drop (64 * i) m)) [0..<length m div 64]"

definition leftover :: "byte list \<Rightarrow> byte list" where
  "leftover m = drop (64 * (length m div 64)) m"

definition be64 :: "64 word \<Rightarrow> byte list" where
  "be64 v = map (\<lambda>k. ucast (drop_bit (8 * k) v)) [7, 6, 5, 4, 3, 2, 1, 0]"

definition sha1_pad :: "byte list \<Rightarrow> byte list" where
  "sha1_pad m = m @ 0x80 # replicate ((119 - length m mod 64) mod 64) 0 @ be64 (of_nat (8 * length m))"

definition sha1 :: "byte list \<Rightarrow> u32 list" where
  "sha1 m = foldl compress sha1_init (chunks (sha1_pad m))"

section \<open>The compression function\<close>

lemma and_all_ones [simp]: "(w :: u32) AND 0xFFFFFFFF = w"
proof -
  have "(0xFFFFFFFF :: u32) = - 1" by simp
  then show ?thesis by (simp only: and.right_neutral)
qed

lemma and_all_ones8 [simp]: "(b :: byte) AND 0xFF = b"
proof -
  have "(0xFF :: byte) = - 1" by simp
  then show ?thesis by (simp only: and.right_neutral)
qed

lemma circular_shift_ROTL [simp]: "SHA1CircularShift n w = ROTL n w"
  by (simp add: SHA1CircularShift_def ROTL_def)

lemma block_word_eq: "t < 16 \<Longrightarrow> block_word blk t = sha1_W blk t"
  by (simp add: block_word_def sha1_W.simps mk32_def ac_simps)

lemma extend_words_upto:
  "foldl extend_words (map (block_word blk) [0..<16]) [16..<16 + n] = map (sha1_W blk) [0..<16 + n]"
proof (induction n)
  case 0
  then show ?case by (auto simp: block_word_eq)
next
  case (Suc n)
  have upt: "[i..<16 + Suc n] = [i..<16 + n] @ [16 + n]" if "i \<le> 16" for i
    using that by (simp only: add_Suc_right upt_Suc) simp
  have "extend_words (map (sha1_W blk) [0..<16 + n]) (16 + n) = map (sha1_W blk) ([0..<16 + n] @ [16 + n])"
    by (simp add: extend_words_def sha1_W.simps [of blk "16 + n"])
  with Suc show ?case by (simp only: upt foldl_append foldl.simps)
qed

lemma word_sequence_nth: "t < 80 \<Longrightarrow> word_sequence blk ! t = sha1_W blk t"
  using extend_words_upto [of blk 64] by (simp add: word_sequence_def)

lemma round_with_eq:
  assumes "t < 80" "f = sha1_f t" "k = sha1_K t"
  shows "round_with f k (word_sequence blk) s t = sha1_round blk s t"
  using assms by (cases s) (simp add: sha1_round_def word_sequence_nth ac_simps)

lemma rounds_eq: "rounds (word_sequence blk) s = foldl (sha1_round blk) s [0..<80]"
proof -
  have eq: "foldl (round_with f k (word_sequence blk)) s [i..<j] = foldl (sha1_round blk) s [i..<j]"
    if "\<And>t. i \<le> t \<Longrightarrow> t < j \<Longrightarrow> t < 80 \<and> f = sha1_f t \<and> k = sha1_K t" for f k i j s
    using that by (intro foldl_cong) (auto simp: round_with_eq)
  have split: "[0..<80] = [0..<20] @ [20..<40] @ [40..<60] @ [60..<80]"
    using upt_add_eq_append [of 0 20 60] upt_add_eq_append [of 20 40 40] upt_add_eq_append [of 40 60 20]
    by simp
  have "foldl (round_with (\<lambda>B C D. (B AND C) OR (NOT B AND D)) 0x5A827999 (word_sequence blk)) s [0..<20] =
      foldl (sha1_round blk) s [0..<20]"
    "foldl (round_with (\<lambda>B C D. B XOR C XOR D) 0x6ED9EBA1 (word_sequence blk)) s [20..<40] =
      foldl (sha1_round blk) s [20..<40]"
    "foldl (round_with (\<lambda>B C D. (B AND C) OR (B AND D) OR (C AND D)) 0x8F1BBCDC (word_sequence blk)) s
      [40..<60] = foldl (sha1_round blk) s [40..<60]"
    "foldl (round_with (\<lambda>B C D. B XOR C XOR D) 0xCA62C1D6 (word_sequence blk)) s [60..<80] =
      foldl (sha1_round blk) s [60..<80]" for s
    by (rule eq; simp add: sha1_f_def sha1_K_def fun_eq_iff)+
  then show ?thesis by (simp only: rounds_def Let_def split foldl_append)
qed

lemma process_block_eq:
  "SHA1ProcessMessageBlock ctx =
     ctx\<lparr>Message_Digest := compress (Message_Digest ctx) (Message_Block ctx), Message_Block_Index := 0\<rparr>"
  by (simp add: SHA1ProcessMessageBlock_def compress_def rounds_eq Let_def split: prod.split)

section \<open>Absorbing bytes\<close>

text \<open>
  Feeding one byte to the block, without counting it. Both the input loop and the padding are
  sequences of such steps.
\<close>

definition absorb :: "SHA1Context \<Rightarrow> byte \<Rightarrow> SHA1Context" where
  "absorb ctx b =
     (let ctx' = ctx\<lparr>Message_Block := (Message_Block ctx)[Message_Block_Index ctx := b],
                     Message_Block_Index := Suc (Message_Block_Index ctx)\<rparr>
      in if Suc (Message_Block_Index ctx) = 64 then SHA1ProcessMessageBlock ctx' else ctx')"

text \<open>The context holds the digest of the complete blocks of \<open>m\<close> and the bytes behind them.\<close>

definition holds :: "SHA1Context \<Rightarrow> byte list \<Rightarrow> bool" where
  "holds ctx m \<longleftrightarrow> Message_Digest ctx = foldl compress sha1_init (chunks m) \<and>
     Message_Block_Index ctx = length m mod 64 \<and> length (Message_Block ctx) = 64 \<and>
     take (length m mod 64) (Message_Block ctx) = leftover m"

lemma length_leftover: "length (leftover m) = length m mod 64"
  by (simp add: leftover_def minus_mult_div_eq_mod)

lemma block_in_prefix:
  assumes "i < length m div 64"
  shows "take 64 (drop (64 * i) (m @ x)) = take 64 (drop (64 * i) m)"
proof -
  have "64 * Suc i \<le> length m"
    using assms by (metis Suc_leI div_times_less_eq_dividend le_trans mult.commute mult_le_mono2)
  then have "64 * i \<le> length m" "64 \<le> length m - 64 * i" by auto
  then show ?thesis by simp
qed

lemma blocks_in_prefix:
  "map (\<lambda>i. take 64 (drop (64 * i) (m @ x))) [0..<length m div 64] = chunks m"
  unfolding chunks_def by (rule map_cong [OF refl], rule block_in_prefix, simp)

lemma drop_complete_blocks:
  "drop (64 * (length m div 64)) (m @ x) = leftover m @ x"
proof -
  have "64 * (length m div 64) \<le> length m" by (rule times_div_less_eq_dividend)
  then show ?thesis by (simp add: leftover_def)
qed

lemma leftover_snoc:
  assumes "Suc (length m mod 64) \<noteq> 64"
  shows "chunks (m @ [b]) = chunks m" "leftover (m @ [b]) = leftover m @ [b]"
    "length (m @ [b]) mod 64 = Suc (length m mod 64)"
proof -
  have d: "length (m @ [b]) div 64 = length m div 64"
    using assms div_Suc [of "length m" 64] mod_Suc [of "length m" 64] by (auto split: if_splits)
  show "chunks (m @ [b]) = chunks m"
    using blocks_in_prefix [of m "[b]"] by (simp only: chunks_def d)
  show "leftover (m @ [b]) = leftover m @ [b]"
    using drop_complete_blocks [of m "[b]"] by (simp only: leftover_def d)
  show "length (m @ [b]) mod 64 = Suc (length m mod 64)"
    using assms mod_Suc [of "length m" 64] by simp
qed

lemma leftover_snoc_full:
  assumes "Suc (length m mod 64) = 64"
  shows "chunks (m @ [b]) = chunks m @ [leftover m @ [b]]" "leftover (m @ [b]) = []"
    "length (m @ [b]) mod 64 = 0"
proof -
  have md: "length (m @ [b]) mod 64 = 0"
    using assms mod_Suc [of "length m" 64] by simp
  then have d: "length (m @ [b]) div 64 = Suc (length m div 64)"
    using div_Suc [of "length m" 64] by simp
  have "length (leftover m @ [b]) = 64"
    using length_leftover [of m] assms by simp
  then show "chunks (m @ [b]) = chunks m @ [leftover m @ [b]]"
    using blocks_in_prefix [of m "[b]"] drop_complete_blocks [of m "[b]"]
    by (simp only: chunks_def [of "m @ [b]"] d upt_Suc) simp
  show "leftover (m @ [b]) = []"
    using length_leftover [of "m @ [b]"] md by simp
  show "length (m @ [b]) mod 64 = 0" by (rule md)
qed

lemma take_list_update_snoc:
  "i < length xs \<Longrightarrow> take (Suc i) (xs[i := v]) = take i xs @ [v]"
  by (simp add: take_Suc_conv_app_nth)

lemma holds_absorb:
  assumes "holds ctx m"
  shows "holds (absorb ctx b) (m @ [b])"
proof -
  let ?i = "length m mod 64"
  have i: "?i < length (Message_Block ctx)" using assms by (simp add: holds_def)
  note t = take_list_update_snoc [OF i, of b]
  show ?thesis
  proof (cases "Suc ?i = 64")
    case True
    have "(Message_Block ctx)[?i := b] = leftover m @ [b]"
      using t True assms by (simp add: holds_def)
    moreover have "length (leftover m @ [b]) = 64"
      using True by (simp add: length_leftover)
    ultimately show ?thesis
      using True assms
      by (simp add: absorb_def holds_def process_block_eq leftover_snoc_full [OF True] Let_def
          del: length_append)
  next
    case False
    with t assms show ?thesis
      by (simp add: absorb_def holds_def leftover_snoc [OF False] Let_def del: length_append)
  qed
qed

lemma leftover_short: "length p < 64 \<Longrightarrow> chunks p = [] \<and> leftover p = p"
  by (simp add: chunks_def leftover_def)

lemma chunks_append:
  "chunks (m @ x) = chunks m @ chunks (leftover m @ x) \<and> leftover (m @ x) = leftover (leftover m @ x)"
proof (induction x rule: rev_induct)
  case Nil
  have "length (leftover m) < 64" by (simp add: length_leftover)
  from leftover_short [OF this] show ?case by simp
next
  case (snoc b x)
  have len: "length (leftover m @ x) mod 64 = length (m @ x) mod 64"
    by (simp add: length_leftover mod_add_left_eq)
  show ?case
  proof (cases "Suc (length (m @ x) mod 64) = 64")
    case True
    with leftover_snoc_full [of "m @ x" b] leftover_snoc_full [of "leftover m @ x" b] snoc len
    show ?thesis by simp
  next
    case False
    with leftover_snoc [of "m @ x" b] leftover_snoc [of "leftover m @ x" b] snoc len
    show ?thesis by simp
  qed
qed

lemma chunks_block: "length p = 64 \<Longrightarrow> chunks (p @ x) = p # chunks x"
  using chunks_append [of p x] by (simp add: chunks_def leftover_def)

section \<open>The bit counter\<close>

definition bit_count :: "SHA1Context \<Rightarrow> nat" where
  "bit_count ctx = unat (Length_High ctx) * 2 ^ 32 + unat (Length_Low ctx)"

text \<open>
  The carry test compares the low word with zero after adding eight: it is exact because the
  count is a multiple of eight.
\<close>

lemma count_byte_eq:
  assumes "bit_count ctx = 8 * n" "8 * Suc n < 2 ^ 64"
  obtains l h where "count_byte ctx = ctx\<lparr>Length_Low := l, Length_High := h\<rparr>"
    "unat h * 2 ^ 32 + unat l = 8 * Suc n"
proof (cases "unat (Length_Low ctx) + 8 < 2 ^ 32")
  case True
  then have l: "unat (Length_Low ctx + 8) = unat (Length_Low ctx) + 8"
    by (subst unat_add_lem [THEN iffD1]) simp_all
  then have "Length_Low ctx + 8 \<noteq> 0" by (metis add_is_0 unat_0 zero_neq_numeral)
  then have "count_byte ctx = ctx\<lparr>Length_Low := Length_Low ctx + 8, Length_High := Length_High ctx\<rparr>"
    by (simp add: count_byte_def Let_def)
  moreover have "unat (Length_High ctx) * 2 ^ 32 + unat (Length_Low ctx + 8) = 8 * Suc n"
    using l assms(1) by (simp add: bit_count_def)
  ultimately show ?thesis by (rule that)
next
  case False
  have "unat (Length_Low ctx) < 2 ^ 32" using unsigned_less [of "Length_Low ctx"] by simp
  moreover have "8 dvd unat (Length_Low ctx)"
  proof -
    have "8 dvd unat (Length_High ctx) * 2 ^ 32 + unat (Length_Low ctx)"
      using assms(1) by (simp add: bit_count_def)
    moreover have "(8 :: nat) dvd unat (Length_High ctx) * 2 ^ 32" by (intro dvd_mult) simp
    ultimately show ?thesis by (simp add: dvd_add_right_iff)
  qed
  ultimately have u: "unat (Length_Low ctx) = 2 ^ 32 - 8"
    using False by (elim dvdE) auto
  have "Length_Low ctx = of_nat (unat (Length_Low ctx))" by simp
  then have "Length_Low ctx = of_nat (2 ^ 32 - 8)" by (simp only: u)
  then have l: "Length_Low ctx + 8 = 0" by simp
  have "unat (Length_High ctx) + 1 < 2 ^ 32"
    using assms u by (simp add: bit_count_def)
  then have h: "unat (Length_High ctx + 1) = unat (Length_High ctx) + 1"
    by (subst unat_add_lem [THEN iffD1]) simp_all
  then have "Length_High ctx + 1 \<noteq> 0" by (metis add_is_0 unat_0 zero_neq_one)
  with l have "count_byte ctx = ctx\<lparr>Length_Low := 0, Length_High := Length_High ctx + 1\<rparr>"
    by (simp add: count_byte_def Let_def)
  moreover have "unat (Length_High ctx + 1) * 2 ^ 32 + unat (0 :: u32) = 8 * Suc n"
    using assms(1) u h by (simp add: bit_count_def)
  ultimately show ?thesis by (rule that)
qed

section \<open>The input loop\<close>

definition absorbing :: "SHA1Context \<Rightarrow> byte list \<Rightarrow> bool" where
  "absorbing ctx m \<longleftrightarrow> holds ctx m \<and> bit_count ctx = 8 * length m \<and> \<not> Computed ctx \<and> \<not> Corrupted ctx"

lemma msplice_one: "i < length b \<Longrightarrow> msplice b i [v] = b[i := v]"
  by (simp add: msplice_def upd_conv_take_nth_drop)

lemma input_step:
  assumes "absorbing ctx m" "8 * Suc (length m) < 2 ^ 64"
  obtains ctx1 where "put_byte ctx b = Inr ctx1"
    "absorbing (if Message_Block_Index (count_byte ctx1) = 64
                then SHA1ProcessMessageBlock (count_byte ctx1) else count_byte ctx1) (m @ [b])"
proof -
  let ?ctx1 = "ctx\<lparr>Message_Block := (Message_Block ctx)[Message_Block_Index ctx := b],
                   Message_Block_Index := Suc (Message_Block_Index ctx)\<rparr>"
  have i: "Message_Block_Index ctx < length (Message_Block ctx)"
    using assms(1) by (simp add: absorbing_def holds_def)
  then have put: "put_byte ctx b = Inr ?ctx1"
    by (simp add: put_byte_def msplice_one)
  have "bit_count ?ctx1 = 8 * length m"
    using assms(1) by (simp add: absorbing_def bit_count_def)
  then obtain l h where c: "count_byte ?ctx1 = ?ctx1\<lparr>Length_Low := l, Length_High := h\<rparr>"
      "unat h * 2 ^ 32 + unat l = 8 * Suc (length m)"
    using count_byte_eq [OF _ assms(2)] by blast
  let ?ctx2 = "(absorb ctx b)\<lparr>Length_Low := l, Length_High := h\<rparr>"
  have "holds ?ctx2 (m @ [b])"
    using assms(1) holds_absorb [of ctx m b] by (simp add: absorbing_def holds_def)
  moreover have "bit_count ?ctx2 = 8 * length (m @ [b])" using c(2) by (simp add: bit_count_def)
  moreover have "\<not> Computed ?ctx2" "\<not> Corrupted ?ctx2"
    using assms(1) by (simp_all add: absorbing_def absorb_def process_block_eq Let_def)
  ultimately have "absorbing ?ctx2 (m @ [b])" unfolding absorbing_def by blast
  moreover have "(if Message_Block_Index (count_byte ?ctx1) = 64
      then SHA1ProcessMessageBlock (count_byte ?ctx1) else count_byte ?ctx1) = ?ctx2"
    unfolding c(1) by (simp add: absorb_def process_block_eq Let_def)
  ultimately show ?thesis by (intro that [OF put]) simp
qed

lemma input_loop_absorbs:
  assumes "absorbing ctx m" "n \<le> length bs" "8 * (length m + n) < 2 ^ 64"
  shows "\<exists>ctx'. sha1_input_loop ctx bs n = Inr ctx' \<and> absorbing ctx' (m @ take n bs)"
  using assms
proof (induction n arbitrary: ctx m bs)
  case (Suc n)
  then obtain b bs' where bs: "bs = b # bs'" by (cases bs) auto
  have "8 * Suc (length m) < 2 ^ 64" using Suc.prems(3) by simp
  from input_step [OF Suc.prems(1) this] obtain ctx1 where s: "put_byte ctx b = Inr ctx1"
    "absorbing (if Message_Block_Index (count_byte ctx1) = 64
                then SHA1ProcessMessageBlock (count_byte ctx1) else count_byte ctx1) (m @ [b])" .
  from Suc.IH [OF s(2), of bs'] Suc.prems s(1) show ?case
    by (simp add: bs absorbing_def Let_def)
qed simp

lemma SHA1Input_absorbs:
  assumes "absorbing ctx m" "n \<le> length bs" "8 * (length m + n) < 2 ^ 64"
  shows "\<exists>ctx'. SHA1Input ctx bs n = Inr ctx' \<and> absorbing ctx' (m @ take n bs)"
  using input_loop_absorbs [OF assms] assms(1) by (auto simp: SHA1Input_def absorbing_def)


section \<open>Padding\<close>

text \<open>A digest of earlier blocks and the bytes of the block under construction.\<close>

definition building :: "u32 list \<Rightarrow> SHA1Context \<Rightarrow> byte list \<Rightarrow> bool" where
  "building H ctx p \<longleftrightarrow> Message_Digest ctx = H \<and> Message_Block_Index ctx = length p \<and>
     length (Message_Block ctx) = 64 \<and> take (length p) (Message_Block ctx) = p"

definition same_count :: "SHA1Context \<Rightarrow> SHA1Context \<Rightarrow> bool" where
  "same_count ctx ctx' \<longleftrightarrow> Length_Low ctx' = Length_Low ctx \<and> Length_High ctx' = Length_High ctx \<and>
     Corrupted ctx' = Corrupted ctx"

lemma put_byte_building:
  assumes "building H ctx p" "length p < 64"
  obtains ctx' where "put_byte ctx b = Inr ctx'" "building H ctx' (p @ [b])" "same_count ctx ctx'"
proof (rule that)
  let ?ctx' = "ctx\<lparr>Message_Block := (Message_Block ctx)[length p := b], Message_Block_Index := Suc (length p)\<rparr>"
  show "put_byte ctx b = Inr ?ctx'"
    using assms by (simp add: put_byte_def building_def msplice_one)
  show "building H ?ctx' (p @ [b])"
    using assms take_list_update_snoc [of "length p" "Message_Block ctx" b] by (simp add: building_def)
  show "same_count ctx ?ctx'" by (simp add: same_count_def)
qed

lemma fill_zeros_building:
  assumes "building H ctx p" "length p \<le> limit" "limit \<le> 64"
  shows "\<exists>ctx'. fill_zeros ctx limit = Inr ctx' \<and>
    building H ctx' (p @ replicate (limit - length p) 0) \<and> same_count ctx ctx'"
  using assms
proof (induction "limit - length p" arbitrary: ctx p)
  case 0
  then show ?case by (subst fill_zeros.simps) (simp add: building_def same_count_def)
next
  case (Suc d)
  then have lt: "length p < limit" "length p < 64" "d = limit - length (p @ [0 :: byte])"
    "length (p @ [0 :: byte]) \<le> limit" by simp_all
  from put_byte_building [OF Suc.prems(1) lt(2)] obtain ctx1
    where c: "put_byte ctx 0 = Inr ctx1" "building H ctx1 (p @ [0])" "same_count ctx ctx1" .
  from Suc.hyps(1) [OF lt(3) c(2) lt(4) Suc.prems(3)] obtain ctx'
    where r: "fill_zeros ctx1 limit = Inr ctx'"
      "building H ctx' ((p @ [0]) @ replicate d 0)" "same_count ctx1 ctx'"
    using lt(3) by metis
  have "fill_zeros ctx limit = Inr ctx'"
    using Suc.prems(1) lt(1) c(1) r(1) by (subst fill_zeros.simps) (simp add: building_def)
  moreover have "(p @ [0]) @ replicate d 0 = p @ replicate (limit - length p) (0 :: byte)"
    using Suc.hyps(2) by (metis append.assoc append_Cons append_Nil replicate_Suc)
  ultimately show ?case using r(2,3) c(3) by (auto simp: same_count_def)
qed

lemma process_building:
  assumes "building H ctx p" "length p = 64"
  shows "building (compress H p) (SHA1ProcessMessageBlock ctx) []" "same_count ctx (SHA1ProcessMessageBlock ctx)"
  using assms by (auto simp: building_def process_block_eq same_count_def)

definition length_bytes :: "SHA1Context \<Rightarrow> byte list" where
  "length_bytes ctx = be64 (of_nat (bit_count ctx))"

lemma length_bytes_eq:
  "length_bytes ctx =
     [ucast (drop_bit 24 (Length_High ctx) AND 0xFF), ucast (drop_bit 16 (Length_High ctx) AND 0xFF),
      ucast (drop_bit 8 (Length_High ctx) AND 0xFF), ucast (Length_High ctx AND 0xFF),
      ucast (drop_bit 24 (Length_Low ctx) AND 0xFF), ucast (drop_bit 16 (Length_Low ctx) AND 0xFF),
      ucast (drop_bit 8 (Length_Low ctx) AND 0xFF), ucast (Length_Low ctx AND 0xFF)]"
proof -
  have "(of_nat (bit_count ctx) :: 64 word) = push_bit 32 (ucast (Length_High ctx)) + ucast (Length_Low ctx)"
    by (simp add: bit_count_def push_bit_eq_mult)
  also have "\<dots> = push_bit 32 (ucast (Length_High ctx)) OR ucast (Length_Low ctx)"
    by (rule disjunctive_add) (auto simp: bit_simps dest: bit_imp_le_length)
  finally have w: "(of_nat (bit_count ctx) :: 64 word) = push_bit 32 (ucast (Length_High ctx)) OR ucast (Length_Low ctx)" .
  have m: "(0xFF :: u32) = mask 8" by (simp add: mask_eq_exp_minus_1)
  have out: "\<not> bit (Length_Low ctx) (k + n)" if "32 \<le> k" for k n
    using that bit_imp_le_length [of "Length_Low ctx" "k + n"] by auto
  show ?thesis
    unfolding length_bytes_def be64_def w m
    by (auto intro!: bit_word_eqI simp: bit_simps out)
qed

lemma eight_elements:
  "length xs = 8 \<Longrightarrow> \<exists>a0 a1 a2 a3 a4 a5 a6 a7. xs = [a0, a1, a2, a3, a4, a5, a6, a7]"
  by (auto simp: length_Suc_conv numeral_eq_Suc)

lemma store_length_building:
  assumes "building H ctx p" "length p = 56"
  shows "Message_Digest (store_length ctx) = H \<and> Message_Block (store_length ctx) = p @ length_bytes ctx \<and>
    same_count ctx (store_length ctx)"
proof -
  have "length (Message_Block ctx) = 64" "take 56 (Message_Block ctx) = p"
    using assms by (auto simp: building_def)
  moreover have "length (drop 56 (Message_Block ctx)) = 8" using calculation by simp
  moreover obtain a0 a1 a2 a3 a4 a5 a6 a7 where "drop 56 (Message_Block ctx) = [a0, a1, a2, a3, a4, a5, a6, a7]"
    using eight_elements [OF calculation(3)] by blast
  ultimately have "Message_Block ctx = p @ [a0, a1, a2, a3, a4, a5, a6, a7]"
    by (metis append_take_drop_id)
  then show ?thesis
    using assms by (simp add: store_length_def length_bytes_eq building_def same_count_def list_update_append)
qed


text \<open>The last block: the bytes so far, filled up to 56, and the length.\<close>

lemma finish_building:
  assumes "building H ctx p" "length p \<le> 56"
  shows "\<exists>ctx'. fill_zeros ctx 56 = Inr ctx' \<and>
    Message_Digest (SHA1ProcessMessageBlock (store_length ctx')) =
      compress H (p @ replicate (56 - length p) 0 @ length_bytes ctx) \<and>
    same_count ctx (SHA1ProcessMessageBlock (store_length ctx'))"
proof -
  from fill_zeros_building [OF assms] obtain ctx' where f: "fill_zeros ctx 56 = Inr ctx'"
    "building H ctx' (p @ replicate (56 - length p) 0)" "same_count ctx ctx'" by auto
  moreover have "length (p @ replicate (56 - length p) (0 :: byte)) = 56" using assms(2) by simp
  note store_length_building [OF f(2) this]
  moreover have "length_bytes ctx' = length_bytes ctx"
    using f(3) by (simp add: length_bytes_def bit_count_def same_count_def)
  ultimately show ?thesis by (auto simp: process_block_eq same_count_def)
qed

definition padding :: "nat \<Rightarrow> byte list" where
  "padding i = 0x80 # replicate ((119 - i) mod 64) 0"

lemma padding_short: "i \<le> 55 \<Longrightarrow> padding i = 0x80 # replicate (55 - i) 0"
proof -
  assume "i \<le> 55"
  then have "(119 - i) mod 64 = 55 - i" using mod_add_self1 [of 64 "55 - i"] by simp
  then show ?thesis by (simp add: padding_def)
qed

lemma padding_long: "55 < i \<Longrightarrow> i < 64 \<Longrightarrow> padding i = 0x80 # replicate (63 - i) 0 @ replicate 56 0"
proof -
  assume i: "55 < i" "i < 64"
  then have "(119 - i) mod 64 = (63 - i) + 56" by simp
  then show ?thesis by (simp only: padding_def replicate_add)
qed

lemma pad_building:
  assumes "building H ctx p" "length p < 64"
  shows "\<exists>ctx'. SHA1PadMessage ctx = Inr ctx' \<and>
    Message_Digest ctx' = foldl compress H (chunks (p @ padding (length p) @ length_bytes ctx)) \<and>
    same_count ctx ctx'"
proof -
  have eight: "length (length_bytes c) = 8" for c by (simp add: length_bytes_def be64_def)
  from put_byte_building [OF assms] obtain ctx1
    where c1: "put_byte ctx 0x80 = Inr ctx1" "building H ctx1 (p @ [0x80])" "same_count ctx ctx1" .
  have idx: "Message_Block_Index ctx = length p" using assms(1) by (simp add: building_def)
  have lb: "length_bytes c = length_bytes ctx" if "same_count ctx c" for c
    using that by (simp add: length_bytes_def bit_count_def same_count_def)
  show ?thesis
  proof (cases "length p \<le> 55")
    case True
    then have "length (p @ [0x80 :: byte]) \<le> 56" by simp
    from finish_building [OF c1(2) this] lb [OF c1(3)] show ?thesis
      using True idx c1 eight chunks_block [of "p @ padding (length p) @ length_bytes ctx" "[]"]
      by (auto simp: SHA1PadMessage_def padding_short same_count_def leftover_short)
  next
    case False
    have "length (p @ [0x80 :: byte]) \<le> 64" using assms(2) by simp
    from fill_zeros_building [OF c1(2) this le_refl] obtain ctx2
      where c2: "fill_zeros ctx1 64 = Inr ctx2" "same_count ctx1 ctx2"
        "building H ctx2 ((p @ [0x80]) @ replicate (64 - length (p @ [0x80 :: byte])) 0)" by blast
    let ?q = "p @ 0x80 # replicate (63 - length p) 0" and ?ctx3 = "SHA1ProcessMessageBlock ctx2"
    have q: "building H ctx2 ?q" "length ?q = 64" using c2(3) assms(2) by simp_all
    have s3: "same_count ctx ?ctx3"
      using process_building(2) [OF q] c1(3) c2(2) by (simp add: same_count_def)
    from finish_building [OF process_building(1) [OF q]] lb [OF s3]
    obtain ctx4 where c4: "fill_zeros ?ctx3 56 = Inr ctx4"
      "Message_Digest (SHA1ProcessMessageBlock (store_length ctx4)) =
        compress (compress H ?q) (replicate 56 0 @ length_bytes ctx)"
      "same_count ?ctx3 (SHA1ProcessMessageBlock (store_length ctx4))" by auto
    have "length (replicate 56 (0 :: byte) @ length_bytes ctx) = 64" by (simp add: eight)
    then have "chunks (?q @ replicate 56 0 @ length_bytes ctx) = [?q, replicate 56 0 @ length_bytes ctx]"
      using chunks_block [OF q(2), of "replicate 56 0 @ length_bytes ctx"]
        chunks_block [of "replicate 56 0 @ length_bytes ctx" "[]"] leftover_short [of "[]"] by simp
    then have "chunks (p @ padding (length p) @ length_bytes ctx) = [?q, replicate 56 0 @ length_bytes ctx]"
      using False assms(2) by (simp add: padding_long)
    with False idx c1(1) c2(1) c4 s3 show ?thesis
      by (auto simp: SHA1PadMessage_def same_count_def)
  qed
qed

lemma SHA1Result_computes:
  assumes "absorbing ctx m"
  shows "\<exists>ctx'. SHA1Result ctx = Inr (1, ctx') \<and> Message_Digest ctx' = sha1 m \<and> Computed ctx' \<and> \<not> Corrupted ctx'"
proof -
  let ?H = "foldl compress sha1_init (chunks m)"
  have b: "building ?H ctx (leftover m)" "length (leftover m) < 64"
    using assms by (simp_all add: absorbing_def holds_def building_def length_leftover)
  have "sha1 m = foldl compress ?H (chunks (leftover m @ padding (length (leftover m)) @ length_bytes ctx))"
    using assms chunks_append [of m "padding (length m mod 64) @ length_bytes ctx"]
    by (simp add: sha1_def sha1_pad_def padding_def length_leftover length_bytes_def absorbing_def)
  with pad_building [OF b] assms show ?thesis
    by (auto simp: SHA1Result_def absorbing_def same_count_def)
qed


section \<open>The interface to clients\<close>

text \<open>
  What a client of an incremental digest relies on: input appends to the message absorbed so far
  and the result is the digest of that message. A message handed over in pieces then has the digest
  of the concatenation.
\<close>

fun feed :: "('c \<Rightarrow> byte list \<Rightarrow> nat \<Rightarrow> 'c res) \<Rightarrow> 'c \<Rightarrow> byte list list \<Rightarrow> 'c res" where
  "feed input c [] = Inr c"
| "feed input c (p # ps) = rbind (input c p (length p)) (\<lambda>c'. feed input c' ps)"

locale incremental_digest =
  fixes taken :: "'c \<Rightarrow> byte list \<Rightarrow> bool"
    and input :: "'c \<Rightarrow> byte list \<Rightarrow> nat \<Rightarrow> 'c res"
    and result :: "'c \<Rightarrow> (int \<times> 'c) res"
    and read_out :: "'c \<Rightarrow> 'd"
    and digest :: "byte list \<Rightarrow> 'd"
    and limit :: nat
  assumes input_appends: "taken c m \<Longrightarrow> length m + length p < limit \<Longrightarrow>
      \<exists>c'. input c p (length p) = Inr c' \<and> taken c' (m @ p)"
    and result_digests: "taken c m \<Longrightarrow> \<exists>c'. result c = Inr (1, c') \<and> read_out c' = digest m"
    and result_repeats: "taken c m \<Longrightarrow> result c = Inr (1, c') \<Longrightarrow> result c' = Inr (1, c')"
    and input_after_result: "taken c m \<Longrightarrow> result c = Inr (1, c') \<Longrightarrow> p \<noteq> [] \<Longrightarrow>
      \<exists>c''. input c' p (length p) = Inr c'' \<and> result c'' = Inr (0, c'')"
begin

lemma feed_appends:
  "taken c m \<Longrightarrow> length m + length (concat ps) < limit \<Longrightarrow>
     \<exists>c'. feed input c ps = Inr c' \<and> taken c' (m @ concat ps)"
proof (induction ps arbitrary: c m)
  case (Cons p ps)
  then have "length m + length p < limit" by simp
  from input_appends [OF Cons.prems(1) this] obtain c'
    where c: "input c p (length p) = Inr c'" "taken c' (m @ p)" by blast
  moreover have "length (m @ p) + length (concat ps) < limit" using Cons.prems(2) by simp
  ultimately show ?case using Cons.IH [OF c(2)] by simp
qed simp

lemma feed_digest:
  assumes "taken c []" "length (concat ps) < limit"
  shows "\<exists>c'. rbind (feed input c ps) result = Inr (1, c') \<and> read_out c' = digest (concat ps)"
  using feed_appends [OF assms(1), of ps] assms(2) result_digests by fastforce

lemma feed_then_misuse:
  assumes "taken c []" "length (concat ps) < limit" "p \<noteq> []"
  shows "\<exists>c' c''. rbind (feed input c ps) result = Inr (1, c') \<and> result c' = Inr (1, c') \<and>
    input c' p (length p) = Inr c'' \<and> result c'' = Inr (0, c'')"
proof -
  from feed_appends [OF assms(1), of ps] assms(2)
  obtain c1 where c1: "feed input c ps = Inr c1" "taken c1 (concat ps)" by auto
  from result_digests [OF c1(2)] obtain c' where r: "result c1 = Inr (1, c')" by blast
  from result_repeats [OF c1(2) r] input_after_result [OF c1(2) r assms(3)] r c1(1)
  show ?thesis by auto
qed

end

interpretation sha: incremental_digest absorbing SHA1Input SHA1Result Message_Digest sha1 "2 ^ 61"
proof unfold_locales
  fix c m and p :: "byte list"
  show "\<exists>c'. SHA1Input c p (length p) = Inr c' \<and> absorbing c' (m @ p)"
    if "absorbing c m" "length m + length p < 2 ^ 61"
    using SHA1Input_absorbs [OF that(1) le_refl, of p] that(2) by simp
  show "\<exists>c'. SHA1Result c = Inr (1, c') \<and> Message_Digest c' = sha1 m" if "absorbing c m"
    using SHA1Result_computes [OF that] by blast
  show "SHA1Result c' = Inr (1, c')" if "absorbing c m" "SHA1Result c = Inr (1, c')" for c'
    using SHA1Result_computes [OF that(1)] that(2) by (auto simp: SHA1Result_def)
  show "\<exists>c''. SHA1Input c' p (length p) = Inr c'' \<and> SHA1Result c'' = Inr (0, c'')"
    if "absorbing c m" "SHA1Result c = Inr (1, c')" "p \<noteq> []" for c'
    using SHA1Result_computes [OF that(1)] that(2,3) by (auto simp: SHA1Input_def SHA1Result_def)
qed

lemma absorbing_reset: "length (Message_Block ctx) = 64 \<Longrightarrow> absorbing (SHA1Reset ctx) []"
  by (simp add: absorbing_def SHA1Reset_def holds_def bit_count_def chunks_def leftover_def sha1_init_def)

section \<open>Properties\<close>

definition ex_context :: SHA1Context where
  "ex_context = \<lparr>Message_Digest = replicate 5 0xDEADBEEF, Length_Low = 7, Length_High = 9,
     Message_Block = replicate 64 0xAA, Message_Block_Index = 12, Computed = True, Corrupted = True\<rparr>"

text \<open>
  Claim C25: the incremental SHA-1 code computes the reference digest. For a context with arbitrary
  contents (its block being the 64-byte array of the structure), resetting it, feeding it a message
  of fewer than 2^61 bytes in any sequence of pieces and asking for the result never writes outside
  the block, returns 1, and leaves in the context the digest that the reference definition (pad the
  whole message, cut it into blocks, fold the compression function) assigns to the concatenation.
\<close>

theorem sha1_digest_correct:
  assumes "length (Message_Block ctx) = 64" "length (concat pieces) < 2 ^ 61"
  shows "\<exists>ctx'. rbind (feed SHA1Input (SHA1Reset ctx) pieces) SHA1Result = Inr (1, ctx') \<and>
    Message_Digest ctx' = sha1 (concat pieces)"
  using sha.feed_digest [OF absorbing_reset [OF assms(1)]] assms(2) by blast

theorem sha1_digest_correct_witness:
  "\<exists>ctx'. rbind (feed SHA1Input (SHA1Reset ex_context) [[0x61], [], [0x62, 0x63]]) SHA1Result = Inr (1, ctx') \<and>
    Message_Digest ctx' = sha1 [0x61, 0x62, 0x63]"
  using sha1_digest_correct [of ex_context "[[0x61], [], [0x62, 0x63]]"] by (simp add: ex_context_def)

text \<open>
  After the result has been taken the context is closed. Asking again returns the same
  digest without touching the context; feeding any further byte marks the context corrupted, and
  the result of a corrupted context is the error value 0.
\<close>

theorem sha1_closed_after_result:
  assumes "length (Message_Block ctx) = 64" "length (concat pieces) < 2 ^ 61" "extra \<noteq> []"
  shows "\<exists>ctx' ctx''. rbind (feed SHA1Input (SHA1Reset ctx) pieces) SHA1Result = Inr (1, ctx') \<and>
    SHA1Result ctx' = Inr (1, ctx') \<and> SHA1Input ctx' extra (length extra) = Inr ctx'' \<and>
    SHA1Result ctx'' = Inr (0, ctx'')"
  using sha.feed_then_misuse [OF absorbing_reset [OF assms(1)] assms(2,3)] .

theorem sha1_closed_after_result_witness:
  "\<exists>ctx' ctx''. rbind (feed SHA1Input (SHA1Reset ex_context) [[1, 2], [3]]) SHA1Result = Inr (1, ctx') \<and>
    SHA1Result ctx' = Inr (1, ctx') \<and> SHA1Input ctx' [4] 1 = Inr ctx'' \<and> SHA1Result ctx'' = Inr (0, ctx'')"
  using sha1_closed_after_result [of ex_context "[[1, 2], [3]]" "[4]"] by (simp add: ex_context_def)

end
