(* ===== verification/VnsComm.thy ===== *)
theory VnsComm
  imports Router Sha1
begin

text \<open>
  The receiving side of the VNS client, \<^verbatim>\<open>sr_vns_comm.c\<close>: reading a command from the server socket,
  the handlers of the commands, and the opening of a session.

  The environment of a session is part of its state. \<open>inbox\<close> lists the results of the next
  \<^verbatim>\<open>recv\<close>/\<^verbatim>\<open>read\<close> calls on the socket: \<open>Bytes bs\<close> makes the bytes available (a call that asks for
  fewer leaves the rest; \<open>Bytes []\<close> is the result 0 of a connection that the peer has closed),
  \<open>Interrupted\<close> is a call that a signal breaks, \<open>Failed\<close> any other error. A function that still
  needs input when the list is used up has not returned: its value is \<open>None\<close>. \<open>files\<close> and
  \<open>writable\<close> stand for the directory the client runs in, the \<open>env\<close> fields for the results of
  \<^verbatim>\<open>gethostbyname\<close>, \<^verbatim>\<open>socket\<close> and \<^verbatim>\<open>connect\<close>, and the \<open>junk\<close> fields for the contents of
  memory that the code uses without initialising it. What the client sends goes to the \<open>wire\<close> of the
  router, the socket being the same. The text printed, closing the socket and freeing the message are
  not modelled; \<^verbatim>\<open>malloc\<close> succeeds.
\<close>

section \<open>Constants and state\<close>

abbreviation (input) AUTH_KEY_LEN :: nat where "AUTH_KEY_LEN \<equiv> 64"
abbreviation (input) SHA1_LEN :: nat where "SHA1_LEN \<equiv> 20"

datatype recv_event = Bytes "byte list" | Interrupted | Failed

record session =
  router :: sr_instance
  inbox :: "recv_event list"
  files :: "string \<Rightarrow> byte list option"
  writable :: "string \<Rightarrow> bool"
  env_resolve :: "string \<Rightarrow> bool"
  env_socket :: int
  env_connect :: "string \<Rightarrow> u16 \<Rightarrow> bool"
  junk_if :: "nat \<Rightarrow> sr_if"
  junk_key :: "byte list"
  junk_sha :: SHA1Context

abbreviation upd_router :: "session \<Rightarrow> sr_instance \<Rightarrow> session" where
  "upd_router s sr \<equiv> s\<lparr>router := sr\<rparr>"

section \<open>C strings in a message\<close>

text \<open>
  The C string at an offset of a message: the characters before the first NUL. Without a NUL the
  access runs past the end of the message, unless the function that reads it stops after \<open>limit\<close>
  characters.
\<close>

definition cstring_at :: "byte list \<Rightarrow> nat \<Rightarrow> nat \<Rightarrow> string res" where
  "cstring_at buf off limit =
     (let s = takeWhile (\<lambda>b. b \<noteq> 0) (drop off buf) in
      if off + length s < length buf \<or> limit \<le> length s then Inr (map (\<lambda>b. char_of (unat b)) s)
      else Inl OutOfBounds)"

text \<open>
  Printing a message with \<^verbatim>\<open>%s\<close> reads it up to its NUL; the text that is printed is not part of the
  state.
\<close>

definition print_cstring :: "byte list \<Rightarrow> nat \<Rightarrow> unit res" where
  "print_cstring buf off = rbind (cstring_at buf off (Suc (length buf))) (\<lambda>_. Inr ())"

lemma print_cstring_ok: "0 \<in> set (drop off buf) \<Longrightarrow> print_cstring buf off = Inr ()"
proof -
  assume z: "0 \<in> set (drop off buf)"
  then have "dropWhile (\<lambda>b. b \<noteq> 0) (drop off buf) \<noteq> []" by (auto simp: dropWhile_eq_Nil_conv)
  then have "length (takeWhile (\<lambda>b. b \<noteq> 0) (drop off buf)) < length (drop off buf)"
    by (metis append_Nil2 length_append length_greater_0_conv less_add_same_cancel1 takeWhile_dropWhile_id)
  then have "off + length (takeWhile (\<lambda>b. b \<noteq> 0) (drop off buf)) < length buf" by simp
  then show ?thesis by (simp add: print_cstring_def cstring_at_def Let_def)
qed

lemma print_cstring_overread: "0 \<notin> set (drop off buf) \<Longrightarrow> off \<le> length buf \<Longrightarrow> print_cstring buf off = Inl OutOfBounds"
proof -
  assume "0 \<notin> set (drop off buf)" "off \<le> length buf"
  moreover from this have "length (takeWhile (\<lambda>b. b \<noteq> 0) (drop off buf)) = length buf - off"
    by (subst takeWhile_eq_all_conv [THEN iffD2]) auto
  ultimately show ?thesis by (simp add: print_cstring_def cstring_at_def Let_def)
qed

definition rd32 :: "byte list \<Rightarrow> nat \<Rightarrow> u32 res" where
  "rd32 b i = rd_struct 4 dec32 b i"

section \<open>Sending\<close>

text \<open>\<^verbatim>\<open>send(sockfd, msg, len, 0) != len\<close>\<close>

definition sock_send :: "sr_instance \<Rightarrow> byte list \<Rightarrow> bool \<times> sr_instance" where
  "sock_send sr msg =
     (env_write sr (wire sr) msg = int (length msg), sr\<lparr>wire := wire sr @ [msg]\<rparr>)"

section \<open>Command handlers\<close>

definition sr_arp_req_not_for_us :: "sr_instance \<Rightarrow> byte list \<Rightarrow> nat \<Rightarrow> string \<Rightarrow> bool res" where
  "sr_arp_req_not_for_us sr packet len interface =
     (if len < sizeof_eth + sizeof_arp then Inr False
      else
        case sr_get_interface (if_list sr) interface of
          None \<Rightarrow> Inl AssertFail
        | Some iface \<Rightarrow>
            rbind (rd_struct sizeof_eth dec_eth packet 0) (\<lambda>e_hdr.
              if ether_type e_hdr = htons ethertype_arp then
                rbind (rd_struct sizeof_arp dec_arp packet sizeof_eth) (\<lambda>a_hdr.
                  Inr (ar_op a_hdr = htons arp_op_request \<and> ar_tip a_hdr \<noteq> if_ip iface))
              else Inr False))"

text \<open>
  The name of the receiving interface. The comparison with the name of an interface stops at the
  first difference, a NUL or after \<^verbatim>\<open>sr_IFACE_NAMELEN\<close> characters, so a name that the message cuts off is
  read past the end only when an interface's name begins with it.
\<close>

definition interface_name :: "sr_if list \<Rightarrow> byte list \<Rightarrow> string res" where
  "interface_name ifs buf =
     (let s = map (\<lambda>b. char_of (unat b)) (takeWhile (\<lambda>b. b \<noteq> 0) (drop sizeof_c_base buf)) in
      if sizeof_c_base + length s < length buf \<or> sr_IFACE_NAMELEN \<le> length s \<or>
         list_all (\<lambda>i. take (length s) (if_name i) \<noteq> s) ifs
      then Inr s else Inl OutOfBounds)"

lemma interface_name_cstring:
  "cstring_at buf sizeof_c_base sr_IFACE_NAMELEN = Inr n \<Longrightarrow> interface_name ifs buf = Inr n"
  by (auto simp: cstring_at_def interface_name_def Let_def split: if_splits)

text \<open>
  The \<^verbatim>\<open>VNSPACKET\<close> case. The frame length is computed in \<^verbatim>\<open>size_t\<close> and passed as
  \<^verbatim>\<open>unsigned int\<close>.
\<close>

definition handle_vnspacket :: "session \<Rightarrow> byte list \<Rightarrow> (int \<times> session) res" where
  "handle_vnspacket s buf =
     (let packet = drop sizeof_c_packet_header buf; plen = nat ((int (length buf) - int sizeof_c_packet_ethernet_header + int sizeof_eth) mod 2 ^ 32) in
      rbind (interface_name (if_list (router s)) buf) (\<lambda>interface.
      rbind (sr_arp_req_not_for_us (router s) packet plen interface) (\<lambda>skip.
        if skip then Inr (1, s)
        else
          rbind (sr_log_packet (router s) packet plen) (\<lambda>sr1.
          rbind (sr_handlepacket sr1 packet plen interface) (\<lambda>sr2.
            Inr (1, upd_router s sr2))))))"

definition hw_entry :: "session \<Rightarrow> byte list \<Rightarrow> nat \<Rightarrow> session res" where
  "hw_entry s buf i =
     rbind (rd_struct sizeof_c_hw_entry dec_hw_entry buf (sizeof_c_base + sizeof_c_hw_entry * i)) (\<lambda>entry.
       let key = ntohl (mKey entry); v = hw_value entry; sr = router s; ifs = if_list sr in
       if key = HWINTERFACE then
         Inr (upd_router s (sr\<lparr>if_list := sr_add_interface (junk_if s (length ifs)) ifs
                (map (\<lambda>b. char_of (unat b)) (takeWhile (\<lambda>b. b \<noteq> 0) v))\<rparr>))
       else if key = HWETHIP then
         rbind (sr_set_ether_ip ifs (dec32 (take 4 v))) (\<lambda>ifs'. Inr (upd_router s (sr\<lparr>if_list := ifs'\<rparr>)))
       else if key = HWETHER then
         rbind (sr_set_ether_addr ifs (dec_mac (take 6 v))) (\<lambda>ifs'. Inr (upd_router s (sr\<lparr>if_list := ifs'\<rparr>)))
       else Inr s)"

fun hwinfo_loop :: "session \<Rightarrow> byte list \<Rightarrow> nat \<Rightarrow> nat \<Rightarrow> session res" where
  "hwinfo_loop s buf i 0 = Inr s"
| "hwinfo_loop s buf i (Suc k) = rbind (hw_entry s buf i) (\<lambda>s'. hwinfo_loop s' buf (Suc i) k)"

definition sr_handle_hwinfo :: "session \<Rightarrow> byte list \<Rightarrow> (int \<times> session) res" where
  "sr_handle_hwinfo s buf =
     rbind (rd32 buf 0) (\<lambda>raw.
       let num_entries = sint (of_int ((uint (ntohl raw) - 8) mod 2 ^ 64 div 36) :: 32 word) in
       rbind (hwinfo_loop s buf 0 (nat num_entries)) (\<lambda>s'. Inr (num_entries, s')))"

text \<open>
  \<^verbatim>\<open>fn\<close> has room for a name of \<^verbatim>\<open>IDSIZE\<close> characters; \<^verbatim>\<open>strcat\<close> copies up to the first NUL of
  the message.
\<close>

definition sr_handle_rtable :: "session \<Rightarrow> byte list \<Rightarrow> (int \<times> session) res" where
  "sr_handle_rtable s buf =
     rbind (cstring_at buf 8 (Suc (length buf))) (\<lambda>ident.
       if length ident > IDSIZE then Inl OutOfBounds
       else
         let fn = ''rtable.'' @ ident in
         if writable s fn then
           rbind (rd32 buf 0) (\<lambda>raw.
           rbind (rd_bytes buf 40 (unat (ntohl raw - 8 - 32))) (\<lambda>content.
             Inr (1, s\<lparr>files := (files s)(fn \<mapsto> content)\<rparr>)))
         else Inr (0, s))"

text \<open>\<^verbatim>\<open>fgets(buf, n, fp)\<close>: at most \<open>n - 1\<close> bytes, up to and including a newline.\<close>

definition fgets :: "nat \<Rightarrow> byte list \<Rightarrow> byte list \<times> byte list" where
  "fgets n content =
     (let t = take (n - 1) content; k = length (takeWhile (\<lambda>b. b \<noteq> 10) t);
          m = (if k < length t then Suc k else k) in (take m content, drop m content))"

definition sr_handle_auth_request :: "session \<Rightarrow> byte list \<Rightarrow> (int \<times> session) res" where
  "sr_handle_auth_request s buf =
     (case files s ''auth_key'' of
        None \<Rightarrow> Inr (0, s)
      | Some content \<Rightarrow>
          let line = fst (fgets (AUTH_KEY_LEN + 1) content) in
          if line = [] then Inr (0, s)
          else
            rbind (wr_bytes (junk_key s) 0 (line @ [0])) (\<lambda>auth_key.
            rbind (rd32 buf 0) (\<lambda>raw.
            rbind (SHA1Input (SHA1Reset (junk_sha s)) (drop 8 buf) (nat ((uint (ntohl raw) - 8) mod 2 ^ 32)))
              (\<lambda>sha_a.
            rbind (SHA1Input sha_a auth_key AUTH_KEY_LEN) (\<lambda>sha_b.
            rbind (SHA1Result sha_b) (\<lambda>(ok, sha_c).
              if ok = 0 then Inr (0, s)
              else if length (sr_user (router s)) \<ge> 32 then Inl OutOfBounds
              else
                let user = sr_user (router s); len_username = length user; len = sizeof_c_auth_reply + len_username + SHA1_LEN;
                    msg = enc_auth_reply \<lparr>mLen = htonl (of_nat len), mType = htonl VNS_AUTH_REPLY,
                        usernameLen = htonl (of_nat len_username)\<rparr> @ map of_char user @
                      concat (map (\<lambda>w. enc32 (htonl w)) (Message_Digest sha_c)) in
                case sock_send (router s) msg of (sent, sr') \<Rightarrow>
                  Inr (if sent then 1 else 0, upd_router s sr')))))))"

definition sr_handle_auth_status :: "session \<Rightarrow> byte list \<Rightarrow> (int \<times> session) res" where
  "sr_handle_auth_status s buf =
     rbind (rd_struct 9 dec_auth_status buf 0) (\<lambda>status.
       if auth_ok status \<noteq> 0 then Inr (uint (auth_ok status), s)
       else rbind (print_cstring buf 9) (\<lambda>_. Inr (0, s)))"

section \<open>Reading a command\<close>

text \<open>
  The two loops that collect a given number of bytes. \<open>None\<close>: the loop has not ended; otherwise the
  bytes, or no bytes after an error, and the calls that are left.
\<close>

fun recv_loop :: "recv_event list \<Rightarrow> nat \<Rightarrow> (byte list option \<times> recv_event list) option" where
  "recv_loop evs 0 = Some (Some [], evs)"
| "recv_loop [] (Suc n) = None"
| "recv_loop (Interrupted # evs) (Suc n) = recv_loop evs (Suc n)"
| "recv_loop (Failed # evs) (Suc n) = Some (None, evs)"
| "recv_loop (Bytes bs # evs) (Suc n) =
     (if Suc n < length bs then Some (Some (take (Suc n) bs), Bytes (drop (Suc n) bs) # evs)
      else
        case recv_loop evs (Suc n - length bs) of
          None \<Rightarrow> None
        | Some (None, evs') \<Rightarrow> Some (None, evs')
        | Some (Some rest, evs') \<Rightarrow> Some (Some (bs @ rest), evs'))"

definition failed_as :: "int \<Rightarrow> (int \<times> session) res \<Rightarrow> (int \<times> session) res" where
  "failed_as ret m = rbind m (\<lambda>(r, s). Inr (if r = 0 then - 1 else ret, s))"

text \<open>What follows once the whole command is in the buffer: the check of its type and the dispatch.\<close>

definition handle_command :: "session \<Rightarrow> byte list \<Rightarrow> u32 \<Rightarrow> (int \<times> session) res" where
  "handle_command s buf0 expected_cmd =
     rbind (rd32 buf0 4) (\<lambda>raw.
     let command = ntohl raw in
     rbind (wr_bytes buf0 4 (enc32 command)) (\<lambda>buf.
       if expected_cmd \<noteq> 0 \<and> command \<noteq> expected_cmd \<and> command \<noteq> VNSCLOSE then Inr (- 1, s)
       else if command = VNSPACKET then handle_vnspacket s buf
       else if command = VNSCLOSE then rbind (print_cstring buf sizeof_c_base) (\<lambda>_. Inr (0, s))
       else if command = VNSBANNER then rbind (print_cstring buf sizeof_c_base) (\<lambda>_. Inr (1, s))
       else if command = VNSHWINFO then
         rbind (sr_handle_hwinfo s buf) (\<lambda>(_, s').
           Inr (if sr_verify_routing_table (if_list (router s')) (routing_table (router s')) \<noteq> 0
                then - 1 else 1, s'))
       else if command = VNS_RTABLE then failed_as 1 (sr_handle_rtable s buf)
       else if command = VNS_AUTH_REQUEST then failed_as 1 (sr_handle_auth_request s buf)
       else if command = VNS_AUTH_STATUS then failed_as 1 (sr_handle_auth_status s buf)
       else Inr (1, s)))"

text \<open>
  The length field is stored into the freshly allocated buffer before the rest is read, which
  needs at least four bytes of it.
\<close>

definition sr_read_from_server_expect :: "session \<Rightarrow> u32 \<Rightarrow> (int \<times> session) res option" where
  "sr_read_from_server_expect s expected_cmd =
     (case recv_loop (inbox s) 4 of
        None \<Rightarrow> None
      | Some (None, evs) \<Rightarrow> Some (Inr (- 1, s\<lparr>inbox := evs\<rparr>))
      | Some (Some lenb, evs) \<Rightarrow>
          let len = sint (ntohl (dec32 lenb)) in
          if len > 10000 \<or> len < 0 then Some (Inr (- 1, s\<lparr>inbox := evs\<rparr>))
          else if len < 4 then Some (Inl OutOfBounds)
          else
            case recv_loop evs (nat (len - 4)) of
              None \<Rightarrow> None
            | Some (None, evs') \<Rightarrow> Some (Inr (- 1, s\<lparr>inbox := evs'\<rparr>))
            | Some (Some body, evs') \<Rightarrow>
                Some (handle_command (s\<lparr>inbox := evs'\<rparr>) (enc32 (htonl (of_int len)) @ body) expected_cmd))"

definition sr_read_from_server :: "session \<Rightarrow> (int \<times> session) res option" where
  "sr_read_from_server s = sr_read_from_server_expect s 0"


section \<open>Opening a session\<close>

text \<open>Sequencing of calls that may fault or not return.\<close>

definition obind :: "'a res option \<Rightarrow> ('a \<Rightarrow> 'b res option) \<Rightarrow> 'b res option" where
  "obind m f = (case m of None \<Rightarrow> None | Some (Inl e) \<Rightarrow> Some (Inl e) | Some (Inr x) \<Rightarrow> f x)"

lemma obind_simps [simp]:
  "obind None f = None" "obind (Some (Inl e)) f = Some (Inl e)" "obind (Some (Inr x)) f = f x"
  by (simp_all add: obind_def)

definition open_msg :: "sr_instance \<Rightarrow> byte list" where
  "open_msg sr = enc_open \<lparr>mLen = htonl 108, mType = htonl VNSOPEN, topoID = htons (sr_topo_id sr), open_pad = 0,
     open_mVirtualHostID = name_field (sr_host sr) IDSIZE, mUID = name_field (sr_user sr) IDSIZE,
     mPass = replicate IDSIZE 0\<rparr>"

definition open_template_msg :: "sr_instance \<Rightarrow> byte list" where
  "open_template_msg sr = enc_open_template \<lparr>mLen = htonl 70, mType = htonl VNS_OPEN_TEMPLATE,
     templateName = name_field (sr_template sr) 30, template_mVirtualHostID = name_field (sr_host sr) IDSIZE\<rparr>"

definition sr_connect_to_server :: "session \<Rightarrow> u16 \<Rightarrow> string \<Rightarrow> (int \<times> session) res option" where
  "sr_connect_to_server s port server =
     (if \<not> env_resolve s server then Some (Inr (- 1, s))
      else
        let s0 = upd_router s ((router s)\<lparr>sockfd := env_socket s\<rparr>) in
        if env_socket s < 0 then Some (Inr (- 1, s0))
        else if \<not> env_connect s server port then Some (Inr (- 1, s0))
        else
          obind (sr_read_from_server_expect s0 VNS_AUTH_REQUEST) (\<lambda>(r1, s1).
          if r1 \<noteq> 1 then Some (Inr (- 1, s1))
          else
            obind (sr_read_from_server_expect s1 VNS_AUTH_STATUS) (\<lambda>(r2, s2).
            if r2 \<noteq> 1 then Some (Inr (- 1, s2))
            else
              let templ = sr_template (router s2) \<noteq> [] in
              case sock_send (router s2) (if templ then open_template_msg (router s2) else open_msg (router s2)) of
                (sent, sr3) \<Rightarrow>
                  let s3 = upd_router s2 sr3 in
                  if \<not> sent then Some (Inr (- 1, s3))
                  else if templ then
                    obind (sr_read_from_server_expect s3 VNS_RTABLE) (\<lambda>(r4, s4).
                      Some (Inr (if r4 \<noteq> 1 then - 1 else 0, s4)))
                  else Some (Inr (0, s3)))))"

section \<open>The receive loop\<close>

text \<open>The bytes that the socket still delivers.\<close>

fun stream :: "recv_event list \<Rightarrow> byte list" where
  "stream [] = []"
| "stream (Bytes bs # evs) = bs @ stream evs"
| "stream (Interrupted # evs) = stream evs"
| "stream (Failed # evs) = stream evs"

lemma recv_loop_stream:
  assumes "Failed \<notin> set evs" "n \<le> length (stream evs)"
  shows "\<exists>evs'. recv_loop evs n = Some (Some (take n (stream evs)), evs') \<and>
    stream evs' = drop n (stream evs) \<and> Failed \<notin> set evs'"
  using assms
proof (induction evs n rule: recv_loop.induct)
  case (5 bs evs n)
  show ?case
  proof (cases "Suc n < length bs")
    case False
    with 5(3) have le: "Suc n - length bs \<le> length (stream evs)" by simp
    from 5(1) [OF False _ le] 5(2) obtain evs' where "recv_loop evs (Suc n - length bs) =
        Some (Some (take (Suc n - length bs) (stream evs)), evs')"
      "stream evs' = drop (Suc n - length bs) (stream evs)" "Failed \<notin> set evs'" by auto
    with False show ?thesis by simp
  qed (use 5 in auto)
qed auto

lemma recv_loop_eof: "recv_loop (replicate k (Bytes [])) (Suc n) = None"
  by (induction k) simp_all

definition vns_msg :: "u32 \<Rightarrow> byte list \<Rightarrow> byte list" where
  "vns_msg cmd payload = enc32 (htonl (of_nat (8 + length payload))) @ enc32 (htonl cmd) @ payload"

definition vns_stored :: "u32 \<Rightarrow> byte list \<Rightarrow> byte list" where
  "vns_stored cmd payload = enc32 (htonl (of_nat (8 + length payload))) @ enc32 cmd @ payload"

lemma length_vns_stored [simp]: "length (vns_stored cmd payload) = 8 + length payload"
  by (simp add: vns_stored_def)

lemma sint_small: "n < 2 ^ 31 \<Longrightarrow> sint (of_nat n :: u32) = int n"
proof -
  assume n: "n < 2 ^ 31"
  then have "uint (of_nat n :: u32) = int n" by (simp add: uint_nat unat_of_nat)
  with n show ?thesis by (simp add: sint_uint signed_take_bit_int_eq_self)
qed

lemma read_message:
  assumes "Failed \<notin> set (inbox s)" "stream (inbox s) = vns_msg cmd payload @ rest" "length payload \<le> 9992"
  shows "\<exists>evs'. sr_read_from_server_expect s expected =
      Some (handle_command (s\<lparr>inbox := evs'\<rparr>) (vns_msg cmd payload) expected) \<and>
    stream evs' = rest \<and> Failed \<notin> set evs'"
proof -
  let ?len = "8 + length payload"
  let ?body = "enc32 (htonl cmd) @ payload"
  have msg: "stream (inbox s) = enc32 (htonl (of_nat ?len)) @ ?body @ rest"
    using assms(2) by (simp add: vns_msg_def)
  from recv_loop_stream [OF assms(1), of 4] obtain evs1
    where r1: "recv_loop (inbox s) 4 = Some (Some (enc32 (htonl (of_nat ?len))), evs1)"
      "stream evs1 = ?body @ rest" "Failed \<notin> set evs1"
    unfolding msg by auto
  from recv_loop_stream [OF r1(3), of "4 + length payload"] obtain evs2
    where r2: "recv_loop evs1 (4 + length payload) = Some (Some ?body, evs2)"
      "stream evs2 = rest" "Failed \<notin> set evs2"
    unfolding r1(2) by auto
  have len: "sint (of_nat ?len :: u32) = int ?len"
    using assms(3) by (intro sint_small)  simp
  show ?thesis
    using r1(1) r2 assms(3) len
    by (intro exI [of _ evs2]) (simp add: sr_read_from_server_expect_def Let_def vns_msg_def nat_add_distrib)
qed


lemma rd32_append [simp]: "length as = i \<Longrightarrow> rd32 (as @ enc32 w @ bs) i = Inr w"
  by (simp add: rd32_def mslice_at_append)

lemma rd32_length_field [simp]:
  "rd32 (vns_stored cmd payload) 0 = Inr (htonl (of_nat (8 + length payload)))"
  unfolding vns_stored_def by (rule rd32_append [of "[]", simplified]) simp

lemma handle_command_msg:
  "handle_command s (vns_msg cmd payload) expected =
     (let buf = vns_stored cmd payload in
      if expected \<noteq> 0 \<and> cmd \<noteq> expected \<and> cmd \<noteq> VNSCLOSE then Inr (- 1, s)
      else if cmd = VNSPACKET then handle_vnspacket s buf
      else if cmd = VNSCLOSE then rbind (print_cstring buf 8) (\<lambda>_. Inr (0, s))
      else if cmd = VNSBANNER then rbind (print_cstring buf 8) (\<lambda>_. Inr (1, s))
      else if cmd = VNSHWINFO then
        rbind (sr_handle_hwinfo s buf) (\<lambda>(_, s').
          Inr (if sr_verify_routing_table (if_list (router s')) (routing_table (router s')) \<noteq> 0
               then - 1 else 1, s'))
      else if cmd = VNS_RTABLE then failed_as 1 (sr_handle_rtable s buf)
      else if cmd = VNS_AUTH_REQUEST then failed_as 1 (sr_handle_auth_request s buf)
      else if cmd = VNS_AUTH_STATUS then failed_as 1 (sr_handle_auth_status s buf)
      else Inr (1, s))"
proof -
  let ?l = "enc32 (htonl (of_nat (8 + length payload)))"
  have "rd32 (vns_msg cmd payload) 4 = Inr (htonl cmd)"
    unfolding vns_msg_def by (rule rd32_append) simp
  moreover have "wr_bytes (vns_msg cmd payload) 4 (enc32 cmd) = Inr (vns_stored cmd payload)"
    using msplice_at_append [of 4 ?l "enc32 cmd" "enc32 (htonl cmd)" payload]
    by (simp add: vns_msg_def vns_stored_def)
  ultimately show ?thesis by (simp add: handle_command_def Let_def)
qed

section \<open>Handlers and the input\<close>

text \<open>No handler looks at the input that follows its command.\<close>

definition with_inbox :: "recv_event list \<Rightarrow> (int \<times> session) res \<Rightarrow> (int \<times> session) res" where
  "with_inbox evs m = rbind m (\<lambda>(r, s). Inr (r, s\<lparr>inbox := evs\<rparr>))"

lemma with_inbox_simps [simp]:
  "with_inbox evs (Inl e) = Inl e" "with_inbox evs (Inr (r, s)) = Inr (r, s\<lparr>inbox := evs\<rparr>)"
  by (simp_all add: with_inbox_def)

lemma with_inbox_rbind: "with_inbox evs (rbind m f) = rbind m (\<lambda>x. with_inbox evs (f x))"
  by (cases m) simp_all

lemma hw_entry_inbox:
  "hw_entry (s\<lparr>inbox := evs\<rparr>) buf i = rbind (hw_entry s buf i) (\<lambda>s'. Inr (s'\<lparr>inbox := evs\<rparr>))"
  by (simp add: hw_entry_def Let_def rbind_def split: sum.split)

lemma hwinfo_loop_inbox:
  "hwinfo_loop (s\<lparr>inbox := evs\<rparr>) buf i k =
     rbind (hwinfo_loop s buf i k) (\<lambda>s'. Inr (s'\<lparr>inbox := evs\<rparr>))"
  by (induction s buf i k rule: hwinfo_loop.induct)
    (simp_all add: hw_entry_inbox rbind_assoc cong: rbind_cong)

text \<open>
  This is what the read function relies on when it hands a command to a handler: the result does not depend on
  the input behind the command, and that input is still there afterwards.
\<close>

locale command_handler =
  fixes handle :: "session \<Rightarrow> byte list \<Rightarrow> (int \<times> session) res"
  assumes inbox_irrelevant: "handle (s\<lparr>inbox := evs\<rparr>) buf = with_inbox evs (handle s buf)"
begin

lemma keeps_inbox: "handle s buf = Inr (r, s') \<Longrightarrow> inbox s' = inbox s"
  using inbox_irrelevant [of "inbox s" s buf] by (cases s') simp

lemma failed_as_irrelevant: "failed_as k (handle (s\<lparr>inbox := evs\<rparr>) buf) = with_inbox evs (failed_as k (handle s buf))"
  by (simp add: inbox_irrelevant) (simp add: failed_as_def with_inbox_def rbind_def split: sum.split)

end

interpretation vnspacket: command_handler handle_vnspacket
  by unfold_locales (simp add: handle_vnspacket_def Let_def with_inbox_def rbind_def split: sum.split)

interpretation hwinfo: command_handler sr_handle_hwinfo
  by unfold_locales
    (simp add: sr_handle_hwinfo_def hwinfo_loop_inbox with_inbox_rbind rbind_assoc Let_def)

interpretation rtable: command_handler sr_handle_rtable
  by unfold_locales (simp add: sr_handle_rtable_def Let_def with_inbox_def rbind_def split: sum.split)

interpretation auth_request: command_handler sr_handle_auth_request
  by unfold_locales
    (simp add: sr_handle_auth_request_def Let_def with_inbox_def rbind_def sock_send_def
      split: sum.split option.split)

interpretation auth_status: command_handler sr_handle_auth_status
  by unfold_locales (simp add: sr_handle_auth_status_def with_inbox_rbind if_distrib cong: if_cong)

lemmas handler_inbox = vnspacket.inbox_irrelevant hwinfo.inbox_irrelevant rtable.failed_as_irrelevant
  auth_request.failed_as_irrelevant auth_status.failed_as_irrelevant

lemma handle_command_inbox:
  "handle_command (s\<lparr>inbox := evs\<rparr>) buf expected = with_inbox evs (handle_command s buf expected)"
proof -
  have hw: "rbind (with_inbox evs m) (\<lambda>(_, s'). Inr (if sr_verify_routing_table (if_list (router s'))
        (routing_table (router s')) \<noteq> 0 then - 1 else 1, s')) =
      with_inbox evs (rbind m (\<lambda>(_, s'). Inr (if sr_verify_routing_table (if_list (router s'))
        (routing_table (router s')) \<noteq> 0 then - 1 else 1, s')))" for m
    by (cases m) (auto simp: with_inbox_def)
  show ?thesis
    by (simp add: handle_command_def Let_def handler_inbox hw with_inbox_rbind if_distrib [of "with_inbox evs"]
        cong: if_cong)
qed

interpretation dispatch: command_handler "\<lambda>s buf. handle_command s buf expected" for expected
  by unfold_locales (rule handle_command_inbox)

section \<open>The main loop\<close>

text \<open>
  \<^verbatim>\<open>while (sr_read_from_server(&sr) == 1);\<close> of \<^verbatim>\<open>main\<close>. Every command takes something from the input,
  so the loop ends or waits for more.
\<close>

fun event_size :: "recv_event \<Rightarrow> nat" where
  "event_size (Bytes bs) = Suc (length bs)"
| "event_size _ = 1"

definition inbox_size :: "recv_event list \<Rightarrow> nat" where
  "inbox_size evs = sum_list (map event_size evs)"

lemma recv_loop_size:
  "recv_loop evs n = Some (r, evs') \<Longrightarrow> inbox_size evs' \<le> inbox_size evs \<and>
     (0 < n \<longrightarrow> inbox_size evs' < inbox_size evs)"
  by (induction evs n arbitrary: r evs' rule: recv_loop.induct)
    (fastforce simp: inbox_size_def split: if_splits option.splits)+

lemma read_size:
  assumes "sr_read_from_server s = Some (Inr (r, s'))"
  shows "inbox_size (inbox s') < inbox_size (inbox s)"
  using assms
  by (auto simp: sr_read_from_server_def sr_read_from_server_expect_def Let_def
      split: option.splits prod.splits if_splits
      dest!: recv_loop_size dispatch.keeps_inbox)

function serve :: "session \<Rightarrow> (int \<times> session) res option" where
  "serve s =
     (case sr_read_from_server s of
        None \<Rightarrow> None
      | Some (Inl e) \<Rightarrow> Some (Inl e)
      | Some (Inr (r, s')) \<Rightarrow> if r = 1 then serve s' else Some (Inr (r, s')))"
  by pat_completeness auto
termination
  by (relation "measure (\<lambda>s. inbox_size (inbox s))") (auto simp: read_size)

declare serve.simps [simp del]

end
