(* ===== verification/VnsSession.thy ===== *)
theory VnsSession
  imports System VnsComm
begin

text \<open>
  What the receiving side of the VNS client guarantees: the framing of the byte stream into
  commands, the order in which the main loop handles them, what each handler does with a well-formed
  command, and what happens on malformed ones.
\<close>

section \<open>Framing\<close>

lemma recv_loop_short:
  "Failed \<notin> set evs \<Longrightarrow> length (stream evs) < n \<Longrightarrow> recv_loop evs n = None"
  by (induction evs n rule: recv_loop.induct) auto

fun run_msgs :: "session \<Rightarrow> (u32 \<times> byte list) list \<Rightarrow> (int \<times> session) res" where
  "run_msgs s [] = Inr (1, s)"
| "run_msgs s ((cmd, payload) # ms) =
     rbind (handle_command s (vns_msg cmd payload) 0) (\<lambda>(r, s').
       if r = 1 then run_msgs s' ms else Inr (r, s'))"

definition msgs :: "(u32 \<times> byte list) list \<Rightarrow> byte list" where
  "msgs ms = concat (map (\<lambda>(cmd, payload). vns_msg cmd payload) ms)"

lemma msgs_simps [simp]: "msgs [] = []" "msgs ((cmd, payload) # ms) = vns_msg cmd payload @ msgs ms"
  by (simp_all add: msgs_def)

lemma run_msgs_inbox: "run_msgs (s\<lparr>inbox := evs\<rparr>) ms = with_inbox evs (run_msgs s ms)"
proof (induction s ms rule: run_msgs.induct)
  case (2 s cmd payload ms)
  then show ?case
    by (cases "handle_command s (vns_msg cmd payload) 0") (auto simp: handle_command_inbox)
qed simp

lemma serve_msgs:
  assumes "Failed \<notin> set (inbox s)" "stream (inbox s) = msgs ms @ rest"
    "\<forall>(cmd, payload) \<in> set ms. length payload \<le> 9992" "run_msgs s ms = Inr (1, s')"
  shows "\<exists>evs. serve s = serve (s'\<lparr>inbox := evs\<rparr>) \<and> stream evs = rest \<and> Failed \<notin> set evs"
  using assms
proof (induction ms arbitrary: s s')
  case Nil
  then show ?case by (intro exI [of _ "inbox s"]) auto
next
  case (Cons m ms)
  obtain cmd payload where m: "m = (cmd, payload)" by (cases m)
  have "stream (inbox s) = vns_msg cmd payload @ (msgs ms @ rest)" "length payload \<le> 9992"
    using Cons.prems(2,3) m by auto
  from read_message [OF Cons.prems(1) this] obtain evs1
    where r: "sr_read_from_server s = Some (handle_command (s\<lparr>inbox := evs1\<rparr>) (vns_msg cmd payload) 0)"
      and evs1: "stream evs1 = msgs ms @ rest" "Failed \<notin> set evs1"
    by (auto simp: sr_read_from_server_def)
  from Cons.prems(4) m obtain s1 where h: "handle_command s (vns_msg cmd payload) 0 = Inr (1, s1)"
    and run: "run_msgs s1 ms = Inr (1, s')"
    by (auto simp: rbind_eq_Inr split: if_splits)
  have "serve s = serve (s1\<lparr>inbox := evs1\<rparr>)"
    by (subst serve.simps) (simp add: r handle_command_inbox h)
  moreover have "run_msgs (s1\<lparr>inbox := evs1\<rparr>) ms = Inr (1, s'\<lparr>inbox := evs1\<rparr>)"
    by (simp add: run_msgs_inbox run)
  ultimately show ?case
    using Cons.IH [of "s1\<lparr>inbox := evs1\<rparr>" "s'\<lparr>inbox := evs1\<rparr>"] Cons.prems(3) evs1 by auto
qed


section \<open>Names in messages\<close>

definition c_name :: "string \<Rightarrow> bool" where
  "c_name n \<longleftrightarrow> CHR 0x00 \<notin> set n"

lemma takeWhile_name_field:
  assumes "c_name n" "length n \<le> k"
  shows "map (\<lambda>b. char_of (unat b)) (takeWhile (\<lambda>b. b \<noteq> 0) (name_field n k)) = n"
proof -
  have "takeWhile (\<lambda>b. b \<noteq> 0) (map of_char n @ replicate (k - length n) (0 :: byte)) = map of_char n"
    using assms(1) by (subst takeWhile_append2) (auto simp: c_name_def of_char_eq_0 takeWhile_replicate)
  then show ?thesis using assms(2) by (simp add: name_field_def strncpy_def comp_def)
qed

lemma cstring_name_field:
  assumes "c_name n" "length n < k" "length pre = off"
  shows "cstring_at (pre @ name_field n k @ rest) off limit = Inr n"
proof -
  have *: "takeWhile (\<lambda>b. b \<noteq> 0) (name_field n k @ rest) = map of_char n"
  proof -
    have "name_field n k @ rest = map of_char n @ 0 # (replicate (k - length n - 1) 0 @ rest)"
      using assms(2) by (simp add: name_field_def strncpy_def) (metis Suc_diff_Suc replicate_Suc append_Cons)
    then show ?thesis
      using assms(1) by (simp only:) (subst takeWhile_append2, auto simp: c_name_def of_char_eq_0)
  qed
  then show ?thesis
    using assms(2,3) by (simp add: cstring_at_def Let_def comp_def)
qed


section \<open>Packets from the server\<close>

lemma vns_frame_msg: "vns_frame n frame = vns_msg VNSPACKET (name_field n 16 @ frame)"
  by (simp add: vns_frame_def vns_msg_def enc_packet_header_def add.commute)

lemma handle_vnspacket_eq:
  assumes "c_name n" "length n < 16" "length frame \<le> 9976"
  shows "handle_vnspacket s (vns_stored VNSPACKET (name_field n 16 @ frame)) =
    rbind (sr_arp_req_not_for_us (router s) frame (length frame) n) (\<lambda>skip.
      if skip then Inr (1, s)
      else rbind (sr_log_packet (router s) frame (length frame)) (\<lambda>sr1.
        rbind (sr_handlepacket sr1 frame (length frame) n) (\<lambda>sr2. Inr (1, upd_router s sr2))))"
proof -
  let ?pre = "enc32 (htonl (of_nat (24 + length frame))) @ enc32 VNSPACKET"
  have buf: "vns_stored VNSPACKET (name_field n 16 @ frame) = ?pre @ name_field n 16 @ frame"
    by (simp add: vns_stored_def)
  have "interface_name ifs (?pre @ name_field n 16 @ frame) = Inr n" for ifs
    using assms(1,2) by (intro interface_name_cstring cstring_name_field) simp_all
  moreover have "nat ((int (24 + length frame) - 38 + 14) mod 2 ^ 32) = length frame"
    using assms(3) by simp
  moreover have "drop 24 (?pre @ name_field n 16 @ frame) = frame" by simp
  ultimately show ?thesis
    unfolding handle_vnspacket_def buf by (simp add: Let_def)
qed

text \<open>A frame that the client drops: an ARP request for an address that is not the receiving interface's.\<close>

definition arp_for_other :: "sr_if \<Rightarrow> byte list \<Rightarrow> bool" where
  "arp_for_other iface frame \<longleftrightarrow> ether_type (dec_eth (mslice frame 0 14)) = htons ethertype_arp \<and>
     ar_op (dec_arp (mslice frame 14 28)) = htons arp_op_request \<and>
     ar_tip (dec_arp (mslice frame 14 28)) \<noteq> if_ip iface"

lemma arp_filter_eq:
  assumes "sr_get_interface (if_list sr) n = Some iface" "42 \<le> length frame"
  shows "sr_arp_req_not_for_us sr frame (length frame) n = Inr (arp_for_other iface frame)"
  using assms by (simp add: sr_arp_req_not_for_us_def arp_for_other_def)

text \<open>What the client makes of one frame.\<close>

definition frame_result :: "sr_instance \<Rightarrow> byte list \<Rightarrow> string \<Rightarrow> sr_instance res" where
  "frame_result sr frame n =
     (case sr_get_interface (if_list sr) n of
        None \<Rightarrow> Inl AssertFail
      | Some iface \<Rightarrow>
          if arp_for_other iface frame then Inr sr
          else sr_handlepacket (log_frame sr frame) frame (length frame) n)"

lemma read_vnspacket:
  assumes "Failed \<notin> set (inbox s)" "stream (inbox s) = vns_frame n frame @ rest"
    "c_name n" "length n < 16" "42 \<le> length frame" "length frame \<le> 9976"
    "sr_get_interface (if_list (router s)) n = Some iface" "frame_result (router s) frame n = Inr sr'"
  shows "\<exists>evs. sr_read_from_server s = Some (Inr (1, s\<lparr>router := sr', inbox := evs\<rparr>)) \<and>
    stream evs = rest \<and> Failed \<notin> set evs"
proof -
  have "length (name_field n 16 @ frame) \<le> 9992" using assms(6) by simp
  from read_message [OF assms(1) _ this, of VNSPACKET rest 0] assms(2)
  obtain evs where r: "sr_read_from_server s =
      Some (handle_command (s\<lparr>inbox := evs\<rparr>) (vns_msg VNSPACKET (name_field n 16 @ frame)) 0)"
    "stream evs = rest" "Failed \<notin> set evs"
    by (auto simp: vns_frame_msg sr_read_from_server_def)
  have "handle_command s (vns_msg VNSPACKET (name_field n 16 @ frame)) 0 = Inr (1, upd_router s sr')"
    using assms(7,8)
    by (auto simp: handle_command_msg Let_def handle_vnspacket_eq [OF assms(3,4,6)] frame_result_def
        arp_filter_eq [OF assms(7,5)] sr_log_packet_ok split: if_splits)
  with r show ?thesis by (intro exI [of _ evs]) (simp add: handle_command_inbox)
qed


section \<open>A session of packets\<close>

fun frames_result :: "sr_instance \<Rightarrow> (string \<times> byte list) list \<Rightarrow> sr_instance res" where
  "frames_result sr [] = Inr sr"
| "frames_result sr ((n, frame) # fs) = rbind (frame_result sr frame n) (\<lambda>sr'. frames_result sr' fs)"

text \<open>Frames as the server sends them: the interface exists, the name is a C string that fits its field.\<close>

definition servable :: "sr_instance \<Rightarrow> string \<times> byte list \<Rightarrow> bool" where
  "servable sr nf \<longleftrightarrow> (case nf of (n, frame) \<Rightarrow>
     c_name n \<and> length n < 16 \<and> length frame \<le> 9976 \<and> deliverable sr frame n)"

lemma servable_config: "same_config sr sr' \<Longrightarrow> servable sr' = servable sr"
  by (auto simp: servable_def deliverable_def same_config_def fun_eq_iff)

lemma frame_result_ok:
  assumes "sr_wf sr" "servable sr (n, frame)"
  shows "\<exists>sr'. frame_result sr frame n = Inr sr' \<and> sr_wf sr' \<and> same_config sr sr' \<and> emits sr sr'"
proof -
  from assms(2) obtain iface where i: "sr_get_interface (if_list sr) n = Some iface"
    by (auto simp: servable_def deliverable_def)
  show ?thesis
  proof (cases "arp_for_other iface frame")
    case False
    let ?sr1 = "log_frame sr frame"
    have wf: "sr_wf ?sr1" using assms(1) by (simp add: sr_wf_def)
    have adm: "admissible ?sr1 (Packet frame n)"
      using assms(2) by (simp add: servable_def deliverable_def)
    from keepsD [OF event_keeps [OF wf adm]] obtain sr'
      where h: "handle_event ?sr1 (Packet frame n) = Inr sr'" "sr_wf sr'" "same_config ?sr1 sr'" by blast
    moreover have "emits ?sr1 sr'" using event_emits [OF wf adm h(1)] .
    ultimately show ?thesis using False i by (auto simp: frame_result_def same_config_def emits_def)
  qed (use assms i in \<open>simp add: frame_result_def\<close>)
qed

lemma frames_result_ok:
  assumes "sr_wf sr" "list_all (servable sr) fs"
  shows "\<exists>sr'. frames_result sr fs = Inr sr' \<and> sr_wf sr' \<and> same_config sr sr' \<and> emits sr sr'"
  using assms
proof (induction fs arbitrary: sr)
  case (Cons nf fs)
  obtain n frame where nf: "nf = (n, frame)" by (cases nf)
  with Cons.prems obtain sr1 where r: "frame_result sr frame n = Inr sr1" "sr_wf sr1" "same_config sr sr1"
      "emits sr sr1"
    using frame_result_ok [of sr n frame] by auto
  from Cons.IH [OF r(2)] Cons.prems(2) servable_config [OF r(3)]
  obtain sr' where "frames_result sr1 fs = Inr sr'" "sr_wf sr'" "same_config sr1 sr'" "emits sr1 sr'" by auto
  with r nf show ?case using same_config_trans emits_trans by auto
qed simp

lemma run_msgs_frames:
  assumes "list_all (servable (router s)) fs" "sr_wf (router s)" "frames_result (router s) fs = Inr sr'"
  shows "run_msgs s (map (\<lambda>(n, frame). (VNSPACKET, name_field n 16 @ frame)) fs) = Inr (1, upd_router s sr')"
  using assms
proof (induction fs arbitrary: s)
  case (Cons nf fs)
  obtain n frame where nf: "nf = (n, frame)" by (cases nf)
  with Cons.prems have sv: "servable (router s) (n, frame)" by simp
  with Cons.prems(2) obtain sr1 where r: "frame_result (router s) frame n = Inr sr1" "sr_wf sr1"
      "same_config (router s) sr1"
    using frame_result_ok by blast
  from sv obtain iface where i: "sr_get_interface (if_list (router s)) n = Some iface" "42 \<le> length frame"
    by (auto simp: servable_def deliverable_def)
  have "handle_command s (vns_msg VNSPACKET (name_field n 16 @ frame)) 0 = Inr (1, upd_router s sr1)"
    using sv r(1) i
    by (auto simp: handle_command_msg Let_def handle_vnspacket_eq servable_def frame_result_def
        arp_filter_eq [OF i] sr_log_packet_ok split: if_splits)
  moreover have "run_msgs (upd_router s sr1) (map (\<lambda>(n, frame). (VNSPACKET, name_field n 16 @ frame)) fs) =
      Inr (1, upd_router s sr')"
    using Cons.IH [of "upd_router s sr1"] Cons.prems r nf servable_config [OF r(3)] by simp
  ultimately show ?case by (simp add: nf)
qed simp

text \<open>A terminated text that fits into a command.\<close>

definition c_text :: "byte list \<Rightarrow> bool" where
  "c_text t \<longleftrightarrow> 0 \<in> set t \<and> length t \<le> 9992"

lemma c_text_nul [simp]: "c_text [0]"
  by (simp add: c_text_def)

lemma print_stored [simp]: "c_text t \<Longrightarrow> print_cstring (vns_stored cmd t) 8 = Inr ()"
  by (rule print_cstring_ok) (simp add: c_text_def vns_stored_def)

lemma serve_close:
  assumes "Failed \<notin> set (inbox s)" "stream (inbox s) = vns_msg VNSCLOSE why @ rest" "c_text why"
  shows "\<exists>evs. serve s = Some (Inr (0, s\<lparr>inbox := evs\<rparr>)) \<and> stream evs = rest"
proof -
  have "handle_command t (vns_msg VNSCLOSE why) 0 = Inr (0, t)" for t
    using assms(3) by (simp add: handle_command_msg vns_consts)
  with read_message [OF assms(1,2), of 0] assms(3) show ?thesis
    by (subst serve.simps) (auto simp: sr_read_from_server_def c_text_def)
qed

lemma serve_then_close:
  assumes "Failed \<notin> set (inbox s)" and "stream (inbox s) = msgs ms @ vns_msg VNSCLOSE why @ rest"
    and "\<forall>(cmd, payload) \<in> set ms. length payload \<le> 9992" and "c_text why"
    and "run_msgs s ms = Inr (1, s')"
  shows "\<exists>evs. serve s = Some (Inr (0, s'\<lparr>inbox := evs\<rparr>)) \<and> stream evs = rest"
proof -
  from serve_msgs [OF assms(1-3,5)] obtain evs
    where "serve s = serve (s'\<lparr>inbox := evs\<rparr>)" "stream evs = vns_msg VNSCLOSE why @ rest" "Failed \<notin> set evs"
    by blast
  with serve_close [of "s'\<lparr>inbox := evs\<rparr>" why rest] assms(4) show ?thesis by auto
qed

section \<open>Properties of the main loop\<close>

text \<open>
  Claim C11: the main loop handles the commands of the server in order and ends. Whatever way the
  network cuts the byte stream into pieces, and however often a signal interrupts a read, if the
  stream is a sequence of commands (of at most 10000 bytes) that are all handled successfully, then a
  close command with a terminated text, the loop returns 0 in the state that handling these commands one after the other
  leads to, and exactly the bytes behind the close command are left unread.
\<close>

theorem serve_in_order:
  assumes "Failed \<notin> set (inbox s)" and "stream (inbox s) = msgs ms @ vns_msg VNSCLOSE why @ rest"
    and "\<forall>(cmd, payload) \<in> set ms. length payload \<le> 9992" and "c_text why"
    and "run_msgs s ms = Inr (1, s')"
  shows "\<exists>evs. serve s = Some (Inr (0, s'\<lparr>inbox := evs\<rparr>)) \<and> stream evs = rest"
  using assms by (rule serve_then_close)

text \<open>
  A whole session is safe. From a well-formed router, for every list of servable frames
  that the server sends, in any segmentation, followed by a close command, the main loop handles
  every frame without a fault and returns 0; the router is then well-formed, its interfaces and routes are
  unchanged, and everything written during the session is a packet message for an existing interface
  with that interface's MAC as its Ethernet source.
\<close>

theorem session_served:
  assumes "sr_wf (router s)" and "list_all (servable (router s)) fs" and "Failed \<notin> set (inbox s)"
    and "stream (inbox s) = concat (map (\<lambda>(n, frame). vns_frame n frame) fs) @ vns_msg VNSCLOSE why @ rest"
    and "c_text why"
  shows "\<exists>sr' evs ms. serve s = Some (Inr (0, s\<lparr>router := sr', inbox := evs\<rparr>)) \<and> stream evs = rest \<and>
    frames_result (router s) fs = Inr sr' \<and> sr_wf sr' \<and> same_config (router s) sr' \<and>
    wire sr' = wire (router s) @ ms \<and> list_all (sent_ok (if_list (router s))) ms"
proof -
  let ?ms = "map (\<lambda>(n, frame). (VNSPACKET, name_field n 16 @ frame)) fs"
  from frames_result_ok [OF assms(1,2)] obtain sr'
    where f: "frames_result (router s) fs = Inr sr'" "sr_wf sr'" "same_config (router s) sr'" "emits (router s) sr'"
    by blast
  have "concat (map (\<lambda>(n, frame). vns_frame n frame) fs) = msgs ?ms"
    by (simp add: msgs_def vns_frame_msg comp_def case_prod_unfold)
  moreover have "\<forall>(cmd, payload) \<in> set ?ms. length payload \<le> 9992"
    using assms(2) by (auto simp: list_all_iff servable_def)
  ultimately obtain evs where "serve s = Some (Inr (0, (upd_router s sr')\<lparr>inbox := evs\<rparr>))" "stream evs = rest"
    using serve_then_close [OF assms(3) _ _ assms(5) run_msgs_frames [OF assms(2,1) f(1)]] assms(4) by auto
  with f show ?thesis by (auto simp: emits_def)
qed


section \<open>Malformed input\<close>

lemma stream_append [simp]: "stream (a @ b) = stream a @ stream b"
  by (induction a rule: stream.induct) simp_all

lemma stream_eof [simp]: "stream (replicate k (Bytes [])) = []"
  by (induction k) simp_all

text \<open>The bytes of a command that is not complete.\<close>

definition incomplete :: "byte list \<Rightarrow> bool" where
  "incomplete xs \<longleftrightarrow> length xs < 4 \<or>
     (\<exists>len \<in> {4..10000}. take 4 xs = enc32 (htonl (of_nat len)) \<and> length xs < len)"

lemma read_incomplete:
  assumes "Failed \<notin> set (inbox s)" "incomplete (stream (inbox s))"
  shows "sr_read_from_server_expect s expected = None"
proof (cases "length (stream (inbox s)) < 4")
  case True
  with assms(1) show ?thesis by (simp add: sr_read_from_server_expect_def recv_loop_short)
next
  case False
  with assms(2) obtain len where len: "4 \<le> len" "len \<le> 10000" "length (stream (inbox s)) < len"
      "take 4 (stream (inbox s)) = enc32 (htonl (of_nat len))"
    by (auto simp: incomplete_def)
  from False have "4 \<le> length (stream (inbox s))" by simp
  from recv_loop_stream [OF assms(1) this] obtain evs
    where r: "recv_loop (inbox s) 4 = Some (Some (enc32 (htonl (of_nat len))), evs)"
      "stream evs = drop 4 (stream (inbox s))" "Failed \<notin> set evs"
    unfolding len(4) by blast
  have "length (stream evs) < len - 4" using r(2) len(1,3) False by simp
  then have "recv_loop evs (nat (int len - 4)) = None"
    using r(3) len(1) by (simp add: recv_loop_short nat_diff_distrib)
  moreover have "sint (of_nat len :: u32) = int len" using len(2) by (intro sint_small) simp
  ultimately show ?thesis using r(1) len(1,2) by (simp add: sr_read_from_server_expect_def Let_def)
qed

text \<open>
  A command whose length field leaves no room for the command header, and a packet command without
  room for the interface name.
\<close>

definition runt :: "byte list \<Rightarrow> bool" where
  "runt xs \<longleftrightarrow> (\<exists>len < 8. take 4 xs = enc32 (htonl (of_nat len)) \<and> max 4 len \<le> length xs) \<or>
     (\<exists>payload rest. xs = vns_msg VNSPACKET payload @ rest \<and> length payload < 16)"

lemma handle_short_vnspacket:
  assumes "length payload < 16"
  shows "\<exists>e. handle_command s (vns_msg VNSPACKET payload) 0 = Inl e"
proof -
  let ?buf = "vns_stored VNSPACKET payload"
  let ?plen = "nat ((int (length ?buf) - 38 + 14) mod 2 ^ 32)"
  have d: "drop 24 ?buf = []" using assms by simp
  have "(int (length ?buf) - 38 + 14) mod 2 ^ 32 = (int (length ?buf) - 38 + 14 + 2 ^ 32) mod 2 ^ 32"
    by (rule mod_add_self2 [symmetric])
  also have "\<dots> = int (length ?buf) - 38 + 14 + 2 ^ 32"
    using assms by (intro mod_pos_pos_trivial) simp_all
  finally have "42 \<le> ?plen" by simp
  then have "\<exists>e. sr_arp_req_not_for_us (router s) [] ?plen n = Inl e" for n
    by (auto simp: sr_arp_req_not_for_us_def split: option.split)
  then have f: "\<exists>e. rbind (sr_arp_req_not_for_us (router s) [] ?plen n) f = Inl e"
    for n and f :: "bool \<Rightarrow> (int \<times> session) res"
    by (metis rbind_simps(1))
  have "\<exists>e. handle_vnspacket s ?buf = Inl e"
    unfolding handle_vnspacket_def d Let_def of_nat_numeral
    by (cases "interface_name (if_list (router s)) ?buf") (simp_all only: rbind_simps f, blast)
  then show ?thesis by (simp add: handle_command_msg vns_consts)
qed

lemma read_runt:
  assumes "Failed \<notin> set (inbox s)" "runt (stream (inbox s))"
  shows "\<exists>e. sr_read_from_server s = Some (Inl e)"
  using assms(2) unfolding runt_def
proof
  assume "\<exists>payload rest. stream (inbox s) = vns_msg VNSPACKET payload @ rest \<and> length payload < 16"
  then obtain payload rest where p: "stream (inbox s) = vns_msg VNSPACKET payload @ rest" "length payload < 16"
    by blast
  then have "length payload \<le> 9992" by simp
  from read_message [OF assms(1) p(1) this, of 0] handle_short_vnspacket [OF p(2)] show ?thesis
    by (auto simp: sr_read_from_server_def)
next
  assume "\<exists>len < 8. take 4 (stream (inbox s)) = enc32 (htonl (of_nat len)) \<and> max 4 len \<le> length (stream (inbox s))"
  then obtain len where len: "len < 8" "take 4 (stream (inbox s)) = enc32 (htonl (of_nat len))"
      "4 \<le> length (stream (inbox s))" "len \<le> length (stream (inbox s))" by auto
  from recv_loop_stream [OF assms(1) len(3)] obtain evs
    where r: "recv_loop (inbox s) 4 = Some (Some (enc32 (htonl (of_nat len))), evs)"
      "stream evs = drop 4 (stream (inbox s))" "Failed \<notin> set evs"
    unfolding len(2) by blast
  have n: "sint (of_nat len :: u32) = int len" using len(1) by (intro sint_small) simp
  have "len - 4 \<le> length (stream evs)" using r(2) len(4) by simp
  from recv_loop_stream [OF r(3) this] obtain evs'
    where "recv_loop evs (len - 4) = Some (Some (take (len - 4) (stream evs)), evs')" by blast
  moreover have "handle_command t (enc32 w @ take (len - 4) b) 0 = Inl OutOfBounds" for t w b
    using len(1) by (simp add: handle_command_def rd32_def)
  ultimately show ?thesis
    using r(1) n len(1)
    by (auto simp: sr_read_from_server_def sr_read_from_server_expect_def Let_def nat_diff_distrib)
qed

text \<open>
  Claim C33: when the server closes the connection the client never notices. If the input ends within
  a command, or between two commands, then after any number of further reads that return 0 (end of
  file) the read function has not returned and neither has the main loop: both receive loops treat 0
  as progress and spin.
\<close>

theorem end_of_file_spins:
  assumes "Failed \<notin> set (inbox s)" and "incomplete (stream (inbox s))"
  shows "\<forall>k. sr_read_from_server_expect (s\<lparr>inbox := inbox s @ replicate k (Bytes [])\<rparr>) expected = None \<and>
    serve (s\<lparr>inbox := inbox s @ replicate k (Bytes [])\<rparr>) = None"
proof
  fix k
  let ?s = "s\<lparr>inbox := inbox s @ replicate k (Bytes [])\<rparr>"
  have "sr_read_from_server_expect ?s c = None" for c
    using assms by (intro read_incomplete) auto
  then show "sr_read_from_server_expect ?s expected = None \<and> serve ?s = None"
    by (subst serve.simps) (simp add: sr_read_from_server_def)
qed

text \<open>
  Claim C34: commands that are too short. A command whose length field is below 8, and a packet
  command of fewer than 24 bytes, make the client fault: the first is written and read beyond its
  allocation, in the second the frame length wraps around to nearly 2^32.
\<close>

theorem runt_command_faults:
  assumes "Failed \<notin> set (inbox s)" and "runt (stream (inbox s))"
  shows "\<exists>e. serve s = Some (Inl e)"
  using read_runt [OF assms] by (subst serve.simps) auto


lemma auth_status_stored:
  "rd_struct 9 dec_auth_status (vns_stored VNS_AUTH_STATUS (ok # info)) 0 =
     Inr \<lparr>mLen = htonl (of_nat (9 + length info)), mType = VNS_AUTH_STATUS, auth_ok = ok\<rparr>"
proof -
  let ?st = "\<lparr>mLen = htonl (of_nat (9 + length info)), mType = VNS_AUTH_STATUS, auth_ok = ok\<rparr>"
  have "vns_stored VNS_AUTH_STATUS (ok # info) = enc_auth_status ?st @ info"
    by (simp add: vns_stored_def enc_auth_status_def)
  then show ?thesis by (simp add: mslice_def status.dec_enc)
qed

text \<open>
  Claim C35: the texts of the server are printed as strings without a check that they are strings. When
  the text of a close command or of a banner, or the reason for which the authentication is reported to
  have failed, contains no NUL byte, the main loop reads past the end of the message.
\<close>

theorem unterminated_text_overread:
  assumes "Failed \<notin> set (inbox s)" and "stream (inbox s) = vns_msg cmd t @ rest" and "length t \<le> 9992"
    and "0 \<notin> set info"
    and "(cmd = VNSCLOSE \<or> cmd = VNSBANNER) \<and> t = info \<or> cmd = VNS_AUTH_STATUS \<and> t = 0 # info"
  shows "serve s = Some (Inl OutOfBounds)"
proof -
  have body: "print_cstring (vns_stored cmd info) 8 = Inl OutOfBounds"
    by (rule print_cstring_overread) (use assms(4) in \<open>simp_all add: vns_stored_def\<close>)
  have reason: "print_cstring (vns_stored cmd (0 # info)) 9 = Inl OutOfBounds"
    by (rule print_cstring_overread) (use assms(4) in \<open>simp_all add: vns_stored_def\<close>)
  have "handle_command u (vns_msg cmd t) 0 = Inl OutOfBounds" for u
    using assms(5)
  proof (elim disjE conjE)
    assume "cmd = VNS_AUTH_STATUS" "t = 0 # info"
    with reason auth_status_stored [of 0 info] show ?thesis
      by (simp add: handle_command_msg Let_def failed_as_def sr_handle_auth_status_def vns_consts)
  qed (use body in \<open>simp_all add: handle_command_msg vns_consts\<close>)
  with read_message [OF assms(1-3), of 0] show ?thesis
    by (subst serve.simps) (auto simp: sr_read_from_server_def)
qed

section \<open>Examples\<close>

definition ex_session :: "recv_event list \<Rightarrow> session" where
  "ex_session evs = \<lparr>router = ex_sr, inbox = evs, files = (\<lambda>_. None), writable = (\<lambda>_. True),
     env_resolve = (\<lambda>_. True), env_socket = 3, env_connect = (\<lambda>_ _. True), junk_if = (\<lambda>_. ex_if1),
     junk_key = replicate 65 0xAA, junk_sha = ex_context\<rparr>"

lemma ex_session_simps [simp]:
  "router (ex_session evs) = ex_sr" "inbox (ex_session evs) = evs"
  "(ex_session evs)\<lparr>inbox := evs'\<rparr> = ex_session evs'"
  by (simp_all add: ex_session_def)

text \<open>A banner and a close command, cut inside the length field and interrupted by a signal.\<close>

definition ex_cut :: "byte list \<Rightarrow> recv_event list" where
  "ex_cut xs = [Bytes (take 3 xs), Interrupted, Bytes (drop 3 xs)]"

lemma ex_cut_simps [simp]: "stream (ex_cut xs) = xs" "Failed \<notin> set (ex_cut xs)"
  by (simp_all add: ex_cut_def)

theorem serve_in_order_witness:
  "\<exists>evs. serve (ex_session (ex_cut (vns_msg VNSBANNER [0x68, 0] @ vns_msg VNSCLOSE [0] @ [7]))) =
      Some (Inr (0, ex_session evs)) \<and> stream evs = [7]"
proof -
  let ?s = "ex_session (ex_cut (vns_msg VNSBANNER [0x68, 0] @ vns_msg VNSCLOSE [0] @ [7]))"
  have "run_msgs ?s [(VNSBANNER, [0x68, 0])] = Inr (1, ?s)"
    by (simp add: handle_command_msg vns_consts print_cstring_ok vns_stored_def)
  with serve_in_order [of ?s "[(VNSBANNER, [0x68, 0])]" "[0]" "[7]" ?s] show ?thesis by simp
qed

abbreviation (input) ex_frame :: "byte list" where
  "ex_frame \<equiv> ip_frame ex_eth_hdr (ex_ip_hdr ex_host ex_known) ex_pl"

lemma ex_servable: "servable ex_sr (''eth1'', ex_frame)"
proof -
  have "mslice ex_frame 14 20 = enc_ip (ex_ip_hdr ex_host ex_known)"
    unfolding ip_frame_def by (rule mslice_at_append) simp_all
  then show ?thesis
    by (simp add: servable_def deliverable_def c_name_def ip_frame_def ex_pl_def ex_ip_hdr_def)
qed

theorem session_served_witness:
  "\<exists>sr' evs. serve (ex_session (ex_cut (vns_frame ''eth1'' ex_frame @ vns_msg VNSCLOSE [0]))) =
      Some (Inr (0, (ex_session evs)\<lparr>router := sr'\<rparr>)) \<and> stream evs = [] \<and> sr_wf sr' \<and>
    frames_result ex_sr [(''eth1'', ex_frame)] = Inr sr'"
proof -
  let ?s = "ex_session (ex_cut (vns_frame ''eth1'' ex_frame @ vns_msg VNSCLOSE [0]))"
  from session_served [of ?s "[(''eth1'', ex_frame)]" "[0]" "[]"] ex_sr_wf ex_servable
  obtain sr' evs where "serve ?s = Some (Inr (0, ?s\<lparr>router := sr', inbox := evs\<rparr>))" "stream evs = []"
    "sr_wf sr'" "frames_result ex_sr [(''eth1'', ex_frame)] = Inr sr'" by auto
  then show ?thesis by (intro exI [of _ sr'] exI [of _ evs]) (simp add: ex_session_def)
qed

theorem end_of_file_spins_witness:
  "serve (ex_session [Bytes [0, 0], Bytes [], Bytes [], Bytes []]) = None"
  using spec [OF end_of_file_spins [of "ex_session [Bytes [0, 0]]" 0], of 3]
  by (simp add: incomplete_def numeral_eq_Suc)

theorem runt_command_faults_witness:
  "\<exists>e. serve (ex_session [Bytes [0, 0, 0, 5, 1]]) = Some (Inl e)"
proof -
  have "take 4 [0, 0, 0, 5, 1] = enc32 (htonl (of_nat 5))"
    by (simp add: enc32_def byte_simps)
  then have "runt [0, 0, 0, 5, 1]" unfolding runt_def by (intro disjI1 exI [of _ 5]) simp
  then show ?thesis using runt_command_faults [of "ex_session [Bytes [0, 0, 0, 5, 1]]"] by simp
qed

theorem unterminated_text_overread_witness:
  "serve (ex_session (ex_cut (vns_msg VNSBANNER [0x68, 0x69]))) = Some (Inl OutOfBounds) \<and>
   serve (ex_session (ex_cut (vns_msg VNS_AUTH_STATUS [0, 0x6E, 0x6F]))) = Some (Inl OutOfBounds)"
  using unterminated_text_overread [of "ex_session (ex_cut (vns_msg VNSBANNER [0x68, 0x69]))" VNSBANNER
      "[0x68, 0x69]" "[]" "[0x68, 0x69]"]
    unterminated_text_overread [of "ex_session (ex_cut (vns_msg VNS_AUTH_STATUS [0, 0x6E, 0x6F]))" VNS_AUTH_STATUS
      "[0, 0x6E, 0x6F]" "[]" "[0x6E, 0x6F]"]
  by simp

end
