(* ===== verification/VnsCommands.thy ===== *)
theory VnsCommands
  imports VnsSession
begin

text \<open>
  What the handlers of the set-up commands do: the hardware information that builds the interface
  list, the authentication exchange, and the opening of a session.
\<close>

section \<open>Hardware information\<close>

text \<open>
  The entries that describe one interface: its name, its MAC, its address, and any entries with
  other keys (speed, subnet, mask), which the client ignores.
\<close>

definition hw_item :: "u32 \<Rightarrow> byte list \<Rightarrow> byte list" where
  "hw_item key v = enc32 (htonl key) @ v"

definition ignored :: "u32 \<times> byte list \<Rightarrow> bool" where
  "ignored kv \<longleftrightarrow> fst kv \<notin> {HWINTERFACE, HWETHER, HWETHIP} \<and> length (snd kv) = 32"

type_synonym if_spec = "string \<times> mac \<times> u32 \<times> (u32 \<times> byte list) list"

fun if_items :: "if_spec \<Rightarrow> (u32 \<times> byte list) list" where
  "if_items (n, m, ip, others) = (HWINTERFACE, name_field n 32) # (HWETHER, enc_mac m @ replicate 26 0) #
     (HWETHIP, enc32 ip @ replicate 28 0) # others"

fun if_spec_ok :: "if_spec \<Rightarrow> bool" where
  "if_spec_ok (n, m, ip, others) \<longleftrightarrow> c_name n \<and> length n \<le> 32 \<and> list_all ignored others"

fun registered :: "(nat \<Rightarrow> sr_if) \<Rightarrow> nat \<Rightarrow> if_spec list \<Rightarrow> sr_if list" where
  "registered junk k [] = []"
| "registered junk k ((n, m, ip, others) # specs) =
     \<lparr>if_name = n, if_addr = m, if_ip = ip, if_speed = if_speed (junk k)\<rparr> # registered junk (Suc k) specs"

definition hw_bytes :: "(u32 \<times> byte list) list \<Rightarrow> byte list" where
  "hw_bytes kvs = concat (map (\<lambda>(k, v). hw_item k v) kvs)"

lemma hw_bytes_simps [simp]:
  "hw_bytes [] = []" "hw_bytes ((k, v) # kvs) = enc32 (htonl k) @ v @ hw_bytes kvs"
  "hw_bytes (xs @ ys) = hw_bytes xs @ hw_bytes ys"
  by (simp_all add: hw_bytes_def hw_item_def)

lemma length_hw_bytes: "list_all (\<lambda>kv. length (snd kv) = 32) kvs \<Longrightarrow> length (hw_bytes kvs) = 36 * length kvs"
  by (induction kvs) auto

text \<open>One entry, as an operation on the session.\<close>

definition apply_item :: "session \<Rightarrow> u32 \<Rightarrow> byte list \<Rightarrow> session res" where
  "apply_item s key v =
     (let sr = router s; ifs = if_list sr in
      if key = HWINTERFACE then
        Inr (upd_router s (sr\<lparr>if_list := sr_add_interface (junk_if s (length ifs)) ifs
               (map (\<lambda>b. char_of (unat b)) (takeWhile (\<lambda>b. b \<noteq> 0) v))\<rparr>))
      else if key = HWETHIP then
        rbind (sr_set_ether_ip ifs (dec32 (take 4 v))) (\<lambda>ifs'. Inr (upd_router s (sr\<lparr>if_list := ifs'\<rparr>)))
      else if key = HWETHER then
        rbind (sr_set_ether_addr ifs (dec_mac (take 6 v))) (\<lambda>ifs'. Inr (upd_router s (sr\<lparr>if_list := ifs'\<rparr>)))
      else Inr s)"

fun apply_items :: "session \<Rightarrow> (u32 \<times> byte list) list \<Rightarrow> session res" where
  "apply_items s [] = Inr s"
| "apply_items s ((k, v) # kvs) = rbind (apply_item s k v) (\<lambda>s'. apply_items s' kvs)"

lemma apply_items_append: "apply_items s (xs @ ys) = rbind (apply_items s xs) (\<lambda>s'. apply_items s' ys)"
  by (induction s xs rule: apply_items.induct) (simp_all add: rbind_assoc cong: rbind_cong)

lemma hw_entry_at:
  assumes "length pre = 8 + 36 * i" "length v = 32"
  shows "hw_entry s (pre @ enc32 (htonl k) @ v @ post) i = apply_item s k v"
proof -
  let ?entry = "\<lparr>mKey = htonl k, hw_value = v\<rparr>"
  have buf: "pre @ enc32 (htonl k) @ v @ post = pre @ enc_hw_entry ?entry @ post"
    by (simp add: enc_hw_entry_def)
  have "mslice (pre @ enc_hw_entry ?entry @ post) (8 + 36 * i) 36 = enc_hw_entry ?entry"
    using assms by (intro mslice_at_append) simp_all
  then have "rd_struct 36 dec_hw_entry (pre @ enc_hw_entry ?entry @ post) (8 + 36 * i) = Inr ?entry"
    using assms by (simp add: hw.dec_enc)
  then show ?thesis unfolding buf by (simp add: hw_entry_def apply_item_def Let_def)
qed

lemma hwinfo_loop_items:
  assumes "length pre = 8 + 36 * i" "list_all (\<lambda>kv. length (snd kv) = 32) kvs"
  shows "hwinfo_loop s (pre @ hw_bytes kvs) i (length kvs) = apply_items s kvs"
  using assms
proof (induction kvs arbitrary: s pre i)
  case (Cons kv kvs)
  obtain k v where kv: "kv = (k, v)" by (cases kv)
  have "hwinfo_loop t ((pre @ enc32 (htonl k) @ v) @ hw_bytes kvs) (Suc i) (length kvs) = apply_items t kvs" for t
    using Cons.prems kv by (intro Cons.IH) auto
  then show ?case using Cons.prems kv hw_entry_at [of pre i v s k "hw_bytes kvs"] by simp
qed simp

lemma apply_ignored: "list_all ignored kvs \<Longrightarrow> apply_items s kvs = Inr s"
  by (induction s kvs rule: apply_items.induct) (auto simp: ignored_def apply_item_def Let_def)

lemma apply_if_items:
  assumes "if_spec_ok (n, m, ip, others)"
  shows "apply_items s (if_items (n, m, ip, others)) =
    Inr (upd_router s ((router s)\<lparr>if_list := if_list (router s) @
      [\<lparr>if_name = n, if_addr = m, if_ip = ip, if_speed = if_speed (junk_if s (length (if_list (router s))))\<rparr>]\<rparr>))"
  using assms
  by (cases "junk_if s (length (if_list (router s)))")
    (simp add: apply_item_def Let_def vns_consts takeWhile_name_field sr_add_interface_append sr_set_ether_addr_snoc
      sr_set_ether_ip_snoc apply_ignored strncpy_def)

lemma apply_specs:
  "list_all if_spec_ok specs \<Longrightarrow> apply_items s (concat (map if_items specs)) =
    Inr (upd_router s ((router s)\<lparr>if_list := if_list (router s) @
      registered (junk_if s) (length (if_list (router s))) specs\<rparr>))"
proof (induction specs arbitrary: s)
  case (Cons spec specs)
  obtain n m ip others where spec: "spec = (n, m, ip, others)" by (cases spec)
  have ok: "if_spec_ok (n, m, ip, others)" using Cons.prems spec by simp
  show ?case
    using Cons.IH Cons.prems
    by (simp only: spec list.map concat.simps apply_items_append apply_if_items [OF ok] rbind_simps) simp
qed simp


lemma if_items_length: "if_spec_ok spec \<Longrightarrow> list_all (\<lambda>kv. length (snd kv) = 32) (if_items spec)"
  by (cases spec) (auto simp: list_all_iff ignored_def)

lemma uint_small: "n < 2 ^ 32 \<Longrightarrow> uint (of_nat n :: u32) = int n"
  by (simp add: uint_nat unat_of_nat)

lemma sr_handle_hwinfo_items:
  assumes "list_all (\<lambda>kv. length (snd kv) = 32) kvs" "length kvs \<le> 277"
  shows "sr_handle_hwinfo s (vns_stored VNSHWINFO (hw_bytes kvs)) =
    rbind (apply_items s kvs) (\<lambda>s'. Inr (int (length kvs), s'))"
proof -
  let ?n = "length kvs"
  have u: "uint (of_nat (8 + 36 * ?n) :: u32) = int (8 + 36 * ?n)"
    by (rule uint_small) (use assms(2) in simp)
  have "(int (8 + 36 * ?n) - 8) mod 2 ^ 64 = int (8 + 36 * ?n) - 8"
    by (rule mod_pos_pos_trivial) (use assms(2) in simp_all)
  then have "(uint (of_nat (8 + length (hw_bytes kvs)) :: u32) - 8) mod 2 ^ 64 div 36 = int ?n"
    unfolding length_hw_bytes [OF assms(1)] u by simp
  moreover have "sint (of_int (int ?n) :: 32 word) = int ?n"
    using sint_small [of ?n] assms(2) by simp
  moreover have "hwinfo_loop s (vns_stored VNSHWINFO (hw_bytes kvs)) 0 ?n = apply_items s kvs"
    using hwinfo_loop_items [of "enc32 (htonl (of_nat (8 + length (hw_bytes kvs)))) @ enc32 VNSHWINFO" 0 kvs s]
      assms(1) by (simp add: vns_stored_def)
  ultimately show ?thesis by (simp add: sr_handle_hwinfo_def Let_def)
qed

lemma hwinfo_command_eq:
  assumes "list_all if_spec_ok specs" and "length (concat (map if_items specs)) \<le> 277"
  shows "handle_command s (vns_msg VNSHWINFO (hw_bytes (concat (map if_items specs)))) 0 =
    (let ifs = if_list (router s) @ registered (junk_if s) (length (if_list (router s))) specs in
     Inr (if sr_verify_routing_table ifs (routing_table (router s)) = 0 then 1 else - 1,
          upd_router s ((router s)\<lparr>if_list := ifs\<rparr>)))"
proof -
  have "list_all (\<lambda>kv. length (snd kv) = 32) (concat (map if_items specs))"
    using assms(1) by (induction specs) (simp_all add: if_items_length)
  from sr_handle_hwinfo_items [OF this assms(2)] show ?thesis
    by (simp add: handle_command_msg vns_consts apply_specs [OF assms(1)] Let_def)
qed

text \<open>
  Claim C22: the hardware information message builds the interface list. A message that describes a
  list of interfaces appends them, in order and with their names, MACs and addresses, to the
  router's list, whatever entries with other keys it contains; the speed of an interface stays what
  the allocation left in memory. The command succeeds exactly when the routing table is not empty and
  every route in it then names an interface of the list; with an empty table, or with a route to an
  interface that is missing, it fails and the session ends, but the interfaces are in the list all the same.
\<close>

theorem hwinfo_registers_interfaces:
  assumes "list_all if_spec_ok specs" and "length (concat (map if_items specs)) \<le> 277"
  shows "handle_command s (vns_msg VNSHWINFO (hw_bytes (concat (map if_items specs)))) 0 =
    (let ifs = if_list (router s) @ registered (junk_if s) (length (if_list (router s))) specs in
     Inr (if routing_table (router s) \<noteq> [] \<and>
            (\<forall>rt \<in> set (routing_table (router s)). sr_get_interface ifs (rt_interface rt) \<noteq> None) then 1 else - 1,
          upd_router s ((router s)\<lparr>if_list := ifs\<rparr>)))"
  using hwinfo_command_eq [OF assms] by (simp add: verify_zero_iff)

theorem hwinfo_registers_interfaces_witness:
  "handle_command (ex_session []) (vns_msg VNSHWINFO (hw_bytes (concat (map if_items
      [(''eth3'', MAC 2 0 0 0 0 3, 7, [(HWETHER + 1, replicate 32 0)])])))) 0 =
    Inr (1, upd_router (ex_session []) (ex_sr\<lparr>if_list := [ex_if1, ex_if2,
      \<lparr>if_name = ''eth3'', if_addr = MAC 2 0 0 0 0 3, if_ip = 7, if_speed = if_speed ex_if1\<rparr>]\<rparr>))"
proof -
  have "\<forall>rt \<in> set [ex_rt1, ex_rt2]. sr_get_interface [ex_if1, ex_if2, \<lparr>if_name = ''eth3'', if_addr = MAC 2 0 0 0 0 3,
      if_ip = 7, if_speed = if_speed ex_if1\<rparr>] (rt_interface rt) \<noteq> None"
    by (simp add: ex_rt1_def ex_rt2_def)
  moreover have "ignored (HWETHER + 1, replicate 32 0)" by (simp add: ignored_def vns_consts)
  ultimately show ?thesis
    using hwinfo_registers_interfaces [of "[(''eth3'', MAC 2 0 0 0 0 3, 7, [(HWETHER + 1, replicate 32 0)])]"
        "ex_session []"]
    by (simp add: c_name_def ex_session_def)
qed

section \<open>Authentication\<close>

text \<open>The key that is hashed: the line of the file, its NUL, and whatever the array held before.\<close>

definition auth_key_bytes :: "byte list \<Rightarrow> byte list \<Rightarrow> byte list" where
  "auth_key_bytes content junk =
     (let line = fst (fgets 65 content) in take 64 (line @ 0 # drop (Suc (length line)) junk))"

definition auth_reply :: "sr_instance \<Rightarrow> u32 list \<Rightarrow> byte list" where
  "auth_reply sr digest = vns_msg VNS_AUTH_REPLY (enc32 (htonl (of_nat (length (sr_user sr)))) @
     map of_char (sr_user sr) @ concat (map (\<lambda>w. enc32 (htonl w)) digest))"

definition memory_ok :: "session \<Rightarrow> bool" where
  "memory_ok s \<longleftrightarrow> length (junk_key s) = 65 \<and> length (Message_Block (junk_sha s)) = 64"

lemma length_fgets: "length (fst (fgets n content)) \<le> n - 1"
proof -
  let ?t = "take (n - 1) content"
  have "length (takeWhile (\<lambda>b. b \<noteq> 10) ?t) \<le> length ?t" by (rule length_takeWhile_le)
  then show ?thesis by (simp add: fgets_def Let_def)
qed

lemma length_sha1: "length (sha1 m) = 5"
proof -
  have "length (foldl compress H bs) = 5" if "length H = 5" for H bs
    using that by (induction bs arbitrary: H) (simp_all add: compress_def split: prod.split)
  then show ?thesis by (simp add: sha1_def sha1_init_def)
qed

lemma hash_salt_and_key:
  assumes "length (Message_Block ctx) = 64" "length salt \<le> 9992" "64 \<le> length key"
  shows "\<exists>sha_a sha_b sha_c. SHA1Input (SHA1Reset ctx) salt (length salt) = Inr sha_a \<and>
    SHA1Input sha_a key 64 = Inr sha_b \<and> SHA1Result sha_b = Inr (1, sha_c) \<and>
    Message_Digest sha_c = sha1 (salt @ take 64 key)"
proof -
  have "8 * (length ([] :: byte list) + length salt) < 2 ^ 64" using assms(2) by simp
  from SHA1Input_absorbs [OF absorbing_reset [OF assms(1)] le_refl this] obtain sha_a
    where a: "SHA1Input (SHA1Reset ctx) salt (length salt) = Inr sha_a" "absorbing sha_a salt" by auto
  have "8 * (length salt + 64) < 2 ^ 64" using assms(2) by simp
  from SHA1Input_absorbs [OF a(2) assms(3) this] obtain sha_b
    where b: "SHA1Input sha_a key 64 = Inr sha_b" "absorbing sha_b (salt @ take 64 key)" by blast
  from SHA1Result_computes [OF b(2)] a(1) b(1) show ?thesis by blast
qed


lemma fgets_nonempty: "content \<noteq> [] \<Longrightarrow> 1 < n \<Longrightarrow> fst (fgets n content) \<noteq> []"
  by (cases content; cases "n - 1") (auto simp: fgets_def Let_def)

lemma auth_key_array:
  assumes "length junk = 65"
  shows "\<exists>key. wr_bytes junk 0 (fst (fgets 65 content) @ [0]) = Inr key \<and> length key = 65 \<and>
    take 64 key = auth_key_bytes content junk"
proof -
  let ?line = "fst (fgets 65 content)"
  have "length ?line \<le> 64" using length_fgets [of 65 content] by simp
  then show ?thesis
    using assms by (simp add: auth_key_bytes_def Let_def msplice_def)
qed

lemma salt_length: "length salt \<le> 9992 \<Longrightarrow>
    nat ((uint (of_nat (8 + length salt) :: u32) - 8) mod 4294967296) = length salt"
proof -
  assume n: "length salt \<le> 9992"
  have "uint (of_nat (8 + length salt) :: u32) = int (8 + length salt)"
    by (rule uint_small) (use n in simp)
  moreover have "int (length salt) mod 4294967296 = int (length salt)"
    by (rule mod_pos_pos_trivial) (use n in simp_all)
  ultimately show ?thesis by simp
qed

lemma handle_auth_request_eq:
  assumes "memory_ok s" "files s ''auth_key'' = Some content" "content \<noteq> []"
    "length (sr_user (router s)) < 32" "length salt \<le> 9992"
  shows "sr_handle_auth_request s (vns_stored VNS_AUTH_REQUEST salt) =
    (let msg = auth_reply (router s) (sha1 (salt @ auth_key_bytes content (junk_key s))) in
     Inr (if env_write (router s) (wire (router s)) msg = int (length msg) then 1 else 0,
          upd_router s ((router s)\<lparr>wire := wire (router s) @ [msg]\<rparr>)))"
proof -
  let ?user = "sr_user (router s)"
  obtain key where key: "wr_bytes (junk_key s) 0 (fst (fgets 65 content) @ [0]) = Inr key" "length key = 65"
      "take 64 key = auth_key_bytes content (junk_key s)"
    using auth_key_array assms(1) by (auto simp: memory_ok_def)
  obtain sha_a sha_b sha_c where sha: "SHA1Input (SHA1Reset (junk_sha s)) salt (length salt) = Inr sha_a"
      "SHA1Input sha_a key 64 = Inr sha_b" "SHA1Result sha_b = Inr (1, sha_c)"
      "Message_Digest sha_c = sha1 (salt @ auth_key_bytes content (junk_key s))"
    using hash_salt_and_key [of "junk_sha s" salt key] assms(1,5) key by (auto simp: memory_ok_def)
  have d: "drop 8 (vns_stored VNS_AUTH_REQUEST salt) = salt" by (simp add: vns_stored_def)
  have c: "length (concat (map (\<lambda>w. enc32 (htonl w)) (sha1 m))) = 20" for m
    using length_sha1 [of m] by (simp add: length_concat comp_def sum_list_triv)
  then have msg: "enc_auth_reply \<lparr>mLen = htonl (of_nat (32 + length ?user)), mType = htonl VNS_AUTH_REPLY,
      usernameLen = htonl (of_nat (length ?user))\<rparr> @ map of_char ?user @
      concat (map (\<lambda>w. enc32 (htonl w)) (sha1 m)) = auth_reply (router s) (sha1 m)" for m
    by (simp add: enc_auth_reply_def auth_reply_def vns_msg_def ac_simps)
  have len: "length (auth_reply (router s) (sha1 m)) = 32 + length ?user" for m
    using c [of m] by (simp add: auth_reply_def vns_msg_def)
  show ?thesis
    using assms(2-4) key(1) sha fgets_nonempty [of content 65]
    unfolding sr_handle_auth_request_def d
    by (simp add: salt_length [OF assms(5)] Let_def sock_send_def msg len c del: of_nat_add)
qed

lemma auth_command_eq:
  assumes "memory_ok s" and "files s ''auth_key'' = Some content" and "content \<noteq> []"
    and "length (sr_user (router s)) < 32" and "length salt \<le> 9992"
  shows "handle_command s (vns_msg VNS_AUTH_REQUEST salt) VNS_AUTH_REQUEST =
    (let msg = auth_reply (router s) (sha1 (salt @ auth_key_bytes content (junk_key s))) in
     Inr (if env_write (router s) (wire (router s)) msg = int (length msg) then 1 else - 1,
          upd_router s ((router s)\<lparr>wire := wire (router s) @ [msg]\<rparr>)))"
  by (simp add: handle_command_msg Let_def vns_consts failed_as_def
      handle_auth_request_eq [OF assms, simplified vns_consts] split: if_splits)

text \<open>
  Claim C32: the answer to an authentication request. The client sends one message with the user name
  and the SHA-1 digest, in network order, of the salt followed by 64 bytes of key material: the first line of
  the key file as read by \<^verbatim>\<open>fgets\<close>, its terminating NUL, and, when the line is shorter, the bytes that
  the uninitialised array held before. The command succeeds exactly when the whole message is sent.
\<close>

theorem auth_request_answered:
  assumes "memory_ok s" and "files s ''auth_key'' = Some content" and "content \<noteq> []"
    and "length (sr_user (router s)) < 32" and "length salt \<le> 9992"
  shows "handle_command s (vns_msg VNS_AUTH_REQUEST salt) VNS_AUTH_REQUEST =
    (let msg = auth_reply (router s) (sha1 (salt @ auth_key_bytes content (junk_key s))) in
     Inr (if env_write (router s) (wire (router s)) msg = int (length msg) then 1 else - 1,
          upd_router s ((router s)\<lparr>wire := wire (router s) @ [msg]\<rparr>)))"
  using assms by (rule auth_command_eq)

text \<open>A full line determines the key; a shorter one leaves it to the contents of the stack.\<close>

lemma auth_key_bytes_full:
  assumes "64 \<le> length content" "10 \<notin> set (take 64 content)"
  shows "auth_key_bytes content junk = take 64 content"
proof -
  have "takeWhile (\<lambda>b. b \<noteq> 10) (take 64 content) = take 64 content"
    using assms(2) by (auto simp: takeWhile_eq_all_conv)
  then have "length (takeWhile (\<lambda>b. b \<noteq> 10) (take 64 content)) = 64"
    using assms(1) by (metis length_take min.absorb2)
  then show ?thesis using assms(1) by (simp add: auth_key_bytes_def fgets_def Let_def)
qed

lemma auth_key_bytes_short:
  assumes "length (fst (fgets 65 content)) < 63"
  shows "auth_key_bytes content (replicate 65 0) \<noteq> auth_key_bytes content (replicate 65 1)"
proof
  let ?n = "length (fst (fgets 65 content))"
  assume "auth_key_bytes content (replicate 65 0) = auth_key_bytes content (replicate 65 1)"
  then have "auth_key_bytes content (replicate 65 0) ! Suc ?n = auth_key_bytes content (replicate 65 1) ! Suc ?n"
    by simp
  with assms show False by (simp add: auth_key_bytes_def Let_def nth_append)
qed


section \<open>Opening a session\<close>

lemma msg_upd [simp]:
  "auth_reply (sr\<lparr>sockfd := x\<rparr>) d = auth_reply sr d" "open_msg (sr\<lparr>sockfd := x\<rparr>) = open_msg sr"
  "auth_reply (sr\<lparr>wire := w\<rparr>) d = auth_reply sr d" "open_msg (sr\<lparr>wire := w\<rparr>) = open_msg sr"
  by (simp_all add: auth_reply_def open_msg_def)

lemma memory_ok_upd [simp]:
  "memory_ok (s\<lparr>router := r\<rparr>) = memory_ok s" "memory_ok (s\<lparr>inbox := evs\<rparr>) = memory_ok s"
  by (simp_all add: memory_ok_def)

text \<open>The text of a status report, which has to be terminated when it is printed.\<close>

definition status_text :: "byte \<Rightarrow> byte list \<Rightarrow> bool" where
  "status_text ok info \<longleftrightarrow> length info < 9992 \<and> (ok = 0 \<longrightarrow> 0 \<in> set info)"

lemma handle_auth_status_msg:
  assumes "status_text ok info"
  shows "handle_command s (vns_msg VNS_AUTH_STATUS (ok # info)) VNS_AUTH_STATUS = Inr (if ok = 0 then - 1 else 1, s)"
proof -
  have "ok = 0 \<Longrightarrow> print_cstring (vns_stored VNS_AUTH_STATUS (ok # info)) 9 = Inr ()"
    using assms by (intro print_cstring_ok) (simp add: vns_stored_def status_text_def)
  with auth_status_stored [of ok info] show ?thesis
    by (simp add: handle_command_msg Let_def vns_consts sr_handle_auth_status_def failed_as_def
        unsigned_eq_0_iff)
qed

lemma connect_exchange:
  assumes "memory_ok s" "files s ''auth_key'' = Some content" "content \<noteq> []" "length (sr_user (router s)) < 32"
    "length salt \<le> 9992" "status_text ok info" "\<And>w m. env_write (router s) w m = int (length m)"
    "Failed \<notin> set (inbox s)"
    "stream (inbox s) = vns_msg VNS_AUTH_REQUEST salt @ vns_msg VNS_AUTH_STATUS (ok # info) @ rest"
  shows "\<exists>evs1 evs2. stream evs2 = rest \<and> Failed \<notin> set evs2 \<and>
    (let s1 = s\<lparr>router := (router s)\<lparr>wire := wire (router s) @
           [auth_reply (router s) (sha1 (salt @ auth_key_bytes content (junk_key s)))]\<rparr>, inbox := evs1\<rparr> in
     sr_read_from_server_expect s VNS_AUTH_REQUEST = Some (Inr (1, s1)) \<and>
     sr_read_from_server_expect s1 VNS_AUTH_STATUS = Some (Inr (if ok = 0 then - 1 else 1, s1\<lparr>inbox := evs2\<rparr>)))"
proof -
  from read_message [OF assms(8,9,5), of VNS_AUTH_REQUEST] obtain evs1 where r1:
    "sr_read_from_server_expect s VNS_AUTH_REQUEST =
      Some (handle_command (s\<lparr>inbox := evs1\<rparr>) (vns_msg VNS_AUTH_REQUEST salt) VNS_AUTH_REQUEST)"
    "stream evs1 = vns_msg VNS_AUTH_STATUS (ok # info) @ rest" "Failed \<notin> set evs1" by blast
  let ?s1 = "s\<lparr>router := (router s)\<lparr>wire := wire (router s) @
    [auth_reply (router s) (sha1 (salt @ auth_key_bytes content (junk_key s)))]\<rparr>, inbox := evs1\<rparr>"
  have "handle_command (s\<lparr>inbox := evs1\<rparr>) (vns_msg VNS_AUTH_REQUEST salt) VNS_AUTH_REQUEST = Inr (1, ?s1)"
    using auth_command_eq [OF assms(1-5)] assms(7) by (simp add: handle_command_inbox Let_def)
  moreover have "length (ok # info) \<le> 9992" using assms(6) by (simp add: status_text_def)
  from read_message [of ?s1 VNS_AUTH_STATUS "ok # info" rest, OF _ _ this, of VNS_AUTH_STATUS] r1(2,3)
  obtain evs2 where "sr_read_from_server_expect ?s1 VNS_AUTH_STATUS =
      Some (handle_command (?s1\<lparr>inbox := evs2\<rparr>) (vns_msg VNS_AUTH_STATUS (ok # info)) VNS_AUTH_STATUS)"
    "stream evs2 = rest" "Failed \<notin> set evs2" by auto
  ultimately show ?thesis
    using r1(1) by (intro exI [of _ evs1] exI [of _ evs2]) (simp add: Let_def handle_auth_status_msg [OF assms(6)])
qed

lemma connect_opens:
  assumes "memory_ok s" and "files s ''auth_key'' = Some content" and "content \<noteq> []"
    and "length (sr_user (router s)) < 32" and "sr_template (router s) = []"
    and "length salt \<le> 9992" and "status_text ok info"
    and "\<And>w m. env_write (router s) w m = int (length m)"
    and "env_resolve s server" and "0 \<le> env_socket s" and "env_connect s server port"
    and "Failed \<notin> set (inbox s)"
    and "stream (inbox s) = vns_msg VNS_AUTH_REQUEST salt @ vns_msg VNS_AUTH_STATUS (ok # info) @ rest"
  shows "\<exists>evs. sr_connect_to_server s port server = Some (Inr (if ok = 0 then - 1 else 0,
      s\<lparr>router := (router s)\<lparr>sockfd := env_socket s, wire := wire (router s) @
          auth_reply (router s) (sha1 (salt @ auth_key_bytes content (junk_key s))) #
          (if ok = 0 then [] else [open_msg (router s)])\<rparr>, inbox := evs\<rparr>)) \<and> stream evs = rest \<and> Failed \<notin> set evs"
proof -
  let ?s0 = "upd_router s ((router s)\<lparr>sockfd := env_socket s\<rparr>)"
  from connect_exchange [of ?s0 content salt ok info rest] assms obtain evs1 evs2 where
    "stream evs2 = rest" "Failed \<notin> set evs2"
    "(let s1 = ?s0\<lparr>router := (router ?s0)\<lparr>wire := wire (router s) @
           [auth_reply (router s) (sha1 (salt @ auth_key_bytes content (junk_key s)))]\<rparr>, inbox := evs1\<rparr> in
     sr_read_from_server_expect ?s0 VNS_AUTH_REQUEST = Some (Inr (1, s1)) \<and>
     sr_read_from_server_expect s1 VNS_AUTH_STATUS = Some (Inr (if ok = 0 then - 1 else 1, s1\<lparr>inbox := evs2\<rparr>)))"
    by auto
  then show ?thesis
    using assms
    by (intro exI [of _ evs2]) (simp add: sr_connect_to_server_def Let_def sock_send_def)
qed


text \<open>
  Opening a session. When the server is reachable, asks for authentication and reports its
  outcome, the client sends first its authentication reply and then, if and only if the server has
  accepted it, the request to open the topology, and nothing else; it returns 0 exactly in that
  case, having read exactly the two commands.
\<close>

theorem session_opened:
  assumes "memory_ok s" and "files s ''auth_key'' = Some content" and "content \<noteq> []"
    and "length (sr_user (router s)) < 32" and "sr_template (router s) = []"
    and "length salt \<le> 9992" and "status_text ok info"
    and "\<And>w m. env_write (router s) w m = int (length m)"
    and "env_resolve s server" and "0 \<le> env_socket s" and "env_connect s server port"
    and "Failed \<notin> set (inbox s)"
    and "stream (inbox s) = vns_msg VNS_AUTH_REQUEST salt @ vns_msg VNS_AUTH_STATUS (ok # info) @ rest"
  shows "\<exists>evs. sr_connect_to_server s port server = Some (Inr (if ok = 0 then - 1 else 0,
      s\<lparr>router := (router s)\<lparr>sockfd := env_socket s, wire := wire (router s) @
          auth_reply (router s) (sha1 (salt @ auth_key_bytes content (junk_key s))) #
          (if ok = 0 then [] else [open_msg (router s)])\<rparr>, inbox := evs\<rparr>)) \<and> stream evs = rest"
  using connect_opens [OF assms] by blast

section \<open>Examples\<close>

definition ex_key :: "byte list" where
  "ex_key = replicate 64 0x6B @ [10]"

definition ex_client :: "recv_event list \<Rightarrow> session" where
  "ex_client evs = (ex_session evs)\<lparr>files := [''auth_key'' \<mapsto> ex_key]\<rparr>"

lemma ex_client_simps [simp]:
  "router (ex_client evs) = ex_sr" "inbox (ex_client evs) = evs" "files (ex_client evs) ''auth_key'' = Some ex_key"
  "memory_ok (ex_client evs)" "env_resolve (ex_client evs) n" "env_socket (ex_client evs) = 3"
  "env_connect (ex_client evs) n p" "ex_key \<noteq> []" "env_write ex_sr w m = int (length m)"
  "sr_user ex_sr = []" "sr_template ex_sr = []" "auth_key_bytes ex_key junk = replicate 64 0x6B"
  by (simp_all add: ex_client_def ex_session_def memory_ok_def ex_context_def ex_key_def ex_sr_def
      auth_key_bytes_full)

theorem auth_request_answered_witness:
  "handle_command (ex_client []) (vns_msg VNS_AUTH_REQUEST [1, 2, 3]) VNS_AUTH_REQUEST =
    Inr (1, upd_router (ex_client []) (ex_sr\<lparr>wire :=
      [auth_reply ex_sr (sha1 ([1, 2, 3] @ replicate 64 0x6B))]\<rparr>))"
  using auth_request_answered [of "ex_client []" ex_key "[1, 2, 3]"] by (simp add: Let_def)

theorem session_opened_witness:
  "\<exists>s' evs. sr_connect_to_server (ex_client (ex_cut (vns_msg VNS_AUTH_REQUEST [1, 2, 3] @
       vns_msg VNS_AUTH_STATUS [1, 0]))) 8888 ''localhost'' = Some (Inr (0, s')) \<and>
     wire (router s') = [auth_reply ex_sr (sha1 ([1, 2, 3] @ replicate 64 0x6B)), open_msg ex_sr]"
  using session_opened [of "ex_client (ex_cut (vns_msg VNS_AUTH_REQUEST [1, 2, 3] @
      vns_msg VNS_AUTH_STATUS [1, 0]))" ex_key "[1, 2, 3]" 1 "[0]" "''localhost''" 8888 "[]"]
  by (auto simp: status_text_def)

end
