(* ===== verification/Printing.thy ===== *)
theory Printing
  imports RoutingTable ArpCache
begin

text \<open>
  The printing functions: the header printers of \<^verbatim>\<open>sr_utils.c\<close>, and the listings of the interface
  list (\<^verbatim>\<open>sr_if.c\<close>), the routing table (\<^verbatim>\<open>sr_rt.c\<close>) and the ARP table (\<^verbatim>\<open>sr_arpcache.c\<close>). A
  function returns the text it prints, or the fault it runs into on the way. The conversions of
  \<^verbatim>\<open>printf\<close> that occur and \<^verbatim>\<open>inet_ntoa\<close> are defined first; \<^verbatim>\<open>ctime\<close> depends on the time zone and
  is a parameter. \<^verbatim>\<open>Debug\<close> prints, as the Makefile's \<^verbatim>\<open>-D_DEBUG_\<close> selects.
\<close>

section \<open>Conversions\<close>

abbreviation (input) nl :: string where "nl \<equiv> [CHR 0x0A]"
abbreviation (input) tab :: string where "tab \<equiv> [CHR 0x09]"

definition digit_char :: "nat \<Rightarrow> char" where
  "digit_char d = char_of (48 + d)"

text \<open>\<^verbatim>\<open>%d\<close> of a non-negative value\<close>

fun dec_string :: "nat \<Rightarrow> string" where
  "dec_string n = (if n < 10 then [digit_char n] else dec_string (n div 10) @ [digit_char (n mod 10)])"

declare dec_string.simps [simp del]

text \<open>\<^verbatim>\<open>%x\<close> and \<^verbatim>\<open>%X\<close> with at least \<open>k\<close> digits; \<open>a\<close> is the character for ten\<close>

definition hex_char :: "nat \<Rightarrow> nat \<Rightarrow> char" where
  "hex_char a d = (if d < 10 then digit_char d else char_of (a + (d - 10)))"

fun hex_digits :: "nat \<Rightarrow> nat \<Rightarrow> string" where
  "hex_digits a n = (if n < 16 then [hex_char a n] else hex_digits a (n div 16) @ [hex_char a (n mod 16)])"

declare hex_digits.simps [simp del]

definition hex_fill :: "nat \<Rightarrow> nat \<Rightarrow> nat \<Rightarrow> string" where
  "hex_fill a k n = (let s = hex_digits a n in replicate (k - length s) (CHR ''0'') @ s)"

abbreviation (input) lower_x :: "nat \<Rightarrow> nat \<Rightarrow> string" where "lower_x \<equiv> hex_fill 97"
abbreviation (input) upper_X :: "nat \<Rightarrow> nat \<Rightarrow> string" where "upper_X \<equiv> hex_fill 65"

text \<open>The four bytes of an address in memory, in dotted notation\<close>

definition dotted :: "nat \<Rightarrow> nat \<Rightarrow> nat \<Rightarrow> nat \<Rightarrow> string" where
  "dotted a b c d = dec_string a @ ''.'' @ dec_string b @ ''.'' @ dec_string c @ ''.'' @ dec_string d"

definition inet_ntoa :: "u32 \<Rightarrow> string" where
  "inet_ntoa s_addr = dotted (unat (byte_of 0 s_addr)) (unat (byte_of 1 s_addr))
     (unat (byte_of 2 s_addr)) (unat (byte_of 3 s_addr))"

section \<open>Addresses\<close>

fun eth_loop :: "nat \<Rightarrow> byte list \<Rightarrow> string" where
  "eth_loop pos [] = []"
| "eth_loop pos (cur # rest) =
     (if pos > 0 then '':'' else []) @ upper_X 2 (unat cur) @ eth_loop (Suc pos) rest"

definition print_addr_eth :: "mac \<Rightarrow> string" where
  "print_addr_eth addr = eth_loop 0 (enc_mac addr) @ nl"

text \<open>\<^verbatim>\<open>inet_ntop\<close> for \<^verbatim>\<open>AF_INET\<close> does not fail with a buffer this size and gives the same text as \<^verbatim>\<open>inet_ntoa\<close>.\<close>

definition print_addr_ip :: "u32 \<Rightarrow> string" where
  "print_addr_ip address = inet_ntoa address @ nl"

definition print_addr_ip_int :: "u32 \<Rightarrow> string" where
  "print_addr_ip_int ip =
     dec_string (unat (drop_bit 24 ip)) @ ''.'' @ dec_string (unat (drop_bit 24 (push_bit 8 ip))) @ ''.'' @
     dec_string (unat (drop_bit 24 (push_bit 16 ip))) @ ''.'' @ dec_string (unat (drop_bit 24 (push_bit 24 ip))) @ nl"

text \<open>The helper of the packet handlers and of the ARP cache, the same without the newline\<close>

definition print_ip_addr :: "u32 \<Rightarrow> string" where
  "print_ip_addr ip =
     dec_string (unat (drop_bit 24 ip)) @ ''.'' @ dec_string (unat (drop_bit 24 (push_bit 8 ip))) @ ''.'' @
     dec_string (unat (drop_bit 24 (push_bit 16 ip))) @ ''.'' @ dec_string (unat (drop_bit 24 (push_bit 24 ip)))"

section \<open>Headers\<close>

definition field_line :: "string \<Rightarrow> nat \<Rightarrow> string" where
  "field_line name v = tab @ name @ '': '' @ dec_string v @ nl"

definition print_hdr_eth :: "byte list \<Rightarrow> string res" where
  "print_hdr_eth buf = rbind (rd_struct sizeof_eth dec_eth buf 0) (\<lambda>ehdr.
     Inr (''ETHERNET header:'' @ nl @ tab @ ''destination: '' @ print_addr_eth (ether_dhost ehdr) @
       tab @ ''source: '' @ print_addr_eth (ether_shost ehdr) @ field_line ''type'' (unat (ntohs (ether_type ehdr)))))"

abbreviation (input) IP_RF :: u16 where "IP_RF \<equiv> 0x8000"
abbreviation (input) IP_DF :: u16 where "IP_DF \<equiv> 0x4000"
abbreviation (input) IP_MF :: u16 where "IP_MF \<equiv> 0x2000"
abbreviation (input) IP_OFFMASK :: u16 where "IP_OFFMASK \<equiv> 0x1FFF"

definition print_hdr_ip :: "byte list \<Rightarrow> string res" where
  "print_hdr_ip buf = rbind (rd_struct sizeof_ip dec_ip buf 0) (\<lambda>iphdr.
     let off = ntohs (ip_off iphdr) in
     Inr (''IP header:'' @ nl @ field_line ''version'' (unat (ip_v iphdr)) @
       field_line ''header length'' (unat (ip_hl iphdr)) @ field_line ''type of service'' (unat (ip_tos iphdr)) @
       field_line ''length'' (unat (ntohs (ip_len iphdr))) @ field_line ''id'' (unat (ntohs (ip_id iphdr))) @
       (if off AND IP_DF \<noteq> 0 then tab @ ''fragment flag: DF'' @ nl
        else if off AND IP_MF \<noteq> 0 then tab @ ''fragment flag: MF'' @ nl
        else if off AND IP_RF \<noteq> 0 then tab @ ''fragment flag: R'' @ nl else []) @
       field_line ''fragment offset'' (unat (off AND IP_OFFMASK)) @ field_line ''TTL'' (unat (ip_ttl iphdr)) @
       field_line ''protocol'' (unat (ip_p iphdr)) @ field_line ''checksum'' (unat (ip_sum iphdr)) @
       tab @ ''source: '' @ print_addr_ip_int (ntohl (ip_src iphdr)) @
       tab @ ''destination: '' @ print_addr_ip_int (ntohl (ip_dst iphdr))))"

text \<open>The report of \<^verbatim>\<open>handle_ip_packet\<close> about a packet that it has received\<close>

definition report_addr :: "u32 \<Rightarrow> string" where
  "report_addr a = (let v = ntohl a in
     dotted (unat (drop_bit 24 v AND 0xFF)) (unat (drop_bit 16 v AND 0xFF)) (unat (drop_bit 8 v AND 0xFF))
       (unat (v AND 0xFF)))"

definition ip_report :: "nat \<Rightarrow> sr_ip_hdr \<Rightarrow> string" where
  "ip_report len ip_hdr =
     (let frag = ntohs (ip_off ip_hdr) in
      ''Receive IP packet, length('' @ dec_string len @ '')'' @ nl @ ''IP Header:'' @ nl @
      field_line ''Version'' (unat (ip_v ip_hdr)) @ field_line ''Header Length'' (unat (ip_hl ip_hdr)) @
      field_line ''Type of Service'' (unat (ip_tos ip_hdr)) @ field_line ''Length'' (unat (ntohs (ip_len ip_hdr))) @
      field_line ''ID'' (unat (ntohs (ip_id ip_hdr))) @
      (if frag AND IP_DF \<noteq> 0 then tab @ ''Fragment flag: DF'' @ nl
       else if frag AND IP_MF \<noteq> 0 then tab @ ''Fragment flag: MF'' @ nl else []) @
      field_line ''Offset'' (unat (frag AND IP_OFFMASK) * 8) @ field_line ''TTL'' (unat (ip_ttl ip_hdr)) @
      field_line ''Protocol'' (unat (ip_p ip_hdr)) @ field_line ''Checksum'' (unat (ntohs (ip_sum ip_hdr))) @
      tab @ ''Source: '' @ report_addr (ip_src ip_hdr) @ nl @ tab @ ''Destination: '' @ report_addr (ip_dst ip_hdr) @ nl)"

definition print_hdr_icmp :: "byte list \<Rightarrow> string res" where
  "print_hdr_icmp buf = rbind (rd_struct sizeof_icmp dec_icmp buf 0) (\<lambda>icmp_hdr.
     Inr (''ICMP header:'' @ nl @ field_line ''type'' (unat (icmp_type icmp_hdr)) @
       field_line ''code'' (unat (icmp_code icmp_hdr)) @ field_line ''checksum'' (unat (icmp_sum icmp_hdr))))"

definition print_hdr_arp :: "byte list \<Rightarrow> string res" where
  "print_hdr_arp buf = rbind (rd_struct sizeof_arp dec_arp buf 0) (\<lambda>arp_hdr.
     Inr (''ARP header'' @ nl @ field_line ''hardware type'' (unat (ntohs (ar_hrd arp_hdr))) @
       field_line ''protocol type'' (unat (ntohs (ar_pro arp_hdr))) @
       field_line ''hardware address length'' (unat (ar_hln arp_hdr)) @
       field_line ''protocol address length'' (unat (ar_pln arp_hdr)) @
       field_line ''opcode'' (unat (ntohs (ar_op arp_hdr))) @
       tab @ ''sender hardware address: '' @ print_addr_eth (ar_sha arp_hdr) @
       tab @ ''sender ip address: '' @ print_addr_ip_int (ntohl (ar_sip arp_hdr)) @
       tab @ ''target hardware address: '' @ print_addr_eth (ar_tha arp_hdr) @
       tab @ ''target ip address: '' @ print_addr_ip_int (ntohl (ar_tip arp_hdr))))"

definition insufficient :: "string \<Rightarrow> string" where
  "insufficient hdr = ''Failed to print '' @ hdr @ '' header, insufficient length'' @ nl"

definition print_hdrs :: "byte list \<Rightarrow> nat \<Rightarrow> string res" where
  "print_hdrs buf len =
     (if len < sizeof_eth then Inr (insufficient ''ETHERNET'')
      else
        rbind (ethertype buf) (\<lambda>ethtype.
        rbind (print_hdr_eth buf) (\<lambda>eth.
          if ethtype = ethertype_ip then
            if len < sizeof_eth + sizeof_ip then Inr (eth @ insufficient ''IP'')
            else
              rbind (print_hdr_ip (drop sizeof_eth buf)) (\<lambda>ip.
              rbind (ip_protocol (drop sizeof_eth buf)) (\<lambda>ip_proto.
                if ip_proto = ip_protocol_icmp then
                  if len < sizeof_eth + sizeof_ip + sizeof_icmp then Inr (eth @ ip @ insufficient ''ICMP'')
                  else rbind (print_hdr_icmp (drop (sizeof_eth + sizeof_ip) buf)) (\<lambda>icmp. Inr (eth @ ip @ icmp))
                else Inr (eth @ ip)))
          else if ethtype = ethertype_arp then
            if len < sizeof_eth + sizeof_arp then Inr (eth @ insufficient ''ARP'')
            else rbind (print_hdr_arp (drop sizeof_eth buf)) (\<lambda>arp. Inr (eth @ arp))
          else Inr (eth @ ''Unrecognized Ethernet Type: '' @ dec_string (unat ethtype) @ nl))))"

section \<open>Tables\<close>

definition sr_print_routing_entry :: "sr_rt \<Rightarrow> string" where
  "sr_print_routing_entry entry = inet_ntoa (rt_dest entry) @ tab @ tab @ inet_ntoa (rt_gw entry) @ tab @
     inet_ntoa (rt_mask entry) @ tab @ rt_interface entry @ nl"

definition sr_print_routing_table :: "sr_rt list \<Rightarrow> string" where
  "sr_print_routing_table rts =
     (if rts = [] then '' *warning* Routing table empty '' @ nl
      else ''Destination'' @ tab @ ''Gateway'' @ tab @ tab @ ''Mask'' @ tab @ ''Iface'' @ nl @
        concat (map sr_print_routing_entry rts))"

fun debug_mac :: "byte list \<Rightarrow> string" where
  "debug_mac [] = []"
| "debug_mac [x] = lower_x 2 (unat x)"
| "debug_mac (x # xs) = lower_x 2 (unat x) @ '':'' @ debug_mac xs"

definition sr_print_if :: "sr_if \<Rightarrow> string" where
  "sr_print_if iface = if_name iface @ tab @ ''HWaddr'' @ debug_mac (enc_mac (if_addr iface)) @ nl @
     tab @ ''inet addr '' @ inet_ntoa (if_ip iface) @ nl"

definition sr_print_if_list :: "sr_if list \<Rightarrow> string" where
  "sr_print_if_list ifs =
     (if ifs = [] then '' Interface list empty '' @ nl else concat (map sr_print_if ifs))"

definition dump_entry :: "(int \<Rightarrow> string) \<Rightarrow> sr_arpentry \<Rightarrow> string" where
  "dump_entry ctime cur = concat (map (\<lambda>b. lower_x 1 (unat b)) (enc_mac (ae_mac cur))) @ ''   '' @
     lower_x 8 (unat (ntohl (ae_ip cur))) @ ''   '' @ take 24 (ctime (ae_added cur)) @ ''   '' @
     dec_string (if ae_valid cur then 1 else 0) @ nl"

definition sr_arpcache_dump :: "(int \<Rightarrow> string) \<Rightarrow> sr_arpcache \<Rightarrow> string" where
  "sr_arpcache_dump ctime c =
     nl @ ''MAC            IP         ADDED                      VALID'' @ nl @
     replicate 59 (CHR ''-'') @ nl @ concat (map (dump_entry ctime) (entries c)) @ nl"

section \<open>Agreement of the address printers\<close>

lemma octet_byte: "unat (drop_bit 24 ip) = unat (byte_of 3 ip)"
proof -
  have "drop_bit 24 ip = ucast (byte_of 3 ip)"
    by (rule bit_word_eqI) (auto simp: byte_of_def bit_simps dest: bit_imp_le_length)
  moreover have "unat (byte_of 3 ip) < 256" using unsigned_less [of "byte_of 3 ip"] by simp
  ultimately show ?thesis by (simp add: unsigned_ucast_eq take_bit_nat_eq_self_iff)
qed

lemma octet_shift:
  "byte_of 3 (push_bit 8 ip) = byte_of 2 ip" "byte_of 3 (push_bit 16 ip) = byte_of 1 ip"
  "byte_of 3 (push_bit 24 ip) = byte_of 0 ip"
  by (rule bit_word_eqI; auto simp: byte_of_def bit_simps)+

lemma byte_and: "unat (drop_bit (8 * k) v AND 0xFF) = unat (byte_of k v)"
proof -
  have m: "(0xFF :: u32) = mask 8" by (simp add: mask_eq_exp_minus_1)
  have "drop_bit (8 * k) v AND 0xFF = ucast (byte_of k v)"
    unfolding m by (rule bit_word_eqI) (auto simp: byte_of_def bit_simps dest: bit_imp_le_length)
  moreover have "unat (byte_of k v) < 256" using unsigned_less [of "byte_of k v"] by simp
  ultimately show ?thesis by (simp add: unsigned_ucast_eq take_bit_nat_eq_self_iff)
qed

lemma report_addr_eq: "report_addr a = inet_ntoa a"
  using byte_and [of 3 "htonl a"] byte_and [of 2 "htonl a"] byte_and [of 1 "htonl a"] byte_and [of 0 "htonl a"]
  by (simp add: report_addr_def inet_ntoa_def htonl_def)

text \<open>
  The printers of addresses agree: an address in host order is printed like the same address in
  network order, and the helper prints the same text without its newline; the report on a received
  packet shows addresses like the listings.
\<close>

lemma address_printers_agree:
  "print_addr_ip_int ip = print_addr_ip (htonl ip)" "print_addr_ip_int ip = print_ip_addr ip @ nl"
  "report_addr a = inet_ntoa a"
  by (simp_all add: report_addr_eq print_addr_ip_int_def print_addr_ip_def print_ip_addr_def inet_ntoa_def dotted_def htonl_def octet_byte octet_shift)

section \<open>Bounds\<close>

lemma print_take:
  assumes "len \<le> length b"
  shows "sizeof_eth \<le> len \<Longrightarrow> print_hdr_eth (take len b) = print_hdr_eth b"
    "sizeof_eth \<le> len \<Longrightarrow> ethertype (take len b) = ethertype b"
    "sizeof_ip \<le> len \<Longrightarrow> print_hdr_ip (take len b) = print_hdr_ip b"
    "sizeof_ip \<le> len \<Longrightarrow> ip_protocol (take len b) = ip_protocol b"
    "sizeof_icmp \<le> len \<Longrightarrow> print_hdr_icmp (take len b) = print_hdr_icmp b"
    "sizeof_arp \<le> len \<Longrightarrow> print_hdr_arp (take len b) = print_hdr_arp b"
  using assms
  by (simp_all add: print_hdr_eth_def print_hdr_ip_def print_hdr_icmp_def print_hdr_arp_def ethertype_def
      ip_protocol_def mslice_take rd8_def)

lemma print_ok:
  "sizeof_eth \<le> length b \<Longrightarrow> rpost (print_hdr_eth b) (\<lambda>_. True)"
  "sizeof_eth \<le> length b \<Longrightarrow> rpost (ethertype b) (\<lambda>_. True)"
  "sizeof_ip \<le> length b \<Longrightarrow> rpost (print_hdr_ip b) (\<lambda>_. True)"
  "sizeof_ip \<le> length b \<Longrightarrow> rpost (ip_protocol b) (\<lambda>_. True)"
  "sizeof_icmp \<le> length b \<Longrightarrow> rpost (print_hdr_icmp b) (\<lambda>_. True)"
  "sizeof_arp \<le> length b \<Longrightarrow> rpost (print_hdr_arp b) (\<lambda>_. True)"
  by (simp_all add: print_hdr_eth_def print_hdr_ip_def print_hdr_icmp_def print_hdr_arp_def ethertype_def
      ip_protocol_def Let_def rpost_iff)

text \<open>
  Claim C36: printing the headers of a packet stays inside the packet. When the given length does not
  exceed the buffer, \<^verbatim>\<open>print_hdrs\<close> never faults, and what it prints depends only on that many bytes.
\<close>

theorem print_hdrs_in_bounds:
  assumes "len \<le> length buf"
  shows "(\<exists>out. print_hdrs buf len = Inr out) \<and> print_hdrs (take len buf) len = print_hdrs buf len"
proof -
  have "print_hdrs (take len buf) len = print_hdrs buf len"
    using assms by (simp add: print_hdrs_def print_take drop_take cong: if_cong rbind_cong)
  moreover have "rpost (print_hdrs buf len) (\<lambda>_. True)"
    unfolding print_hdrs_def using assms by (intro rpost_if rpost_seq) (auto intro!: print_ok)
  ultimately show ?thesis by (simp add: rpost_iff)
qed

theorem print_hdrs_in_bounds_witness:
  "(\<exists>out. print_hdrs (replicate 60 8) 14 = Inr out) \<and>
    print_hdrs (take 14 (replicate 60 8)) 14 = print_hdrs (replicate 60 8) 14"
  using print_hdrs_in_bounds [of 14 "replicate 60 8"] by simp

end
