(* ===== verification/RtFile.thy ===== *)
theory RtFile
  imports Printing VnsComm
begin

text \<open>
  Loading the routing table from a file, \<^verbatim>\<open>sr_load_rt\<close> of \<^verbatim>\<open>sr_rt.c\<close>. Of the C library it uses
  \<^verbatim>\<open>fgets\<close>, \<^verbatim>\<open>sscanf\<close> with four \<^verbatim>\<open>%s\<close> conversions and \<^verbatim>\<open>inet_aton\<close>; the latter is modelled with all
  the notations it accepts (one to four parts, decimal, octal or hexadecimal).

  The four character arrays of 32 bytes are not initialised and keep their contents from line to
  line: a buffer is \<open>None\<close> until a conversion has stored a word into it, and using it before is a
  fault. A word that does not fit with its terminating NUL is written past the end of its array.
\<close>

section \<open>Library functions\<close>

definition is_space :: "char \<Rightarrow> bool" where
  "is_space c \<longleftrightarrow> c \<in> {CHR 0x20, CHR 0x09, CHR 0x0A, CHR 0x0B, CHR 0x0C, CHR 0x0D}"

fun scan_words :: "nat \<Rightarrow> string \<Rightarrow> string list" where
  "scan_words 0 s = []"
| "scan_words (Suc n) s =
     (let s' = dropWhile is_space s; w = takeWhile (\<lambda>c. \<not> is_space c) s' in
      if s' = [] then [] else w # scan_words n (drop (length w) s'))"

definition digit_value :: "char \<Rightarrow> nat option" where
  "digit_value c = (let k = of_char c in
     if 48 \<le> k \<and> k \<le> 57 then Some (k - 48)
     else if 97 \<le> k \<and> k \<le> 102 then Some (k - 87)
     else if 65 \<le> k \<and> k \<le> 70 then Some (k - 55) else None)"

definition is_digit :: "nat \<Rightarrow> char \<Rightarrow> bool" where
  "is_digit base c \<longleftrightarrow> (case digit_value c of None \<Rightarrow> False | Some d \<Rightarrow> d < base)"

fun digits :: "nat \<Rightarrow> nat \<Rightarrow> string \<Rightarrow> nat \<times> string" where
  "digits base acc [] = (acc, [])"
| "digits base acc (c # s) =
     (if is_digit base c then digits base (base * acc + the (digit_value c)) s else (acc, c # s))"

text \<open>\<^verbatim>\<open>strtoul\<close> with base 0 on a string that starts with a decimal digit\<close>

fun strtoul :: "string \<Rightarrow> nat \<times> string" where
  "strtoul (c # x # d # s) =
     (if c = CHR ''0'' \<and> x \<in> {CHR ''x'', CHR ''X''} \<and> is_digit 16 d then digits 16 0 (d # s)
      else if c = CHR ''0'' then digits 8 0 (c # x # d # s) else digits 10 0 (c # x # d # s))"
| "strtoul s = (if take 1 s = ''0'' then digits 8 0 s else digits 10 0 s)"

function inet_parts :: "nat list \<Rightarrow> string \<Rightarrow> (nat list \<times> nat \<times> string) option" where
  "inet_parts parts s =
     (if take 1 s = [] \<or> \<not> is_digit 10 (hd s) then None
      else
        case strtoul s of (val, rest) \<Rightarrow>
          if val > 0xFFFFFFFF then None
          else if take 1 rest = ''.'' then
            if length parts > 2 \<or> val > 0xFF then None else inet_parts (parts @ [val]) (tl rest)
          else Some (parts, val, rest))"
  by pat_completeness auto
termination
  by (relation "measure (\<lambda>(parts, s). 3 - length parts)") auto

declare inet_parts.simps [simp del]

text \<open>
  The parts before the last one fill the address from its first byte on, the last one fills the rest.
  The address is in network order.
\<close>

fun join_parts :: "nat \<Rightarrow> nat list \<Rightarrow> nat" where
  "join_parts pos [] = 0"
| "join_parts pos (p # ps) = p * 256 ^ (3 - pos) + join_parts (Suc pos) ps"

definition inet_aton :: "string \<Rightarrow> u32 option" where
  "inet_aton cp =
     (case inet_parts [] cp of
        None \<Rightarrow> None
      | Some (parts, val, rest) \<Rightarrow>
          if (case rest of [] \<Rightarrow> False | c # _ \<Rightarrow> \<not> is_space c) then None
          else if val > [0xFFFFFFFF, 0xFFFFFF, 0xFFFF, 0xFF] ! length parts then None
          else Some (htonl (of_nat (join_parts 0 parts + val))))"

section \<open>The loader\<close>

record rt_bufs =
  b_dest :: "string option"
  b_gw :: "string option"
  b_mask :: "string option"
  b_iface :: "string option"

definition no_bufs :: rt_bufs where
  "no_bufs = \<lparr>b_dest = None, b_gw = None, b_mask = None, b_iface = None\<rparr>"

definition pick :: "string list \<Rightarrow> nat \<Rightarrow> string option \<Rightarrow> string option" where
  "pick ws i old = (if i < length ws then Some (ws ! i) else old)"

definition sscanf4 :: "string \<Rightarrow> rt_bufs \<Rightarrow> rt_bufs res" where
  "sscanf4 line b =
     (let ws = scan_words 4 line in
      if \<exists>w \<in> set ws. 32 \<le> length w then Inl OutOfBounds
      else Inr \<lparr>b_dest = pick ws 0 (b_dest b), b_gw = pick ws 1 (b_gw b), b_mask = pick ws 2 (b_mask b),
                b_iface = pick ws 3 (b_iface b)\<rparr>)"

definition use_buf :: "string option \<Rightarrow> string res" where
  "use_buf b = (case b of None \<Rightarrow> Inl Uninitialised | Some s \<Rightarrow> Inr s)"

abbreviation (input) BUFSIZ :: nat where "BUFSIZ \<equiv> 8192"

definition line_string :: "byte list \<Rightarrow> string" where
  "line_string line = map (\<lambda>b. char_of (unat b)) (takeWhile (\<lambda>b. b \<noteq> 0) line)"

lemma fgets_shorter: "fst (fgets n content) \<noteq> [] \<Longrightarrow> length (snd (fgets n content)) < length content"
  by (auto simp: fgets_def Let_def split: if_splits)

function load_loop :: "byte list \<Rightarrow> rt_bufs \<Rightarrow> bool \<Rightarrow> sr_rt list \<Rightarrow> (int \<times> sr_rt list) res" where
  "load_loop content bufs cleared rts =
     (if fst (fgets BUFSIZ content) = [] then Inr (0, rts)
      else
        rbind (sscanf4 (line_string (fst (fgets BUFSIZ content))) bufs) (\<lambda>b.
        rbind (use_buf (b_dest b)) (\<lambda>dest.
        case inet_aton dest of None \<Rightarrow> Inr (- 1, rts)
        | Some dest_addr \<Rightarrow>
        rbind (use_buf (b_gw b)) (\<lambda>gw.
        case inet_aton gw of None \<Rightarrow> Inr (- 1, rts)
        | Some gw_addr \<Rightarrow>
        rbind (use_buf (b_mask b)) (\<lambda>msk.
        case inet_aton msk of None \<Rightarrow> Inr (- 1, rts)
        | Some mask_addr \<Rightarrow>
        rbind (use_buf (b_iface b)) (\<lambda>iface.
          load_loop (snd (fgets BUFSIZ content)) b True
            (sr_add_rt_entry (if cleared then rts else []) dest_addr gw_addr mask_addr iface)))))))"
  by pat_completeness auto
termination
  by (relation "measure (\<lambda>(content, _). length content)") (auto intro: fgets_shorter)

declare load_loop.simps [simp del]

definition sr_load_rt :: "sr_rt list \<Rightarrow> byte list option \<Rightarrow> (int \<times> sr_rt list) res" where
  "sr_load_rt rts file =
     (case file of None \<Rightarrow> Inr (- 1, rts) | Some content \<Rightarrow> load_loop content no_bufs False rts)"


section \<open>Numbers and addresses read back\<close>

lemma of_char_digit_char [simp]: "d < 10 \<Longrightarrow> of_char (digit_char d) = 48 + d"
  by (simp add: digit_char_def of_char_of)

lemma digit_value_digit_char [simp]: "d < 10 \<Longrightarrow> digit_value (digit_char d) = Some d"
  by (simp add: digit_value_def)

lemma is_digit_digit_char [simp]: "d < 10 \<Longrightarrow> is_digit 10 (digit_char d)"
  by (simp add: is_digit_def)

lemma digit_not_special: "is_digit 10 c \<Longrightarrow> 48 \<le> (of_char c :: nat) \<and> of_char c \<le> (57 :: nat)"
  by (auto simp: is_digit_def digit_value_def Let_def split: if_splits)

definition value_of :: "string \<Rightarrow> nat" where
  "value_of s = foldl (\<lambda>acc c. 10 * acc + the (digit_value c)) 0 s"

lemma digits_append:
  "list_all (is_digit 10) s \<Longrightarrow>
     digits 10 acc (s @ r) = digits 10 (foldl (\<lambda>acc c. 10 * acc + the (digit_value c)) acc s) r"
  by (induction s arbitrary: acc) simp_all

lemma dec_string_digits: "list_all (is_digit 10) (dec_string n) \<and> value_of (dec_string n) = n \<and> dec_string n \<noteq> []"
proof (induction n rule: dec_string.induct)
  case (1 n)
  show ?case
  proof (cases "n < 10")
    case False
    with 1 show ?thesis
      by (subst (1 2 3) dec_string.simps) (simp add: value_of_def)
  qed (subst (1 2 3) dec_string.simps, simp add: value_of_def)
qed

lemma dec_string_lead: "0 < n \<Longrightarrow> hd (dec_string n) \<noteq> CHR ''0''"
proof (induction n rule: dec_string.induct)
  case (1 n)
  show ?case
  proof (cases "n < 10")
    case True
    then have "of_char (hd (dec_string n)) = 48 + n" by (subst dec_string.simps) simp
    with 1(2) show ?thesis by auto
  next
    case False
    with 1(1) dec_string_digits [of "n div 10"] show ?thesis by (subst dec_string.simps) simp
  qed
qed

lemma length_dec_string: "n < 256 \<Longrightarrow> length (dec_string n) \<le> 3"
  by (subst dec_string.simps, subst dec_string.simps, subst dec_string.simps) (simp add: div_mult2_eq [symmetric])

text \<open>What may follow a number so that the conversion stops there.\<close>

definition stops :: "string \<Rightarrow> bool" where
  "stops r \<longleftrightarrow> (case r of [] \<Rightarrow> True | c # _ \<Rightarrow> \<not> is_digit 10 c \<and> c \<notin> {CHR ''x'', CHR ''X''})"

lemma digits_stops: "stops r \<Longrightarrow> b \<le> 10 \<Longrightarrow> digits b acc r = (acc, r)"
  by (cases r) (auto simp: stops_def is_digit_def split: option.splits)

lemma strtoul_decimal: "hd s \<noteq> CHR ''0'' \<Longrightarrow> s \<noteq> [] \<Longrightarrow> strtoul s = digits 10 0 s"
  by (cases s rule: strtoul.cases) auto

lemma strtoul_zero: "stops r \<Longrightarrow> strtoul (CHR ''0'' # r) = (0, r)"
proof -
  assume r: "stops r"
  have d: "digits 8 0 (CHR ''0'' # r) = (0, r)"
    using digits_stops [OF r, of 8 0] by (simp add: is_digit_def digit_value_def)
  show ?thesis
    using r d by (cases "CHR ''0'' # r" rule: strtoul.cases) (auto simp: stops_def)
qed

lemma digit_char_0: "digit_char 0 = CHR ''0''"
  by code_simp

lemma strtoul_dec_string: "stops r \<Longrightarrow> strtoul (dec_string n @ r) = (n, r)"
proof (cases "n = 0")
  case True
  moreover assume "stops r"
  ultimately show ?thesis
    using strtoul_zero by (subst dec_string.simps) (simp add: digit_char_0)
next
  case False
  assume r: "stops r"
  have "strtoul (dec_string n @ r) = digits 10 0 (dec_string n @ r)"
    using dec_string_digits [of n] dec_string_lead [of n] False by (intro strtoul_decimal) auto
  also have "\<dots> = digits 10 (value_of (dec_string n)) r"
    using dec_string_digits [of n] by (subst digits_append) (simp_all add: value_of_def)
  also have "\<dots> = (n, r)" using dec_string_digits [of n] digits_stops [OF r] by simp
  finally show ?thesis .
qed

lemma stops_dot [simp]: "stops (CHR ''.'' # s)"
  by (simp add: stops_def is_digit_def digit_value_def)

lemma stops_nil [simp]: "stops []"
  by (simp add: stops_def)

lemma inet_parts_dec:
  assumes "stops r" "n < 256"
  shows "inet_parts parts (dec_string n @ r) =
    (if take 1 r = ''.'' then if length parts > 2 then None else inet_parts (parts @ [n]) (tl r)
     else Some (parts, n, r))"
proof -
  have "dec_string n \<noteq> []" "is_digit 10 (hd (dec_string n))"
    using dec_string_digits [of n] by (cases "dec_string n"; simp)+
  then show ?thesis
    using assms by (subst inet_parts.simps) (simp add: strtoul_dec_string)
qed

lemma inet_aton_dotted:
  assumes "a < 256" "b < 256" "c < 256" "d < 256"
  shows "inet_aton (dotted a b c d) = Some (htonl (of_nat (a * 16777216 + b * 65536 + c * 256 + d)))"
proof -
  have "inet_parts [] (dotted a b c d) = Some ([a, b, c], d, [])"
    using assms inet_parts_dec [of "[]" d "[a, b, c]"] by (simp add: dotted_def inet_parts_dec)
  then show ?thesis using assms(4) by (simp add: inet_aton_def ac_simps)
qed

lemma mk32_sum:
  "mk32 a b c d = of_nat (unat d * 16777216 + unat c * 65536 + unat b * 256 + unat a)"
proof -
  have "mk32 a b c d = ucast a OR (push_bit 8 (ucast b) OR (push_bit 16 (ucast c) OR push_bit 24 (ucast d)))"
    by (simp add: mk32_def ac_simps)
  also have "\<dots> = ucast a + (push_bit 8 (ucast b) OR (push_bit 16 (ucast c) OR push_bit 24 (ucast d)))"
    by (rule disjunctive_add [symmetric]) (auto simp: bit_simps dest: bit_imp_le_length)
  also have "push_bit 8 (ucast b) OR (push_bit 16 (ucast c) OR push_bit 24 (ucast d)) =
      push_bit 8 (ucast b) + (push_bit 16 (ucast c) OR push_bit 24 (ucast d) :: u32)"
    by (rule disjunctive_add [symmetric]) (auto simp: bit_simps dest: bit_imp_le_length)
  also have "push_bit 16 (ucast c) OR push_bit 24 (ucast d) = push_bit 16 (ucast c) + (push_bit 24 (ucast d) :: u32)"
    by (rule disjunctive_add [symmetric]) (auto simp: bit_simps dest: bit_imp_le_length)
  finally show ?thesis by (simp add: push_bit_eq_mult)
qed

lemma inet_aton_ntoa: "inet_aton (inet_ntoa ip) = Some ip"
proof -
  have b: "unat (byte_of k ip) < 256" for k
    using unsigned_less [of "byte_of k ip"] by simp
  have "inet_aton (inet_ntoa ip) = Some (htonl (mk32 (byte_of 3 ip) (byte_of 2 ip) (byte_of 1 ip) (byte_of 0 ip)))"
    unfolding inet_ntoa_def mk32_sum by (rule inet_aton_dotted; rule b)
  then show ?thesis by (simp add: htonl_def)
qed


section \<open>Words of a line\<close>

definition word_ok :: "string \<Rightarrow> bool" where
  "word_ok w \<longleftrightarrow> w \<noteq> [] \<and> length w < 32 \<and> (\<forall>c \<in> set w. \<not> is_space c \<and> c \<noteq> CHR 0x00)"

lemma scan_word:
  assumes "w \<noteq> []" "\<forall>c \<in> set w. \<not> is_space c" "is_space sp" "\<forall>c \<in> set pre. is_space c"
  shows "scan_words (Suc n) (pre @ w @ sp # s) = w # scan_words n (sp # s)"
proof -
  have "dropWhile is_space (pre @ w @ sp # s) = w @ sp # s"
    using assms by (cases w) (simp_all add: dropWhile_append2)
  moreover have "takeWhile (\<lambda>c. \<not> is_space c) (w @ sp # s) = w"
    using assms(2,3) by (subst takeWhile_append2) auto
  ultimately show ?thesis using assms(1) by (simp add: Let_def)
qed

lemma digit_char_ok: "is_digit 10 c \<Longrightarrow> \<not> is_space c \<and> c \<noteq> CHR 0x00"
  using digit_not_special [of c] by (auto simp: is_space_def)

lemma word_ok_ntoa: "word_ok (inet_ntoa ip)"
proof -
  have b: "unat (byte_of k ip) < 256" for k
    using unsigned_less [of "byte_of k ip"] by simp
  have "\<forall>c \<in> set (dec_string n). \<not> is_space c \<and> c \<noteq> CHR 0x00" for n
    using dec_string_digits [of n] digit_char_ok by (auto simp: list_all_iff)
  moreover have "\<not> is_space (CHR ''.'')" by (simp add: is_space_def)
  moreover have "length (dec_string (unat (byte_of k ip))) \<le> 3" for k by (rule length_dec_string) (rule b)
  note this [of 0] this [of 1] this [of 2] this [of 3]
  ultimately show ?thesis
    by (auto simp: word_ok_def inet_ntoa_def dotted_def)
qed

lemma scan_entry:
  assumes "word_ok (rt_interface rt)"
  shows "scan_words 4 (sr_print_routing_entry rt) =
    [inet_ntoa (rt_dest rt), inet_ntoa (rt_gw rt), inet_ntoa (rt_mask rt), rt_interface rt]"
proof -
  let ?d = "inet_ntoa (rt_dest rt)" and ?g = "inet_ntoa (rt_gw rt)" and ?m = "inet_ntoa (rt_mask rt)"
  have ok: "inet_ntoa ip \<noteq> []" "\<forall>c \<in> set (inet_ntoa ip). \<not> is_space c" for ip
    using word_ok_ntoa [of ip] by (auto simp: word_ok_def)
  have i: "rt_interface rt \<noteq> []" "\<forall>c \<in> set (rt_interface rt). \<not> is_space c"
    using assms by (auto simp: word_ok_def)
  have sp: "is_space (CHR 0x09)" "is_space (CHR 0x0A)" by (simp_all add: is_space_def)
  have "scan_words 4 (sr_print_routing_entry rt) =
      scan_words (Suc 3) ([] @ ?d @ CHR 0x09 # [CHR 0x09] @ ?g @ tab @ ?m @ tab @ rt_interface rt @ nl)"
    by (simp add: sr_print_routing_entry_def eval_nat_numeral)
  also have "\<dots> = ?d # scan_words (Suc 2) ([CHR 0x09, CHR 0x09] @ ?g @ CHR 0x09 # ?m @ tab @ rt_interface rt @ nl)"
    by (subst scan_word [OF ok sp(1)]) (simp_all add: eval_nat_numeral)
  also have "\<dots> = ?d # ?g # scan_words (Suc 1) ([CHR 0x09] @ ?m @ CHR 0x09 # rt_interface rt @ nl)"
    by (subst scan_word [OF ok sp(1)]) (simp_all add: sp eval_nat_numeral)
  also have "\<dots> = ?d # ?g # ?m # scan_words (Suc 0) ([CHR 0x09] @ rt_interface rt @ CHR 0x0A # [])"
    by (subst scan_word [OF ok sp(1)]) (simp_all add: sp)
  also have "\<dots> = [?d, ?g, ?m, rt_interface rt]"
    by (subst scan_word [OF i sp(2)]) (simp_all add: sp)
  finally show ?thesis .
qed

section \<open>Loading what was printed\<close>

definition bytes_of :: "string \<Rightarrow> byte list" where
  "bytes_of s = map of_char s"

lemma bytes_of_append: "bytes_of (a @ b) = bytes_of a @ bytes_of b"
  by (simp add: bytes_of_def)

lemma line_string_bytes: "CHR 0x00 \<notin> set s \<Longrightarrow> line_string (bytes_of s) = s"
proof -
  assume "CHR 0x00 \<notin> set s"
  then have "takeWhile (\<lambda>b. b \<noteq> 0) (bytes_of s) = bytes_of s"
    by (auto simp: takeWhile_eq_all_conv bytes_of_def of_char_eq_0)
  then show ?thesis
    unfolding line_string_def by (simp only:) (simp add: bytes_of_def comp_def)
qed

lemma of_char_eq_10: "(of_char c :: byte) = 10 \<longleftrightarrow> c = CHR 0x0A"
proof
  assume "(of_char c :: byte) = 10"
  then have "of_char c = (of_char (CHR 0x0A) :: nat)" using unat_of_char [of c] by simp
  then show "c = CHR 0x0A" by (simp only: of_char_eq_iff)
qed simp

lemma fgets_line:
  assumes "10 \<notin> set line" "length line < n - 1"
  shows "fgets n (line @ 10 # rest) = (line @ [10], rest)"
proof -
  have "takeWhile (\<lambda>b. b \<noteq> 10) (take (n - 1) (line @ 10 # rest)) = line"
  proof -
    obtain k where k: "n - 1 - length line = Suc k" using assms(2) by (cases "n - 1 - length line") auto
    have "\<forall>b \<in> set line. b \<noteq> 10" using assms(1) by auto
    then have "takeWhile (\<lambda>b. b \<noteq> 10) (line @ 10 # take k rest) = line"
      by (subst takeWhile_append2) auto
    with k assms(2) show ?thesis by simp
  qed
  moreover have "length line < length (take (n - 1) (line @ 10 # rest))" using assms(2) by simp
  ultimately show ?thesis by (simp add: fgets_def Let_def)
qed

lemma entry_line:
  assumes "word_ok (rt_interface rt)"
  obtains l where "sr_print_routing_entry rt = l @ nl" "CHR 0x0A \<notin> set l" "CHR 0x00 \<notin> set l"
    "length l < 8191"
proof (rule that)
  let ?l = "inet_ntoa (rt_dest rt) @ tab @ tab @ inet_ntoa (rt_gw rt) @ tab @ inet_ntoa (rt_mask rt) @ tab @
    rt_interface rt"
  have ok: "c \<noteq> CHR 0x0A" "c \<noteq> CHR 0x00" if "word_ok w" "c \<in> set w" for c w
    using that by (auto simp: word_ok_def is_space_def)
  note words = word_ok_ntoa [of "rt_dest rt"] word_ok_ntoa [of "rt_gw rt"] word_ok_ntoa [of "rt_mask rt"] assms
  show "sr_print_routing_entry rt = ?l @ nl" by (simp add: sr_print_routing_entry_def)
  show "CHR 0x0A \<notin> set ?l" "CHR 0x00 \<notin> set ?l" using ok words by auto
  have "length (inet_ntoa ip) < 32" for ip using word_ok_ntoa [of ip] by (simp add: word_ok_def)
  from this [of "rt_dest rt"] this [of "rt_gw rt"] this [of "rt_mask rt"] assms
  show "length ?l < 8191" by (simp add: word_ok_def)
qed

lemma entry_fgets:
  assumes "word_ok (rt_interface rt)"
  shows "fgets BUFSIZ (bytes_of (sr_print_routing_entry rt) @ rest) = (bytes_of (sr_print_routing_entry rt), rest)"
    "line_string (bytes_of (sr_print_routing_entry rt)) = sr_print_routing_entry rt"
    "bytes_of (sr_print_routing_entry rt) \<noteq> []"
proof -
  obtain l where l: "sr_print_routing_entry rt = l @ nl" "CHR 0x0A \<notin> set l" "CHR 0x00 \<notin> set l"
      "length l < 8191"
    by (rule entry_line [OF assms])
  have e: "bytes_of (sr_print_routing_entry rt) = bytes_of l @ [10]" by (simp add: l(1) bytes_of_def)
  have "(10 :: byte) \<notin> set (bytes_of l)"
  proof
    assume "(10 :: byte) \<in> set (bytes_of l)"
    then have "(10 :: byte) \<in> of_char ` set l" by (simp only: bytes_of_def set_map)
    then obtain c where "c \<in> set l" "(of_char c :: byte) = 10" by (rule imageE) simp
    from iffD1 [OF of_char_eq_10 this(2)] this(1) l(2) show False by simp
  qed
  moreover have "length (bytes_of l) < BUFSIZ - 1" using l(4) by (simp add: bytes_of_def)
  ultimately have "fgets BUFSIZ (bytes_of l @ 10 # rest) = (bytes_of l @ [10], rest)" by (rule fgets_line)
  then show "fgets BUFSIZ (bytes_of (sr_print_routing_entry rt) @ rest) = (bytes_of (sr_print_routing_entry rt), rest)"
    by (simp only: e append_assoc append_Cons append_Nil)
  have "CHR 0x00 \<notin> set (sr_print_routing_entry rt)" using l(3) by (simp add: l(1))
  then show "line_string (bytes_of (sr_print_routing_entry rt)) = sr_print_routing_entry rt"
    by (rule line_string_bytes)
  show "bytes_of (sr_print_routing_entry rt) \<noteq> []" by (simp add: e)
qed

definition bufs_of :: "sr_rt \<Rightarrow> rt_bufs" where
  "bufs_of rt = \<lparr>b_dest = Some (inet_ntoa (rt_dest rt)), b_gw = Some (inet_ntoa (rt_gw rt)),
     b_mask = Some (inet_ntoa (rt_mask rt)), b_iface = Some (rt_interface rt)\<rparr>"

lemma sscanf_entry:
  assumes "word_ok (rt_interface rt)"
  shows "sscanf4 (sr_print_routing_entry rt) b = Inr (bufs_of rt)"
proof -
  have len: "\<not> 32 \<le> length (inet_ntoa ip)" for ip using word_ok_ntoa [of ip] by (simp add: word_ok_def)
  have "\<not> 32 \<le> length (rt_interface rt)" using assms by (simp add: word_ok_def)
  with len show ?thesis by (simp add: sscanf4_def scan_entry [OF assms] Let_def pick_def bufs_of_def)
qed

lemma load_stored:
  assumes "word_ok (rt_interface rt)" "line \<noteq> []" "fgets BUFSIZ content = (line, rest)"
    "sscanf4 (line_string line) b = Inr (bufs_of rt)"
  shows "load_loop content b cleared acc =
    load_loop rest (bufs_of rt) True ((if cleared then acc else []) @ [rt])"
proof -
  have add: "sr_add_rt_entry xs (rt_dest rt) (rt_gw rt) (rt_mask rt) (rt_interface rt) = xs @ [rt]" for xs
    using assms(1) by (induction xs) (simp_all add: strncpy_def word_ok_def)
  have buf: "use_buf (b_dest (bufs_of rt)) = Inr (inet_ntoa (rt_dest rt))"
    "use_buf (b_gw (bufs_of rt)) = Inr (inet_ntoa (rt_gw rt))"
    "use_buf (b_mask (bufs_of rt)) = Inr (inet_ntoa (rt_mask rt))"
    "use_buf (b_iface (bufs_of rt)) = Inr (rt_interface rt)"
    by (simp_all add: use_buf_def bufs_of_def)
  show ?thesis
    using assms(2)
    by (subst load_loop.simps)
      (simp only: assms(3,4) fst_conv snd_conv if_False rbind_simps buf option.case inet_aton_ntoa add)
qed

lemma load_entries:
  "list_all (\<lambda>rt. word_ok (rt_interface rt)) rts \<Longrightarrow> rts \<noteq> [] \<Longrightarrow>
     load_loop (bytes_of (concat (map sr_print_routing_entry rts)) @ rest) b cleared acc =
     load_loop rest (bufs_of (last rts)) True ((if cleared then acc else []) @ rts)"
proof (induction rts arbitrary: b cleared acc)
  case (Cons rt rts)
  then have ok: "word_ok (rt_interface rt)" by simp
  let ?rest = "bytes_of (concat (map sr_print_routing_entry rts)) @ rest"
  have "sscanf4 (line_string (bytes_of (sr_print_routing_entry rt))) b = Inr (bufs_of rt)"
    by (simp only: entry_fgets(2) [OF ok] sscanf_entry [OF ok])
  from load_stored [OF ok entry_fgets(3,1) [OF ok] this, of ?rest cleared acc]
  have "load_loop (bytes_of (sr_print_routing_entry rt) @ ?rest) b cleared acc =
      load_loop ?rest (bufs_of rt) True ((if cleared then acc else []) @ [rt])" .
  with Cons show ?case by (cases "rts = []") (simp_all add: bytes_of_append bytes_of_def)
qed simp

lemma load_end: "load_loop [] b cleared acc = Inr (0, acc)"
  by (subst load_loop.simps) (simp add: fgets_def)

text \<open>A line whose words are those of a route, before other lines or at the end of the file\<close>

definition row_words :: "sr_rt \<Rightarrow> string list" where
  "row_words rt = [inet_ntoa (rt_dest rt), inet_ntoa (rt_gw rt), inet_ntoa (rt_mask rt), rt_interface rt]"

lemma sscanf_row:
  assumes "word_ok (rt_interface rt)" "scan_words 4 l = row_words rt"
  shows "sscanf4 l b = Inr (bufs_of rt)"
proof -
  have "\<not> 32 \<le> length (inet_ntoa ip)" for ip using word_ok_ntoa [of ip] by (simp add: word_ok_def)
  with assms show ?thesis by (simp add: sscanf4_def row_words_def Let_def pick_def bufs_of_def word_ok_def)
qed

lemma load_row:
  assumes "word_ok (rt_interface rt)" "CHR 0x0A \<notin> set l" "CHR 0x00 \<notin> set l" "length l < 8191" "l \<noteq> []"
  shows "scan_words 4 (l @ nl) = row_words rt \<Longrightarrow> load_loop (bytes_of (l @ nl) @ rest) b cleared acc =
      load_loop rest (bufs_of rt) True ((if cleared then acc else []) @ [rt])"
    and "scan_words 4 l = row_words rt \<Longrightarrow> load_loop (bytes_of l) b cleared acc =
      Inr (0, (if cleared then acc else []) @ [rt])"
proof -
  have n: "10 \<notin> set (bytes_of l)" "length (bytes_of l) < BUFSIZ - 1"
    using assms(2,4) by (simp_all add: bytes_of_def image_iff eq_commute [of 10] of_char_eq_10)
  have ne: "bytes_of l \<noteq> []" using assms(5) by (simp add: bytes_of_def)
  show "load_loop (bytes_of (l @ nl) @ rest) b cleared acc =
      load_loop rest (bufs_of rt) True ((if cleared then acc else []) @ [rt])"
    if "scan_words 4 (l @ nl) = row_words rt"
  proof (rule load_stored [OF assms(1)])
    show "fgets BUFSIZ (bytes_of (l @ nl) @ rest) = (bytes_of (l @ nl), rest)"
      using fgets_line [OF n, of rest] by (simp add: bytes_of_def)
    have "line_string (bytes_of (l @ nl)) = l @ nl" using assms(3) by (intro line_string_bytes) simp
    then show "sscanf4 (line_string (bytes_of (l @ nl))) b = Inr (bufs_of rt)"
      using sscanf_row [OF assms(1) that] by simp
  qed (simp add: bytes_of_def)
  have t: "takeWhile (\<lambda>b. b \<noteq> 10) (bytes_of l) = bytes_of l" "take (BUFSIZ - 1) (bytes_of l) = bytes_of l"
    using n by (auto simp: takeWhile_eq_all_conv)
  have f: "fgets BUFSIZ (bytes_of l) = (bytes_of l, [])" unfolding fgets_def Let_def t by simp
  show "load_loop (bytes_of l) b cleared acc = Inr (0, (if cleared then acc else []) @ [rt])"
    if "scan_words 4 l = row_words rt"
    using load_stored [OF assms(1) ne f, of b cleared acc] sscanf_row [OF assms(1) that]
    by (simp add: line_string_bytes [OF assms(3)] load_end)
qed

text \<open>A file that \<^verbatim>\<open>sr_load_rt\<close> accepts, in whatever layout, and the table that it gives.\<close>

definition loads :: "byte list \<Rightarrow> sr_rt list \<Rightarrow> bool" where
  "loads tbl rts \<longleftrightarrow> sr_load_rt [] (Some tbl) = Inr (0, rts)"

text \<open>What a successful load gives does not depend on the table that was there before, unless the file is empty.\<close>

lemma same_success:
  "(\<And>x. f x = Inr y \<longrightarrow> g x = Inr y) \<Longrightarrow> rbind m f = Inr y \<longrightarrow> rbind m g = Inr y"
  "(\<And>x. f x = (Inr (0, rts) :: (int \<times> sr_rt list) res) \<longrightarrow> g x = Inr (0, rts)) \<Longrightarrow>
    (case opt of None \<Rightarrow> Inr (- 1, a) | Some x \<Rightarrow> f x) = Inr (0, rts) \<longrightarrow>
    (case opt of None \<Rightarrow> Inr (- 1, b) | Some x \<Rightarrow> g x) = Inr (0, rts)"
  by (cases m; simp) (cases opt; simp)

lemma load_fresh:
  assumes "fst (fgets BUFSIZ c) \<noteq> []"
  shows "load_loop c b False [] = Inr (0, rts) \<longrightarrow> load_loop c b False old = Inr (0, rts)"
  unfolding load_loop.simps [of c b False "[]"] load_loop.simps [of c b False old] if_not_P [OF assms] if_False
  by (intro same_success) simp

lemma loads_again:
  assumes "loads tbl rts" "old \<in> {[], rts}"
  shows "sr_load_rt old (Some tbl) = Inr (0, rts)"
proof (cases "fst (fgets BUFSIZ tbl) = []")
  case True
  then have "load_loop tbl no_bufs False rts' = Inr (0, rts')" for rts'
    by (subst load_loop.simps) (simp only: simp_thms if_True)
  from this [of "[]"] this [of old] assms show ?thesis
    unfolding loads_def sr_load_rt_def option.case by (elim insertE) simp_all
next
  case False
  from load_fresh [OF this, of no_bufs rts old] assms(1) show ?thesis
    unfolding loads_def sr_load_rt_def option.case by (rule mp)
qed

text \<open>
  Claim C23: a routing table survives printing and loading. When the interface names are words of
  fewer than 32 characters, loading the lines that \<^verbatim>\<open>sr_print_routing_entry\<close> prints for the entries of
  a non-empty table succeeds and gives exactly that table, whatever table was loaded before.
\<close>

theorem routing_table_roundtrip:
  assumes "list_all (\<lambda>rt. word_ok (rt_interface rt)) rts" and "rts \<noteq> []"
  shows "sr_load_rt old (Some (bytes_of (concat (map sr_print_routing_entry rts)))) = Inr (0, rts)"
  using load_entries [OF assms, of "[]" no_bufs False old] by (simp add: sr_load_rt_def load_end)

text \<open>
  A blank line in the routing table file repeats the entry before it. The conversion of a
  line without words stores nothing, its result is not checked, and the buffers still hold the
  previous line: a table file with an empty line at its end is loaded with its last entry twice.
\<close>

theorem blank_line_repeats_entry:
  assumes "list_all (\<lambda>rt. word_ok (rt_interface rt)) rts" and "rts \<noteq> []"
  shows "sr_load_rt old (Some (bytes_of (concat (map sr_print_routing_entry rts) @ nl))) = Inr (0, rts @ [last rts])"
proof -
  have ok: "word_ok (rt_interface (last rts))" using assms by (simp add: list_all_iff)
  have "line_string [10] = nl" using line_string_bytes [of nl] by (simp add: bytes_of_def)
  moreover have "scan_words 4 nl = []" by (simp add: eval_nat_numeral is_space_def)
  ultimately have "sscanf4 (line_string [10]) (bufs_of (last rts)) = Inr (bufs_of (last rts))"
    by (simp add: sscanf4_def pick_def bufs_of_def)
  moreover have "fgets BUFSIZ [10] = ([10], [])" by (simp add: fgets_def)
  ultimately have "load_loop [10] (bufs_of (last rts)) True rts = Inr (0, rts @ [last rts])"
    using load_stored [OF ok, of "[10]" "[10]" "[]" "bufs_of (last rts)" True rts] by (simp add: load_end)
  with load_entries [OF assms, of "[10]" no_bufs False old] show ?thesis
    by (simp add: sr_load_rt_def bytes_of_def)
qed

section \<open>Examples\<close>

definition ex_route :: sr_rt where
  "ex_route = \<lparr>rt_dest = htonl 0x0A000100, rt_gw = 0, rt_mask = htonl 0xFFFFFF00, rt_interface = ''eth1''\<rparr>"

lemma ex_route_ok: "word_ok (rt_interface ex_route)"
  by (simp add: word_ok_def ex_route_def is_space_def)

theorem routing_table_roundtrip_witness:
  "sr_load_rt [] (Some (bytes_of (sr_print_routing_entry ex_route))) = Inr (0, [ex_route])"
  using routing_table_roundtrip [of "[ex_route]" "[]"] ex_route_ok by simp

theorem blank_line_repeats_entry_witness:
  "sr_load_rt [] (Some (bytes_of (sr_print_routing_entry ex_route @ nl))) = Inr (0, [ex_route, ex_route])"
  using blank_line_repeats_entry [of "[ex_route]" "[]"] ex_route_ok by simp

text \<open>The repository's \<^verbatim>\<open>rtable\<close>, which has other separators than the printer and no newline at its end\<close>

definition ex_rtable_text :: string where
  "ex_rtable_text = ''10.0.1.100  10.0.1.100  255.255.255.255 eth3'' @ nl @
     ''192.168.2.2 192.168.2.2 255.255.255.255 eth1'' @ nl @ ''172.64.3.10  172.64.3.10  255.255.255.255 eth2''"

lemma ex_addresses:
  "inet_ntoa (htonl 0x0A000164) = ''10.0.1.100''" "inet_ntoa (htonl 0xC0A80202) = ''192.168.2.2''"
  "inet_ntoa (htonl 0xAC40030A) = ''172.64.3.10''" "inet_ntoa 0xFFFFFFFF = ''255.255.255.255''"
  by (simp_all add: inet_ntoa_def dotted_def digit_char_def dec_string.simps byte_simps char_of_eq_iff)

lemma ex_rows:
  "scan_words 4 (''10.0.1.100  10.0.1.100  255.255.255.255 eth3'' @ nl) =
     [''10.0.1.100'', ''10.0.1.100'', ''255.255.255.255'', ''eth3'']"
  "scan_words 4 (''192.168.2.2 192.168.2.2 255.255.255.255 eth1'' @ nl) =
     [''192.168.2.2'', ''192.168.2.2'', ''255.255.255.255'', ''eth1'']"
  "scan_words 4 ''172.64.3.10  172.64.3.10  255.255.255.255 eth2'' =
     [''172.64.3.10'', ''172.64.3.10'', ''255.255.255.255'', ''eth2'']"
  by (simp_all add: eval_nat_numeral is_space_def Let_def)

lemma ex_rtable_loads: "loads (bytes_of ex_rtable_text) ex_rtable"
proof -
  have ok: "word_ok (rt_interface (ex_rtable ! 0))" "word_ok (rt_interface (ex_rtable ! 1))"
      "word_ok (rt_interface (ex_rtable ! 2))"
    and rows: "row_words (ex_rtable ! 0) = [''10.0.1.100'', ''10.0.1.100'', ''255.255.255.255'', ''eth3'']"
      "row_words (ex_rtable ! 1) = [''192.168.2.2'', ''192.168.2.2'', ''255.255.255.255'', ''eth1'']"
      "row_words (ex_rtable ! 2) = [''172.64.3.10'', ''172.64.3.10'', ''255.255.255.255'', ''eth2'']"
    by (simp_all add: ex_rtable_def word_ok_def is_space_def row_words_def ex_addresses)
  let ?l1 = "''10.0.1.100  10.0.1.100  255.255.255.255 eth3''" and ?l2 = "''192.168.2.2 192.168.2.2 255.255.255.255 eth1''"
    and ?l3 = "''172.64.3.10  172.64.3.10  255.255.255.255 eth2''"
  have "load_loop (bytes_of ?l3) b True acc = Inr (0, acc @ [ex_rtable ! 2])" for b acc
    using load_row(2) [OF ok(3) _ _ _ _ ex_rows(3) [folded rows(3)]] by simp
  moreover have "load_loop (bytes_of (?l2 @ nl) @ rest) b True acc =
      load_loop rest (bufs_of (ex_rtable ! 1)) True (acc @ [ex_rtable ! 1])" for rest b acc
    using load_row(1) [OF ok(2) _ _ _ _ ex_rows(2) [folded rows(2)]] by simp
  moreover have "load_loop (bytes_of (?l1 @ nl) @ rest) b False acc =
      load_loop rest (bufs_of (ex_rtable ! 0)) True [ex_rtable ! 0]" for rest b acc
    using load_row(1) [OF ok(1) _ _ _ _ ex_rows(1) [folded rows(1)]] by simp
  moreover have "bytes_of ex_rtable_text = bytes_of (?l1 @ nl) @ bytes_of (?l2 @ nl) @ bytes_of ?l3"
    by (simp only: ex_rtable_text_def bytes_of_append append_assoc)
  ultimately have "sr_load_rt [] (Some (bytes_of ex_rtable_text)) =
      Inr (0, (([ex_rtable ! 0] @ [ex_rtable ! 1]) @ [ex_rtable ! 2]))"
    unfolding sr_load_rt_def option.case by (simp only:)
  then show ?thesis by (simp add: loads_def ex_rtable_def)
qed

end
