(* ===== verification/Startup.thy ===== *)
theory Startup
  imports VnsCommands RtFile
begin

text \<open>
  The program entry, \<^verbatim>\<open>sr_main.c\<close>: option parsing, the initial instance, loading the routing table,
  opening the session and the main loop. \<^verbatim>\<open>getopt\<close> is represented by the list of options it
  delivers, \<open>passwd\<close> is the user name that \<^verbatim>\<open>getpwuid\<close> finds, if any. The result of the program is
  its exit status with the final state; \<open>None\<close> when it is still waiting for input. The timer thread
  that \<^verbatim>\<open>sr_init\<close> starts is the subject of the theories on the ARP cache and the system, and closing the
  log file at the end does not change its contents.
\<close>

section \<open>Options\<close>

record options =
  o_host :: string
  o_user :: "string option"
  o_server :: string
  o_rtable :: string
  o_template :: "string option"
  o_port :: u32
  o_topo :: u32
  o_logfile :: "string option"

definition default_options :: options where
  "default_options = \<lparr>o_host = ''vrhost'', o_user = None, o_server = ''localhost'', o_rtable = ''rtable'',
     o_template = None, o_port = 8888, o_topo = 0, o_logfile = None\<rparr>"

definition usage :: "string \<Rightarrow> string" where
  "usage argv0 =
     ''Simple Router Client'' @ nl @ ''Format: '' @ argv0 @ '' [-h] [-v host] [-s server] [-p port] '' @ nl @
     ''           [-T template_name] [-u username] '' @ nl @ ''           [-t topo id] [-r routing table] '' @ nl @
     ''           [-l log file] '' @ nl @
     ''   defaults server='' @ o_server default_options @ '' port='' @ dec_string (unat (o_port default_options)) @
     '' host='' @ o_host default_options @ ''  '' @ nl"

text \<open>\<^verbatim>\<open>atoi\<close>: white space, a sign, decimal digits\<close>

definition atoi :: "string \<Rightarrow> int" where
  "atoi s =
     (let t = dropWhile is_space s; neg = (take 1 t = ''-'');
          u = (if take 1 t \<in> {''-'', ''+''} then tl t else t); v = int (fst (digits 10 0 u))
      in if neg then - v else v)"

text \<open>\<open>None\<close>: the usage text is printed and the program exits.\<close>

fun parse_options :: "options \<Rightarrow> (char \<times> string) list \<Rightarrow> options option" where
  "parse_options opts [] = Some opts"
| "parse_options opts ((c, optarg) # rest) =
     (if c = CHR ''h'' then None
      else
        parse_options
          (if c = CHR ''p'' then opts\<lparr>o_port := of_int (atoi optarg)\<rparr>
           else if c = CHR ''t'' then opts\<lparr>o_topo := of_int (atoi optarg)\<rparr>
           else if c = CHR ''v'' then opts\<lparr>o_host := optarg\<rparr>
           else if c = CHR ''u'' then opts\<lparr>o_user := Some optarg\<rparr>
           else if c = CHR ''s'' then opts\<lparr>o_server := optarg\<rparr>
           else if c = CHR ''l'' then opts\<lparr>o_logfile := Some optarg\<rparr>
           else if c = CHR ''r'' then opts\<lparr>o_rtable := optarg\<rparr>
           else if c = CHR ''T'' then opts\<lparr>o_template := Some optarg\<rparr>
           else opts) rest)"

section \<open>The instance\<close>

definition sr_init_instance :: "sr_instance \<Rightarrow> sr_instance" where
  "sr_init_instance sr = sr\<lparr>sockfd := - 1, sr_user := [], sr_host := [], sr_topo_id := 0, if_list := [],
     routing_table := [], logfile := None\<rparr>"

definition sr_set_user :: "string option \<Rightarrow> sr_instance \<Rightarrow> sr_instance" where
  "sr_set_user passwd sr =
     (case passwd of
        None \<Rightarrow> sr\<lparr>sr_user := strncpy ''something_silly'' 32\<rparr>
      | Some pw_name \<Rightarrow> sr\<lparr>sr_user := strncpy pw_name 32\<rparr>)"

text \<open>\<open>None\<close>: the table cannot be loaded and the program exits with status 1.\<close>

definition sr_load_rt_wrap :: "session \<Rightarrow> string \<Rightarrow> session option res" where
  "sr_load_rt_wrap s rtable =
     rbind (sr_load_rt (routing_table (router s)) (files s rtable)) (\<lambda>(r, rts).
       Inr (if r \<noteq> 0 then None else Some (upd_router s ((router s)\<lparr>routing_table := rts\<rparr>))))"

section \<open>The program\<close>

text \<open>\<open>load_or_exit s rtable k\<close> continues with \<open>k\<close> unless loading exits.\<close>

definition load_or_exit ::
    "session \<Rightarrow> string \<Rightarrow> (session \<Rightarrow> (int \<times> session) res option) \<Rightarrow> (int \<times> session) res option" where
  "load_or_exit s rtable k =
     (case sr_load_rt_wrap s rtable of
        Inl e \<Rightarrow> Some (Inl e)
      | Inr None \<Rightarrow> Some (Inr (1, s))
      | Inr (Some s') \<Rightarrow> k s')"

definition sr_configure :: "options \<Rightarrow> string option \<Rightarrow> sr_instance \<Rightarrow> sr_instance" where
  "sr_configure opts passwd sr =
     (let sr1 = sr\<lparr>sr_topo_id := ucast (o_topo opts), sr_host := strncpy (o_host opts) 32\<rparr> in
      case o_user opts of None \<Rightarrow> sr_set_user passwd sr1 | Some user \<Rightarrow> sr1\<lparr>sr_user := strncpy user 32\<rparr>)"

definition sr_open_log :: "options \<Rightarrow> session \<Rightarrow> session option" where
  "sr_open_log opts s =
     (case o_logfile opts of
        None \<Rightarrow> Some s
      | Some fname \<Rightarrow>
          (case sr_dump_open (writable s) fname 0 1024 of
             None \<Rightarrow> None
           | Some fp \<Rightarrow> Some (upd_router s ((router s)\<lparr>logfile := Some fp\<rparr>))))"

definition sr_run :: "options \<Rightarrow> session \<Rightarrow> (int \<times> session) res option" where
  "sr_run opts s =
     obind (sr_connect_to_server s (ucast (o_port opts)) (o_server opts)) (\<lambda>(r, s1).
       if r = - 1 then Some (Inr (1, s1))
       else
         load_or_exit s1 (if o_template opts \<noteq> None \<and> o_rtable opts = ''rtable.vrhost''
                          then ''rtable.vrhost'' else o_rtable opts) (\<lambda>s2.
           obind (serve (upd_router s2 (sr_init (router s2)))) (\<lambda>(_, s3). Some (Inr (0, s3)))))"

definition sr_main :: "session \<Rightarrow> (char \<times> string) list \<Rightarrow> string option \<Rightarrow> (int \<times> session) res option" where
  "sr_main s args passwd =
     (case parse_options default_options args of
        None \<Rightarrow> Some (Inr (0, s))
      | Some opts \<Rightarrow>
          let s0 = upd_router s (sr_init_instance (router s));
              rest = (\<lambda>s1. let s2 = upd_router s1 (sr_configure opts passwd (router s1)) in
                case sr_open_log opts s2 of
                  None \<Rightarrow> Some (Inr (1, s2))
                | Some s3 \<Rightarrow> sr_run opts s3)
          in case o_template opts of
               None \<Rightarrow> load_or_exit (upd_router s0 ((router s0)\<lparr>sr_template := []\<rparr>)) (o_rtable opts) rest
             | Some templ \<Rightarrow> rest (upd_router s0 ((router s0)\<lparr>sr_template := strncpy templ 30\<rparr>)))"


section \<open>A complete run\<close>

text \<open>The stream of a session after its opening: hardware information, frames, close.\<close>

definition session_stream :: "if_spec list \<Rightarrow> (string \<times> byte list) list \<Rightarrow> byte list \<Rightarrow> byte list" where
  "session_stream specs fs why = vns_msg VNSHWINFO (hw_bytes (concat (map if_items specs))) @
     concat (map (\<lambda>(n, frame). vns_frame n frame) fs) @ vns_msg VNSCLOSE why"

lemma servable_if_list: "if_list sr = if_list sr' \<Longrightarrow> servable sr = servable sr'"
  by (auto simp: servable_def deliverable_def fun_eq_iff)

lemma hw_bytes_bound:
  assumes "list_all if_spec_ok specs" "length (concat (map if_items specs)) \<le> 277"
  shows "length (hw_bytes (concat (map if_items specs))) \<le> 9992"
proof -
  have "list_all (\<lambda>kv. length (snd kv) = 32) (concat (map if_items specs))"
    using assms(1) by (induction specs) (simp_all add: if_items_length)
  from length_hw_bytes [OF this] assms(2) show ?thesis by simp
qed

lemma serve_session:
  assumes "requests (cache (router s)) = []" "arpcache_wf (cache (router s))" "if_list (router s) = []"
    "list_all if_spec_ok specs" "length (concat (map if_items specs)) \<le> 277"
    "sr_verify_routing_table (registered (junk_if s) 0 specs) (routing_table (router s)) = 0"
    "list_all (servable ((router s)\<lparr>if_list := registered (junk_if s) 0 specs\<rparr>)) fs"
    "c_text why" "Failed \<notin> set (inbox s)" "stream (inbox s) = session_stream specs fs why @ rest"
  shows "\<exists>sr' evs ms. serve s = Some (Inr (0, s\<lparr>router := sr', inbox := evs\<rparr>)) \<and> stream evs = rest \<and>
    if_list sr' = registered (junk_if s) 0 specs \<and> routing_table sr' = routing_table (router s) \<and> sr_wf sr' \<and>
    wire sr' = wire (router s) @ ms \<and> list_all (sent_ok (registered (junk_if s) 0 specs)) ms"
proof -
  let ?ifs = "registered (junk_if s) 0 specs" and ?hw = "hw_bytes (concat (map if_items specs))"
  let ?s1 = "upd_router s ((router s)\<lparr>if_list := ?ifs\<rparr>)"
  let ?ms = "map (\<lambda>(n, frame). (VNSPACKET, name_field n 16 @ frame)) fs"
  have hw: "handle_command s (vns_msg VNSHWINFO ?hw) 0 = Inr (1, ?s1)"
    using hwinfo_command_eq [OF assms(4,5), of s] assms(3,6) by (simp add: Let_def)
  have wf: "sr_wf (router ?s1)" using assms(1,2) by (simp add: sr_wf_def cache_ok_def)
  from frames_result_ok [OF wf, of fs] assms(7) obtain sr'
    where f: "frames_result (router ?s1) fs = Inr sr'" "sr_wf sr'" "same_config (router ?s1) sr'" "emits (router ?s1) sr'"
    by auto
  have "run_msgs ?s1 ?ms = Inr (1, upd_router ?s1 sr')"
    using assms(7) wf f(1) by (intro run_msgs_frames) simp_all
  then have run: "run_msgs s ((VNSHWINFO, ?hw) # ?ms) = Inr (1, upd_router s sr')" by (simp add: hw)
  have "\<forall>(cmd, payload) \<in> set ((VNSHWINFO, ?hw) # ?ms). length payload \<le> 9992"
    using assms(7) hw_bytes_bound [OF assms(4,5)] by (auto simp: list_all_iff servable_def)
  moreover have "stream (inbox s) = msgs ((VNSHWINFO, ?hw) # ?ms) @ vns_msg VNSCLOSE why @ rest"
    using assms(10) by (simp add: session_stream_def msgs_def vns_frame_msg comp_def case_prod_unfold)
  ultimately obtain evs where "serve s = Some (Inr (0, (upd_router s sr')\<lparr>inbox := evs\<rparr>))" "stream evs = rest"
    using serve_then_close [OF assms(9) _ _ assms(8) run] by blast
  then show ?thesis
    using f by (intro exI [of _ sr'] exI [of _ evs]) (auto simp: same_config_def emits_def)
qed


lemma open_log_keeps:
  assumes "sr_open_log opts s = Some s'"
  obtains lf where "s' = upd_router s ((router s)\<lparr>logfile := lf\<rparr>)"
proof (cases "o_logfile opts")
  case None
  with assms that [of "logfile (router s)"] show ?thesis by (simp add: sr_open_log_def)
next
  case (Some fname)
  with assms that show ?thesis by (auto simp: sr_open_log_def split: option.splits)
qed

lemma configure_fields [simp]:
  "if_list (sr_configure opts pw sr) = if_list sr" "routing_table (sr_configure opts pw sr) = routing_table sr"
  "wire (sr_configure opts pw sr) = wire sr" "env_write (sr_configure opts pw sr) = env_write sr"
  "sr_template (sr_configure opts pw sr) = sr_template sr"
  by (simp_all add: sr_configure_def sr_set_user_def Let_def split: option.splits)

lemma configure_identity:
  "sr_user (sr_configure opts pw sr) = sr_user (sr_configure opts pw sr')"
  "sr_host (sr_configure opts pw sr) = sr_host (sr_configure opts pw sr')"
  "sr_topo_id (sr_configure opts pw sr) = sr_topo_id (sr_configure opts pw sr')"
  by (simp_all add: sr_configure_def sr_set_user_def Let_def split: option.splits)

lemma msgs_of_identity:
  "sr_user sr = sr_user sr' \<Longrightarrow> auth_reply sr d = auth_reply sr' d"
  "sr_user sr = sr_user sr' \<Longrightarrow> sr_host sr = sr_host sr' \<Longrightarrow> sr_topo_id sr = sr_topo_id sr' \<Longrightarrow>
     open_msg sr = open_msg sr'"
  by (simp_all add: auth_reply_def open_msg_def)

text \<open>
  The surroundings in which a client gets a session: a key file, a server that it can connect to and
  that takes all it sends, and no receive errors; and the file of a routing table.
\<close>

definition client_env :: "session \<Rightarrow> options \<Rightarrow> byte list \<Rightarrow> bool" where
  "client_env s opts content \<longleftrightarrow> memory_ok s \<and> files s ''auth_key'' = Some content \<and> content \<noteq> [] \<and>
     env_resolve s (o_server opts) \<and> 0 \<le> env_socket s \<and> env_connect s (o_server opts) (ucast (o_port opts)) \<and>
     (\<forall>w m. env_write (router s) w m = int (length m)) \<and> Failed \<notin> set (inbox s)"

definition client_ready :: "session \<Rightarrow> options \<Rightarrow> sr_rt list \<Rightarrow> byte list \<Rightarrow> bool" where
  "client_ready s opts rts content \<longleftrightarrow> client_env s opts content \<and>
     (\<exists>tbl. files s (o_rtable opts) = Some tbl \<and> loads tbl rts)"

definition server_accepts :: "byte list \<Rightarrow> byte \<Rightarrow> byte list \<Rightarrow> byte list" where
  "server_accepts salt ok info = vns_msg VNS_AUTH_REQUEST salt @ vns_msg VNS_AUTH_STATUS (ok # info)"

lemma load_table:
  assumes "files s name = Some tbl" "loads tbl rts" "routing_table (router s) \<in> {[], rts}"
  shows "load_or_exit s name k = k (upd_router s ((router s)\<lparr>routing_table := rts\<rparr>))"
  using loads_again [OF assms(2,3)] assms(1)
  by (simp add: load_or_exit_def sr_load_rt_wrap_def)

text \<open>What \<^verbatim>\<open>main\<close> does once it is connected.\<close>

lemma load_and_serve:
  assumes "loads tbl rts" "files s name = Some tbl" "if_list (router s) = []"
    "list_all if_spec_ok specs" "length (concat (map if_items specs)) \<le> 277"
    "sr_verify_routing_table (registered (junk_if s) 0 specs) rts = 0"
    "list_all (servable ((router s)\<lparr>if_list := registered (junk_if s) 0 specs\<rparr>)) fs"
    "c_text why" "Failed \<notin> set (inbox s)" "stream (inbox s) = session_stream specs fs why @ rest"
    "routing_table (router s) \<in> {[], rts}"
  shows "\<exists>s' ms. load_or_exit s name (\<lambda>s2. obind (serve (upd_router s2 (sr_init (router s2))))
      (\<lambda>(_, s3). Some (Inr (0, s3)))) = Some (Inr (0, s')) \<and>
    if_list (router s') = registered (junk_if s) 0 specs \<and> routing_table (router s') = rts \<and> sr_wf (router s') \<and>
    wire (router s') = wire (router s) @ ms \<and> list_all (sent_ok (registered (junk_if s) 0 specs)) ms \<and>
    stream (inbox s') = rest"
proof -
  let ?ifs = "registered (junk_if s) 0 specs"
  let ?s2 = "upd_router s ((router s)\<lparr>routing_table := rts\<rparr>)"
  let ?s3 = "upd_router ?s2 (sr_init (router ?s2))"
  have "arpcache_wf (cache (router ?s3))" "requests (cache (router ?s3)) = []"
    using wf_init by (simp_all add: sr_init_def sr_arpcache_init_def)
  moreover have "list_all (servable ((router ?s3)\<lparr>if_list := ?ifs\<rparr>)) fs"
    using assms(7) servable_if_list [of "(router ?s3)\<lparr>if_list := ?ifs\<rparr>" "(router s)\<lparr>if_list := ?ifs\<rparr>"] by simp
  ultimately obtain sr' evs' ms where "serve ?s3 = Some (Inr (0, ?s3\<lparr>router := sr', inbox := evs'\<rparr>))"
      "stream evs' = rest" "if_list sr' = ?ifs" "routing_table sr' = rts" "sr_wf sr'"
      "wire sr' = wire (router s) @ ms" "list_all (sent_ok ?ifs) ms"
    using serve_session [of ?s3 specs fs why rest] assms(3-6,8-10) by (auto simp: sr_init_def)
  then show ?thesis
    unfolding load_table [OF assms(2,1,11)]
    by (intro exI [of _ "?s3\<lparr>router := sr', inbox := evs'\<rparr>"] exI [of _ ms]) simp
qed

lemma run_session:
  assumes "client_ready s opts rts content" "sr_template (router s) = []" "if_list (router s) = []"
    "length (sr_user (router s)) < 32" "length salt \<le> 9992" "ok \<noteq> 0" "length info < 9992"
    "list_all if_spec_ok specs" "length (concat (map if_items specs)) \<le> 277"
    "sr_verify_routing_table (registered (junk_if s) 0 specs) rts = 0"
    "list_all (servable ((router s)\<lparr>if_list := registered (junk_if s) 0 specs\<rparr>)) fs"
    "c_text why" "stream (inbox s) = server_accepts salt ok info @ session_stream specs fs why @ rest"
    "o_template opts = None" "routing_table (router s) = rts"
  shows "\<exists>s' ms. sr_run opts s = Some (Inr (0, s')) \<and> if_list (router s') = registered (junk_if s) 0 specs \<and>
    routing_table (router s') = rts \<and> sr_wf (router s') \<and>
    wire (router s') = wire (router s) @ auth_reply (router s) (sha1 (salt @ auth_key_bytes content (junk_key s))) #
      open_msg (router s) # ms \<and>
    list_all (sent_ok (registered (junk_if s) 0 specs)) ms \<and> stream (inbox s') = rest"
proof -
  let ?reply = "auth_reply (router s) (sha1 (salt @ auth_key_bytes content (junk_key s)))"
  let ?ifs = "registered (junk_if s) 0 specs"
  from assms(1) obtain tbl where ready: "client_env s opts content" and
    rtbl: "files s (o_rtable opts) = Some tbl" "loads tbl rts" by (auto simp: client_ready_def)
  note env = ready [unfolded client_env_def]
  have str: "stream (inbox s) = vns_msg VNS_AUTH_REQUEST salt @ vns_msg VNS_AUTH_STATUS (ok # info) @
      (session_stream specs fs why @ rest)"
    using assms(13) by (simp add: server_accepts_def)
  have st: "status_text ok info" using assms(6,7) by (simp add: status_text_def)
  from connect_opens [OF _ _ _ assms(4,2,5) st _ _ _ _ _ str, of content "o_server opts" "ucast (o_port opts)"]
  obtain evs where c: "sr_connect_to_server s (ucast (o_port opts)) (o_server opts) = Some (Inr (0,
      s\<lparr>router := (router s)\<lparr>sockfd := env_socket s, wire := wire (router s) @ [?reply, open_msg (router s)]\<rparr>,
        inbox := evs\<rparr>))" "stream evs = session_stream specs fs why @ rest" "Failed \<notin> set evs"
    using env assms(6) by auto
  let ?s1 = "s\<lparr>router := (router s)\<lparr>sockfd := env_socket s, wire := wire (router s) @ [?reply, open_msg (router s)]\<rparr>,
        inbox := evs\<rparr>"
  have "list_all (servable ((router ?s1)\<lparr>if_list := ?ifs\<rparr>)) fs"
    using assms(11) servable_if_list [of "(router ?s1)\<lparr>if_list := ?ifs\<rparr>" "(router s)\<lparr>if_list := ?ifs\<rparr>"] by simp
  then show ?thesis
    using load_and_serve [OF rtbl(2), of ?s1 "o_rtable opts" specs fs why rest] rtbl(1) c assms(3,8-10,12,14,15)
    by (auto simp: sr_run_def)
qed


text \<open>The state in which \<^verbatim>\<open>main\<close> connects, after the options have been applied to the instance \<open>sr1\<close>.\<close>

lemma configured_start:
  assumes "sr_open_log opts s = Some s0" "client_env s opts content" "wire sr1 = wire (router s)"
    "env_write sr1 = env_write (router s)"
  obtains s3 where "sr_open_log opts (upd_router s (sr_configure opts pw sr1)) = Some s3"
    "client_env s3 opts content" "if_list (router s3) = if_list sr1" "routing_table (router s3) = routing_table sr1"
    "sr_template (router s3) = sr_template sr1"
    "wire (router s3) = wire (router s)" "sr_user (router s3) = sr_user (sr_configure opts pw (router s))"
    "sr_host (router s3) = sr_host (sr_configure opts pw (router s))"
    "sr_topo_id (router s3) = sr_topo_id (sr_configure opts pw (router s))"
    "files s3 = files s" "writable s3 = writable s" "junk_if s3 = junk_if s" "junk_key s3 = junk_key s"
    "inbox s3 = inbox s"
proof -
  let ?s2 = "upd_router s (sr_configure opts pw sr1)"
  obtain s3 where s3: "sr_open_log opts ?s2 = Some s3"
    using assms(1) by (auto simp: sr_open_log_def split: option.splits)
  from open_log_keeps [OF s3] obtain lf where lf: "s3 = upd_router ?s2 ((router ?s2)\<lparr>logfile := lf\<rparr>)" .
  show thesis
    using assms(2-4) configure_identity [of opts pw sr1 "router s"]
    by (intro that [OF s3]) (simp_all add: lf client_env_def)
qed

text \<open>
  Claim C2: a complete run of the program without a topology template, in the main thread. The
  conditions are: a routing table file that \<^verbatim>\<open>sr_load_rt\<close> accepts, a key file, a user name of fewer than
  32 characters, and a reachable server that takes all that is sent, accepts the authentication, describes interfaces
  among which are all that the routes use (so the table is not empty), delivers only servable frames,
  in any segmentation, and closes the session with a terminated text. Servable frames go
  to an existing interface, have at least 42 bytes, fit into a message and contain their
  IP header; others can make the program fault. Under these conditions the program exits with status 0.
  It has then sent its authentication reply, the request to open the topology and, for the frames,
  only packet messages with the MAC of their interface as source; its interfaces are the ones described, its
  routes those of the file, and its ARP state is well-formed. The timer thread does not run here; sessions
  in which it does are in \<^verbatim>\<open>Concurrency\<close>.
\<close>

theorem main_serves_session:
  assumes "parse_options default_options args = Some opts" and "o_template opts = None"
    and "sr_open_log opts s = Some s0" and "client_ready s opts rts content"
    and "length (sr_user (sr_configure opts passwd (router s))) < 32"
    and "length salt \<le> 9992" and "ok \<noteq> 0" and "length info < 9992"
    and "list_all if_spec_ok specs" and "length (concat (map if_items specs)) \<le> 277"
    and "sr_verify_routing_table (registered (junk_if s) 0 specs) rts = 0"
    and "list_all (servable ((router s)\<lparr>if_list := registered (junk_if s) 0 specs\<rparr>)) fs"
    and "c_text why"
    and "stream (inbox s) = server_accepts salt ok info @ session_stream specs fs why @ rest"
  shows "\<exists>s' ms. sr_main s args passwd = Some (Inr (0, s')) \<and>
    if_list (router s') = registered (junk_if s) 0 specs \<and> routing_table (router s') = rts \<and>
    sr_wf (router s') \<and>
    wire (router s') = wire (router s) @
      auth_reply (sr_configure opts passwd (router s)) (sha1 (salt @ auth_key_bytes content (junk_key s))) #
      open_msg (sr_configure opts passwd (router s)) # ms \<and>
    list_all (sent_ok (registered (junk_if s) 0 specs)) ms \<and> stream (inbox s') = rest"
proof -
  let ?sr1 = "(sr_init_instance (router s))\<lparr>sr_template := [], routing_table := rts\<rparr>"
  let ?ifs = "registered (junk_if s) 0 specs"
  from assms(4) obtain tbl where ready: "client_env s opts content" "loads tbl rts"
    "files s (o_rtable opts) = Some tbl" by (auto simp: client_ready_def)
  obtain s3 where s3: "sr_open_log opts (upd_router s (sr_configure opts passwd ?sr1)) = Some s3"
    "client_env s3 opts content" "if_list (router s3) = []" "routing_table (router s3) = rts" "sr_template (router s3) = []"
    "wire (router s3) = wire (router s)"
    and ident: "sr_user (router s3) = sr_user (sr_configure opts passwd (router s))"
      "sr_host (router s3) = sr_host (sr_configure opts passwd (router s))"
      "sr_topo_id (router s3) = sr_topo_id (sr_configure opts passwd (router s))"
    and same: "files s3 = files s" "junk_if s3 = junk_if s" "junk_key s3 = junk_key s" "inbox s3 = inbox s"
    by (rule configured_start [OF assms(3) ready(1), of ?sr1 passwd]) (simp_all add: sr_init_instance_def)
  have "client_ready s3 opts rts content" using s3(2) ready(2,3) same(1) by (simp add: client_ready_def)
  moreover have "list_all (servable ((router s3)\<lparr>if_list := ?ifs\<rparr>)) fs"
    using assms(12) servable_if_list [of "(router s3)\<lparr>if_list := ?ifs\<rparr>" "(router s)\<lparr>if_list := ?ifs\<rparr>"] by simp
  ultimately have run: "\<exists>s' ms. sr_run opts s3 = Some (Inr (0, s')) \<and> if_list (router s') = ?ifs \<and>
      routing_table (router s') = rts \<and> sr_wf (router s') \<and> wire (router s') = wire (router s) @
        auth_reply (router s3) (sha1 (salt @ auth_key_bytes content (junk_key s))) # open_msg (router s3) # ms \<and>
      list_all (sent_ok ?ifs) ms \<and> stream (inbox s') = rest"
    using run_session [of s3 opts rts content salt ok info specs fs why rest] s3 assms(2,5-11,13,14)
    by (simp add: same ident(1))
  let ?s1 = "upd_router s ((sr_init_instance (router s))\<lparr>sr_template := []\<rparr>)"
  have "load_or_exit ?s1 (o_rtable opts) k = k (upd_router s ?sr1)" for k
    using load_table [OF _ ready(2), of ?s1 "o_rtable opts" k] ready(3) by (simp add: sr_init_instance_def)
  then have "sr_main s args passwd = sr_run opts s3"
    using assms(1,2) s3(1) by (simp add: sr_main_def Let_def)
  with run show ?thesis
    by (simp add: msgs_of_identity(1) [OF ident(1)] msgs_of_identity(2) [OF ident])
qed


section \<open>Example\<close>

definition ex_specs :: "if_spec list" where
  "ex_specs = [(''eth1'', MAC 2 0 0 0 0 1, htonl 0x0A000101, []), (''eth2'', MAC 2 0 0 0 0 2, htonl 0x0A000201, []),
     (''eth3'', MAC 2 0 0 0 0 3, htonl 0x0A000301, [])]"

definition ex_start :: session where
  "ex_start = (ex_session (ex_cut (server_accepts [1, 2, 3] 1 [0] @
       session_stream ex_specs [(''eth1'', ex_frame)] [0])))
     \<lparr>files := [''auth_key'' \<mapsto> ex_key, ''rtable'' \<mapsto> bytes_of ex_rtable_text]\<rparr>"

lemma ex_start_ready: "client_ready ex_start default_options ex_rtable ex_key"
  by (simp add: client_ready_def client_env_def ex_rtable_loads ex_start_def default_options_def memory_ok_def
      ex_session_def ex_context_def ex_key_def ex_sr_def)

lemma ex_registered: "registered junk 0 ex_specs = [ex_if1\<lparr>if_speed := if_speed (junk 0)\<rparr>,
    ex_if2\<lparr>if_speed := if_speed (junk 1)\<rparr>,
    \<lparr>if_name = ''eth3'', if_addr = MAC 2 0 0 0 0 3, if_ip = htonl 0x0A000301, if_speed = if_speed (junk (Suc (Suc 0)))\<rparr>]"
  by (simp add: ex_specs_def ex_if1_def ex_if2_def)

theorem main_serves_session_witness:
  "\<exists>s' ms. sr_main ex_start [] (Some ''sr'') = Some (Inr (0, s')) \<and> routing_table (router s') = ex_rtable \<and>
    wire (router s') = auth_reply (ex_sr\<lparr>sr_user := ''sr''\<rparr>) (sha1 ([1, 2, 3] @ replicate 64 0x6B)) #
      open_msg (ex_sr\<lparr>sr_user := ''sr'', sr_host := ''vrhost''\<rparr>) # ms"
proof -
  let ?ifs = "registered (junk_if ex_start) 0 ex_specs"
  let ?r = "ex_sr\<lparr>if_list := ?ifs\<rparr>"
  have i: "sr_get_interface ?ifs ''eth1'' = Some (ex_if1\<lparr>if_speed := if_speed (junk_if ex_start 0)\<rparr>)"
    by (simp add: ex_registered)
  have "servable ?r (''eth1'', ex_frame)"
    using ex_servable i by (simp add: servable_def deliverable_def)
  moreover have "sr_verify_routing_table ?ifs ex_rtable = 0"
    by (simp add: ex_registered sr_verify_routing_table_def ex_rtable_def)
  moreover have "list_all if_spec_ok ex_specs" "length (concat (map if_items ex_specs)) \<le> 277"
    by (simp_all add: ex_specs_def c_name_def)
  moreover have "sr_open_log default_options ex_start = Some ex_start"
    by (simp add: sr_open_log_def default_options_def)
  moreover have conf: "sr_configure default_options (Some ''sr'') ex_sr = ex_sr\<lparr>sr_user := ''sr'', sr_host := ''vrhost''\<rparr>"
    by (simp add: sr_configure_def sr_set_user_def default_options_def strncpy_def ex_sr_def)
  moreover have "router ex_start = ex_sr" by (simp add: ex_start_def ex_session_def)
  moreover have "stream (inbox ex_start) = server_accepts [1, 2, 3] 1 [0] @
      session_stream ex_specs [(''eth1'', ex_frame)] [0] @ []"
    by (simp add: ex_start_def ex_session_def)
  moreover have "o_template default_options = None" by (simp add: default_options_def)
  ultimately show ?thesis
    using main_serves_session [of "[]" default_options ex_start ex_start "ex_rtable" ex_key "Some ''sr''"
        "[1, 2, 3]" 1 "[0]" ex_specs "[(''eth1'', ex_frame)]" "[0]" "[]"] ex_start_ready
    by (auto simp: auth_reply_def)
qed

end
