(* ===== verification/Template.thy ===== *)
theory Template
  imports Startup
begin

text \<open>
  Running with a topology template (option \<^verbatim>\<open>-T\<close>): the server chooses the topology and sends its
  routing table, which the client writes to a file and then loads.
\<close>

section \<open>Receiving the routing table\<close>

definition rtable_msg :: "string \<Rightarrow> byte list \<Rightarrow> byte list" where
  "rtable_msg ident content = enc_rtable \<lparr>mLen = htonl (of_nat (40 + length content)), mType = htonl VNS_RTABLE,
     rtable_mVirtualHostID = name_field ident IDSIZE\<rparr> @ content"

lemma rtable_msg_eq: "rtable_msg ident content = vns_msg VNS_RTABLE (name_field ident IDSIZE @ content)"
  by (simp add: rtable_msg_def enc_rtable_def vns_msg_def)

lemma rtable_length:
  assumes "length content \<le> 9960"
  shows "unat (of_nat (40 + length content) - 8 - 32 :: u32) = length content"
proof -
  have "of_nat (40 + length content) - 8 - 32 = (of_nat (length content) :: u32)" by simp
  with assms show ?thesis by (simp only: unat_of_nat) simp
qed

lemma handle_rtable_eq:
  assumes "c_name ident" "length ident < 32" "length content \<le> 9960"
  shows "sr_handle_rtable s (vns_stored VNS_RTABLE (name_field ident 32 @ content)) =
    Inr (if writable s (''rtable.'' @ ident) then (1, s\<lparr>files := (files s)(''rtable.'' @ ident \<mapsto> content)\<rparr>)
         else (0, s))"
proof -
  define w where "w = htonl (of_nat (40 + length content) :: u32)"
  let ?pre = "enc32 w @ enc32 VNS_RTABLE"
  have buf: "vns_stored VNS_RTABLE (name_field ident 32 @ content) = ?pre @ name_field ident 32 @ content"
    by (simp add: vns_stored_def w_def)
  have "cstring_at (?pre @ name_field ident 32 @ content) 8 limit = Inr ident" for limit
    using assms(1,2) by (rule cstring_name_field) simp
  moreover have "rd32 (?pre @ name_field ident 32 @ content) 0 = Inr w"
    using rd32_append [of "[]" 0 w] by simp
  moreover have "unat (ntohl w - 8 - 32) = length content"
    using rtable_length [OF assms(3)] by (simp only: w_def htonl_htonl)
  moreover have "rd_bytes (?pre @ name_field ident 32 @ content) 40 (length content) = Inr content"
    by (simp add: mslice_def)
  ultimately show ?thesis
    using assms(2) unfolding buf sr_handle_rtable_def by (simp only: rbind_simps Let_def) simp
qed

lemma rtable_command:
  assumes "c_name ident" "length ident < 32" "length content \<le> 9960"
  shows "handle_command s (rtable_msg ident content) VNS_RTABLE =
    Inr (if writable s (''rtable.'' @ ident) then (1, s\<lparr>files := (files s)(''rtable.'' @ ident \<mapsto> content)\<rparr>)
         else (- 1, s))"
  using handle_rtable_eq [OF assms, of s]
  by (simp add: rtable_msg_eq handle_command_msg Let_def failed_as_def vns_consts)

section \<open>Opening a session\<close>

lemma connect_template:
  assumes "client_env s opts content" "length (sr_user (router s)) < 32" "sr_template (router s) \<noteq> []"
    "length salt \<le> 9992" "ok \<noteq> 0" "length info < 9992" "c_name ident" "length ident < 32" "length table \<le> 9960"
    "writable s (''rtable.'' @ ident)"
    "stream (inbox s) = server_accepts salt ok info @ rtable_msg ident table @ rest"
  shows "\<exists>evs. sr_connect_to_server s (ucast (o_port opts)) (o_server opts) = Some (Inr (0,
      s\<lparr>router := (router s)\<lparr>sockfd := env_socket s, wire := wire (router s) @
          [auth_reply (router s) (sha1 (salt @ auth_key_bytes content (junk_key s))), open_template_msg (router s)]\<rparr>,
        inbox := evs, files := (files s)(''rtable.'' @ ident \<mapsto> table)\<rparr>)) \<and>
    stream evs = rest \<and> Failed \<notin> set evs"
proof -
  let ?s0 = "upd_router s ((router s)\<lparr>sockfd := env_socket s\<rparr>)"
  let ?reply = "auth_reply (router s) (sha1 (salt @ auth_key_bytes content (junk_key s)))"
  note env = assms(1) [unfolded client_env_def]
  have "status_text ok info" using assms(5,6) by (simp add: status_text_def)
  with connect_exchange [of ?s0 content salt ok info "rtable_msg ident table @ rest"] env assms(2,4,11)
  obtain evs1 evs2 where e2: "stream evs2 = rtable_msg ident table @ rest" "Failed \<notin> set evs2"
    and x: "(let s1 = ?s0\<lparr>router := (router ?s0)\<lparr>wire := wire (router s) @ [?reply]\<rparr>, inbox := evs1\<rparr> in
     sr_read_from_server_expect ?s0 VNS_AUTH_REQUEST = Some (Inr (1, s1)) \<and>
     sr_read_from_server_expect s1 VNS_AUTH_STATUS = Some (Inr (if ok = 0 then - 1 else 1, s1\<lparr>inbox := evs2\<rparr>)))"
    by (auto simp: server_accepts_def)
  let ?s3 = "s\<lparr>inbox := evs2,
    router := (router s)\<lparr>sockfd := env_socket s, wire := wire (router s) @ [?reply, open_template_msg (router s)]\<rparr>\<rparr>"
  have "length (name_field ident 32 @ table) \<le> 9992" using assms(9) by simp
  from read_message [OF _ _ this, of ?s3 VNS_RTABLE rest VNS_RTABLE] e2 obtain evs3
    where "sr_read_from_server_expect ?s3 VNS_RTABLE =
      Some (handle_command (?s3\<lparr>inbox := evs3\<rparr>) (rtable_msg ident table) VNS_RTABLE)"
      "stream evs3 = rest" "Failed \<notin> set evs3"
    by (auto simp: rtable_msg_eq)
  moreover have "open_template_msg ((router s)\<lparr>sockfd := n, wire := w\<rparr>) = open_template_msg (router s)" for n w
    by (simp add: open_template_msg_def)
  ultimately show ?thesis
    using x env assms(3,5,10) rtable_command [OF assms(7-9)]
    by (intro exI [of _ evs3]) (simp add: sr_connect_to_server_def Let_def sock_send_def)
qed

lemma run_template:
  assumes "client_env s opts content" "sr_template (router s) \<noteq> []" "if_list (router s) = []"
    "length (sr_user (router s)) < 32" "length salt \<le> 9992" "ok \<noteq> 0" "length info < 9992"
    "c_name ident" "length ident < 32" "writable s (''rtable.'' @ ident)" "o_rtable opts = ''rtable.'' @ ident"
    "loads tbl rts" "length tbl \<le> 9960" "routing_table (router s) = []"
    "list_all if_spec_ok specs" "length (concat (map if_items specs)) \<le> 277"
    "sr_verify_routing_table (registered (junk_if s) 0 specs) rts = 0"
    "list_all (servable ((router s)\<lparr>if_list := registered (junk_if s) 0 specs\<rparr>)) fs" "c_text why"
    "stream (inbox s) = server_accepts salt ok info @ rtable_msg ident tbl @
       session_stream specs fs why @ rest"
  shows "\<exists>s' ms. sr_run opts s = Some (Inr (0, s')) \<and> if_list (router s') = registered (junk_if s) 0 specs \<and>
    routing_table (router s') = rts \<and> sr_wf (router s') \<and>
    wire (router s') = wire (router s) @ auth_reply (router s) (sha1 (salt @ auth_key_bytes content (junk_key s))) #
      open_template_msg (router s) # ms \<and>
    list_all (sent_ok (registered (junk_if s) 0 specs)) ms \<and> stream (inbox s') = rest"
proof -
  let ?reply = "auth_reply (router s) (sha1 (salt @ auth_key_bytes content (junk_key s)))"
  let ?ifs = "registered (junk_if s) 0 specs"
  from connect_template [OF assms(1,4,2,5-9,13,10,20)] obtain evs where
    c: "sr_connect_to_server s (ucast (o_port opts)) (o_server opts) = Some (Inr (0,
      s\<lparr>router := (router s)\<lparr>sockfd := env_socket s, wire := wire (router s) @ [?reply, open_template_msg (router s)]\<rparr>,
        inbox := evs, files := (files s)(''rtable.'' @ ident \<mapsto> tbl)\<rparr>))"
    "stream evs = session_stream specs fs why @ rest" "Failed \<notin> set evs" by blast
  let ?s1 = "s\<lparr>router := (router s)\<lparr>sockfd := env_socket s, wire := wire (router s) @ [?reply, open_template_msg (router s)]\<rparr>,
        inbox := evs, files := (files s)(''rtable.'' @ ident \<mapsto> tbl)\<rparr>"
  have "list_all (servable ((router ?s1)\<lparr>if_list := ?ifs\<rparr>)) fs"
    using assms(18) servable_if_list [of "(router ?s1)\<lparr>if_list := ?ifs\<rparr>" "(router s)\<lparr>if_list := ?ifs\<rparr>"] by simp
  moreover have "(if o_template opts \<noteq> None \<and> o_rtable opts = ''rtable.vrhost'' then ''rtable.vrhost''
      else o_rtable opts) = o_rtable opts" by simp
  ultimately show ?thesis
    using load_and_serve [OF assms(12), of ?s1 "o_rtable opts" specs fs why rest] c assms(3,11,14-17,19)
    by (auto simp: sr_run_def)
qed

section \<open>A complete run\<close>

text \<open>
  Claim C9: a complete run with a topology template, in the main thread. The client must have been
  started with the name \<^verbatim>\<open>rtable.ID\<close> as its table file (\<^verbatim>\<open>-r\<close>), where \<^verbatim>\<open>ID\<close> is the
  virtual host that the server names in its message; with the default name, \<^verbatim>\<open>main\<close> loads
  the local file and ignores the table of the server. When the server then accepts the authentication,
  sends a table that \<^verbatim>\<open>sr_load_rt\<close> accepts and runs a session as for
  \<^verbatim>\<open>main_serves_session\<close> (interfaces for all routes, servable frames, a terminated closing text),
  the program asks for the template, stores the table
  it receives in that file, loads it, serves the session and exits with status 0: the routes it then
  has are those that the server sent, whatever the file contained before or whether it existed. The
  timer thread does not run here.
\<close>

theorem main_serves_template:
  assumes "parse_options default_options args = Some opts" and "o_template opts = Some templ" and "templ \<noteq> []"
    and "sr_open_log opts s = Some s0" and "client_env s opts content"
    and "length (sr_user (sr_configure opts passwd (router s))) < 32"
    and "length salt \<le> 9992" and "ok \<noteq> 0" and "length info < 9992"
    and "c_name ident" and "length ident < 32" and "writable s (''rtable.'' @ ident)"
    and "o_rtable opts = ''rtable.'' @ ident" and "loads tbl rts" and "length tbl \<le> 9960"
    and "list_all if_spec_ok specs" and "length (concat (map if_items specs)) \<le> 277"
    and "sr_verify_routing_table (registered (junk_if s) 0 specs) rts = 0"
    and "list_all (servable ((router s)\<lparr>if_list := registered (junk_if s) 0 specs\<rparr>)) fs"
    and "c_text why"
    and "stream (inbox s) = server_accepts salt ok info @ rtable_msg ident tbl @
      session_stream specs fs why @ rest"
  shows "\<exists>s' ms. sr_main s args passwd = Some (Inr (0, s')) \<and>
    if_list (router s') = registered (junk_if s) 0 specs \<and> routing_table (router s') = rts \<and>
    sr_wf (router s') \<and>
    wire (router s') = wire (router s) @
      auth_reply (sr_configure opts passwd (router s)) (sha1 (salt @ auth_key_bytes content (junk_key s))) #
      open_template_msg ((sr_configure opts passwd (router s))\<lparr>sr_template := strncpy templ 30\<rparr>) # ms \<and>
    list_all (sent_ok (registered (junk_if s) 0 specs)) ms \<and> stream (inbox s') = rest"
proof -
  let ?sr1 = "(sr_init_instance (router s))\<lparr>sr_template := strncpy templ 30\<rparr>"
  let ?ifs = "registered (junk_if s) 0 specs"
  obtain s3 where s3: "sr_open_log opts (upd_router s (sr_configure opts passwd ?sr1)) = Some s3"
    "client_env s3 opts content" "if_list (router s3) = []" "routing_table (router s3) = []"
    "sr_template (router s3) = strncpy templ 30"
    "wire (router s3) = wire (router s)"
    and ident: "sr_user (router s3) = sr_user (sr_configure opts passwd (router s))"
      "sr_host (router s3) = sr_host (sr_configure opts passwd (router s))"
    and same: "writable s3 = writable s" "junk_if s3 = junk_if s" "junk_key s3 = junk_key s" "inbox s3 = inbox s"
    by (rule configured_start [OF assms(4,5), of ?sr1 passwd]) (simp_all add: sr_init_instance_def)
  have "list_all (servable ((router s3)\<lparr>if_list := ?ifs\<rparr>)) fs"
    using assms(19) servable_if_list [of "(router s3)\<lparr>if_list := ?ifs\<rparr>" "(router s)\<lparr>if_list := ?ifs\<rparr>"] by simp
  moreover have "strncpy templ 30 \<noteq> []" using assms(3) by (cases templ) (simp_all add: strncpy_def)
  ultimately have run: "\<exists>s' ms. sr_run opts s3 = Some (Inr (0, s')) \<and> if_list (router s') = ?ifs \<and>
      routing_table (router s') = rts \<and> sr_wf (router s') \<and> wire (router s') = wire (router s) @
        auth_reply (router s3) (sha1 (salt @ auth_key_bytes content (junk_key s))) # open_template_msg (router s3) # ms \<and>
      list_all (sent_ok ?ifs) ms \<and> stream (inbox s') = rest"
    using run_template [OF s3(2), of salt ok info ident tbl rts specs fs why rest] s3 assms(6-18,20,21)
    by (simp add: same ident(1))
  have "sr_main s args passwd = sr_run opts s3"
    using assms(1,2) s3(1) by (simp add: sr_main_def Let_def)
  moreover have "open_template_msg (router s3) =
      open_template_msg ((sr_configure opts passwd (router s))\<lparr>sr_template := strncpy templ 30\<rparr>)"
    using s3(5) ident(2) by (simp add: open_template_msg_def)
  ultimately show ?thesis using run by (simp add: msgs_of_identity(1) [OF ident(1)])
qed

section \<open>Example\<close>

text \<open>No table file exists before; the server sends the repository's table.\<close>

definition ex_template_start :: session where
  "ex_template_start = (ex_session (ex_cut (server_accepts [1, 2, 3] 1 [0] @
       rtable_msg ''vrhost'' (bytes_of ex_rtable_text) @ session_stream ex_specs [(''eth1'', ex_frame)] [0])))
     \<lparr>files := [''auth_key'' \<mapsto> ex_key]\<rparr>"

lemma ex_template_simps:
  "router ex_template_start = ex_sr" "junk_if ex_template_start = (\<lambda>_. ex_if1)"
  "writable ex_template_start = (\<lambda>_. True)" "files ex_template_start ''rtable.vrhost'' = None"
  by (simp_all add: ex_template_start_def ex_session_def)

theorem main_serves_template_witness:
  "\<exists>s' ms. sr_main ex_template_start [(CHR ''T'', ''tree''), (CHR ''r'', ''rtable.vrhost'')] (Some ''sr'') = Some (Inr (0, s')) \<and>
    files ex_template_start ''rtable.vrhost'' = None \<and> routing_table (router s') = ex_rtable \<and>
    wire (router s') = auth_reply (ex_sr\<lparr>sr_user := ''sr''\<rparr>) (sha1 ([1, 2, 3] @ replicate 64 0x6B)) #
      open_template_msg (ex_sr\<lparr>sr_user := ''sr'', sr_host := ''vrhost'', sr_template := ''tree''\<rparr>) # ms"
proof -
  let ?args = "[(CHR ''T'', ''tree''), (CHR ''r'', ''rtable.vrhost'')]"
  let ?opts = "default_options\<lparr>o_template := Some ''tree'', o_rtable := ''rtable.vrhost''\<rparr>"
  let ?ifs = "registered (junk_if ex_template_start) 0 ex_specs"
  have "servable (ex_sr\<lparr>if_list := ?ifs\<rparr>) (''eth1'', ex_frame)"
    using ex_servable by (simp add: ex_registered servable_def deliverable_def)
  moreover have "sr_verify_routing_table ?ifs ex_rtable = 0"
    by (simp add: ex_registered sr_verify_routing_table_def ex_rtable_def)
  moreover have "list_all if_spec_ok ex_specs" "length (concat (map if_items ex_specs)) \<le> 277"
    by (simp_all add: ex_specs_def c_name_def)
  moreover have "sr_open_log ?opts ex_template_start = Some ex_template_start"
    by (simp add: sr_open_log_def default_options_def)
  moreover have conf: "sr_configure ?opts (Some ''sr'') ex_sr = ex_sr\<lparr>sr_user := ''sr'', sr_host := ''vrhost''\<rparr>"
    by (simp add: sr_configure_def sr_set_user_def default_options_def strncpy_def ex_sr_def)
  moreover have "client_env ex_template_start ?opts ex_key"
    by (simp add: client_env_def ex_template_start_def memory_ok_def ex_session_def ex_context_def ex_key_def ex_sr_def)
  moreover have "length (bytes_of ex_rtable_text) \<le> 9960"
    by (simp add: ex_rtable_text_def bytes_of_def)
  moreover have "stream (inbox ex_template_start) = server_accepts [1, 2, 3] 1 [0] @
      rtable_msg ''vrhost'' (bytes_of ex_rtable_text) @ session_stream ex_specs [(''eth1'', ex_frame)] [0] @ []"
    by (simp add: ex_template_start_def ex_session_def)
  moreover have "parse_options default_options ?args = Some ?opts" by simp
  moreover have "strncpy ''tree'' 30 = ''tree''" by (simp add: strncpy_def)
  ultimately show ?thesis
    using main_serves_template [of ?args ?opts "''tree''" ex_template_start ex_template_start ex_key "Some ''sr''"
        "[1, 2, 3]" 1 "[0]" "''vrhost''" "bytes_of ex_rtable_text" ex_rtable ex_specs "[(''eth1'', ex_frame)]" "[0]" "[]"]
    ex_rtable_loads by (auto simp: auth_reply_def ex_template_simps c_name_def)
qed

end
