(* ===== verification/Concurrency.thy ===== *)
theory Concurrency
  imports VnsSession
begin

text \<open>
  The two threads of the program together. The main thread reads a command of the server and handles
  it, \<^verbatim>\<open>sr_read_from_server\<close>; the timer thread runs a round of \<^verbatim>\<open>sr_arpcache_timeout\<close>.
  A schedule says whose turn it is; a turn is a whole command or a whole round.
\<close>

datatype turn = Read | Tick

fun run_turns :: "session \<Rightarrow> turn list \<Rightarrow> (int \<times> session) res option" where
  "run_turns s [] = Some (Inr (1, s))"
| "run_turns s (Read # ts) =
     obind (sr_read_from_server s) (\<lambda>(r, s'). if r = 1 then run_turns s' ts else Some (Inr (r, s')))"
| "run_turns s (Tick # ts) =
     (case arpcache_timeout_round (router s) of
        Inl e \<Rightarrow> Some (Inl e)
      | Inr sr' \<Rightarrow> run_turns (upd_router s sr') ts)"

definition session_keeps :: "session \<Rightarrow> session \<Rightarrow> bool" where
  "session_keeps s s' \<longleftrightarrow> sr_wf (router s') \<and> same_config (router s) (router s') \<and> emits (router s) (router s')"

lemma session_keeps_trans:
  "session_keeps s s1 \<Longrightarrow> session_keeps s1 s2 \<Longrightarrow> session_keeps s s2"
  unfolding session_keeps_def using same_config_trans emits_trans by blast

lemma tick_keeps:
  assumes "sr_wf (router s)"
  shows "\<exists>sr'. arpcache_timeout_round (router s) = Inr sr' \<and> session_keeps s (upd_router s sr')"
proof -
  from keepsD [OF event_keeps [OF assms, of Timer]] obtain sr'
    where r: "handle_event (router s) Timer = Inr sr'" "sr_wf sr'" "same_config (router s) sr'" by auto
  with event_emits [OF assms, of Timer] show ?thesis by (simp add: session_keeps_def)
qed

lemma read_keeps:
  assumes "sr_wf (router s)" "servable (router s) (n, frame)" "Failed \<notin> set (inbox s)"
    "stream (inbox s) = vns_frame n frame @ rest"
  shows "\<exists>s'. sr_read_from_server s = Some (Inr (1, s')) \<and> session_keeps s s' \<and>
    stream (inbox s') = rest \<and> Failed \<notin> set (inbox s')"
proof -
  from frame_result_ok [OF assms(1,2)] obtain sr' where r: "frame_result (router s) frame n = Inr sr'"
    "sr_wf sr'" "same_config (router s) sr'" "emits (router s) sr'" by blast
  from assms(2) obtain iface where sv: "c_name n" "length n < 16" "42 \<le> length frame" "length frame \<le> 9976"
      "sr_get_interface (if_list (router s)) n = Some iface"
    by (auto simp: servable_def deliverable_def)
  from read_vnspacket [OF assms(3,4) sv r(1)] r show ?thesis by (auto simp: session_keeps_def)
qed

lemma turns_keep:
  assumes "sr_wf (router s)" "list_all (servable (router s)) fs" "Failed \<notin> set (inbox s)"
    "stream (inbox s) = concat (map (\<lambda>(n, frame). vns_frame n frame) fs) @ rest"
    "length (filter (\<lambda>t. t = Read) ts) = length fs"
  shows "\<exists>s'. run_turns s ts = Some (Inr (1, s')) \<and> session_keeps s s' \<and> stream (inbox s') = rest"
  using assms
proof (induction ts arbitrary: s fs)
  case Nil
  then show ?case by (simp add: session_keeps_def)
next
  case (Cons t ts)
  show ?case
  proof (cases t)
    case Tick
    from tick_keeps [OF Cons.prems(1)] obtain sr'
      where r: "arpcache_timeout_round (router s) = Inr sr'" "session_keeps s (upd_router s sr')" by blast
    then have "sr_wf sr'" "servable sr' = servable (router s)"
      using servable_config by (auto simp: session_keeps_def)
    with Cons.IH [of "upd_router s sr'" fs] Cons.prems Tick r show ?thesis
      by (auto intro: session_keeps_trans)
  next
    case Read
    with Cons.prems(5) obtain nf fs' where "fs = nf # fs'" by (cases fs) auto
    then obtain n frame where fs: "fs = (n, frame) # fs'" by (cases nf) auto
    with Cons.prems have "servable (router s) (n, frame)"
        "stream (inbox s) = vns_frame n frame @ concat (map (\<lambda>(n, frame). vns_frame n frame) fs') @ rest"
      by simp_all
    from read_keeps [OF Cons.prems(1) this(1) Cons.prems(3) this(2)] obtain s1
      where r: "sr_read_from_server s = Some (Inr (1, s1))" "session_keeps s s1" "Failed \<notin> set (inbox s1)"
        "stream (inbox s1) = concat (map (\<lambda>(n, frame). vns_frame n frame) fs') @ rest" by blast
    then have "sr_wf (router s1)" "servable (router s1) = servable (router s)"
      using servable_config by (auto simp: session_keeps_def)
    with Cons.IH [of s1 fs'] Cons.prems(2,5) Read fs r show ?thesis
      by (auto intro: session_keeps_trans)
  qed
qed

section \<open>A session with the timer running\<close>

text \<open>
  Claim C10: a session is safe under every schedule of the two threads. From a well-formed router, let
  the server send any servable frames, in any segmentation, and let timer rounds happen any number of
  times before, between and after the frames. Then every command and every round is handled without a
  fault, exactly the bytes behind the frames are left unread, the router is well-formed, its interfaces
  and routes are unchanged, and everything written on the way is a packet message for an existing
  interface with that interface's MAC as its Ethernet source.
\<close>

theorem timed_session_served:
  assumes "sr_wf (router s)" and "list_all (servable (router s)) fs" and "Failed \<notin> set (inbox s)"
    and "stream (inbox s) = concat (map (\<lambda>(n, frame). vns_frame n frame) fs) @ rest"
    and "length (filter (\<lambda>t. t = Read) ts) = length fs"
  shows "\<exists>s' ms. run_turns s ts = Some (Inr (1, s')) \<and> stream (inbox s') = rest \<and>
    sr_wf (router s') \<and> same_config (router s) (router s') \<and>
    wire (router s') = wire (router s) @ ms \<and> list_all (sent_ok (if_list (router s))) ms"
  using turns_keep [OF assms] by (auto simp: session_keeps_def emits_def)

theorem timed_session_served_witness:
  "\<exists>s' ms. run_turns (ex_session (ex_cut (vns_frame ''eth1'' ex_frame @ [7]))) [Tick, Read, Tick, Tick] =
      Some (Inr (1, s')) \<and> stream (inbox s') = [7] \<and> sr_wf (router s') \<and> same_config ex_sr (router s') \<and>
    wire (router s') = ms \<and> list_all (sent_ok [ex_if1, ex_if2]) ms"
  using timed_session_served [of "ex_session (ex_cut (vns_frame ''eth1'' ex_frame @ [7]))"
      "[(''eth1'', ex_frame)]" "[7]" "[Tick, Read, Tick, Tick]"] ex_sr_wf ex_servable
  by simp

end
