(* ===== verification/Interleaving.thy ===== *)
theory Interleaving
  imports System
begin

text \<open>
  The two threads inside a packet handler. The main thread takes the lock of the ARP cache for each
  cache operation alone and gives it back; the timer thread holds it for a whole round. So rounds can
  happen between the cache operations of one handler. The functions of this theory are those of the
  packet path with the places where that is possible made explicit: a schedule \<open>\<kappa>\<close> says how many
  rounds happen at the places, numbered in the order in which the handler reaches them.

  \<^item> After a lookup that misses: place 0 is before \<^verbatim>\<open>sr_arpcache_queuereq\<close>, place 1 between it and the
    test of \<^verbatim>\<open>req->times_sent\<close>, place 2 between sending the ARP request and storing the time of it in
    \<^verbatim>\<open>req\<close>. At places 1 and 2 the handler holds a pointer to a request without the lock.
  \<^item> For an ARP reply: one place before each waiting packet is sent and one before the request is
    destroyed.
\<close>

section \<open>The handlers with a schedule\<close>

type_synonym schedule = "nat \<Rightarrow> nat"

fun timer_rounds :: "nat \<Rightarrow> sr_instance \<Rightarrow> sr_instance res" where
  "timer_rounds 0 sr = Inr sr"
| "timer_rounds (Suc k) sr = rbind (arpcache_timeout_round sr) (timer_rounds k)"

definition request_if_new_at :: "schedule \<Rightarrow> sr_instance \<Rightarrow> nat \<Rightarrow> u32 \<Rightarrow> string \<Rightarrow> sr_instance res" where
  "request_if_new_at \<kappa> sr req nh ifname =
     (case deref_req req (requests (cache sr)) of
        None \<Rightarrow> Inl UseAfterFree
      | Some r \<Rightarrow>
          if rq_times_sent r = 0 then
            rbind (send_arp_request sr nh ifname) (\<lambda>sr0.
            rbind (timer_rounds (\<kappa> 2) sr0) (\<lambda>sr1.
              case time_now sr1 of (now, sr2) \<Rightarrow>
              (case deref_req req (requests (cache sr2)) of
                None \<Rightarrow> Inl UseAfterFree
              | Some _ \<Rightarrow>
                  Inr (sr2\<lparr>cache := upd_req req (\<lambda>r. r\<lparr>rq_sent := now, rq_times_sent := 1\<rparr>)
                                     (cache sr2)\<rparr>))))
          else Inr sr)"

definition park_at ::
    "schedule \<Rightarrow> sr_instance \<Rightarrow> u32 \<Rightarrow> byte list \<Rightarrow> nat \<Rightarrow> string \<Rightarrow> sr_instance res" where
  "park_at \<kappa> sr nh packet len ifname =
     rbind (timer_rounds (\<kappa> 0) sr) (\<lambda>sr0.
     rbind (sr_arpcache_queuereq (cache sr0) nh packet len ifname) (\<lambda>(req, c').
     rbind (timer_rounds (\<kappa> 1) (sr0\<lparr>cache := c'\<rparr>)) (\<lambda>sr1.
       request_if_new_at \<kappa> sr1 req nh ifname)))"

definition send_icmp_t3_at ::
    "schedule \<Rightarrow> sr_instance \<Rightarrow> byte list \<Rightarrow> nat \<Rightarrow> byte \<Rightarrow> byte \<Rightarrow> sr_instance res" where
  "send_icmp_t3_at \<kappa> sr packet len ty co =
     rbind (rd_struct sizeof_ip dec_ip packet sizeof_eth) (\<lambda>req_ip.
       case lpm_lookup (routing_table sr) (ip_src req_ip) of
         None \<Rightarrow> Inr sr
       | Some rt \<Rightarrow>
           (case sr_get_interface (if_list sr) (rt_interface rt) of
              None \<Rightarrow> Inr sr
            | Some out_iface \<Rightarrow>
                let ip0 = t3_ip_hdr (if_ip out_iface) (ip_src req_ip) in
                rbind (ip_checksum (enc_ip ip0) (uint (ip_hl ip0) * 4)) (\<lambda>c.
                let reply_ip = ip0\<lparr>ip_sum := htons c\<rparr> in
                rbind (rd_bytes packet sizeof_eth ICMP_DATA_SIZE) (\<lambda>data.
                let icmp0 = t3_icmp_hdr ty co data in
                rbind (ip_checksum (enc_icmp_t3 icmp0) 36) (\<lambda>c2.
                let reply_icmp = icmp0\<lparr>t3_icmp_sum := htons c2\<rparr>;
                    next_hop = (if rt_gw rt \<noteq> 0 then rt_gw rt else ip_src req_ip) in
                (case sr_arpcache_lookup (cache sr) next_hop of
                   Some arp_entry \<Rightarrow>
                     rbind (sr_send_packet sr
                       (enc_eth \<lparr>ether_dhost = ae_mac arp_entry, ether_shost = if_addr out_iface,
                                 ether_type = htons ethertype_ip\<rparr> @
                        enc_ip reply_ip @ enc_icmp_t3 reply_icmp)
                       70 (if_name out_iface)) (\<lambda>(_, sr'). Inr sr')
                 | None \<Rightarrow>
                     park_at \<kappa> sr next_hop
                       (enc_eth \<lparr>ether_dhost = MAC 0 0 0 0 0 0, ether_shost = if_addr out_iface,
                                 ether_type = htons ethertype_ip\<rparr> @
                        enc_ip reply_ip @ enc_icmp_t3 reply_icmp)
                       70 (if_name out_iface)))))))"

definition forward_ip_packet_at :: "schedule \<Rightarrow> sr_instance \<Rightarrow> byte list \<Rightarrow> nat \<Rightarrow> sr_instance res" where
  "forward_ip_packet_at \<kappa> sr packet len =
     rbind (rd_struct sizeof_ip dec_ip packet sizeof_eth) (\<lambda>ip_hdr.
     if ip_ttl ip_hdr \<le> 1 then send_icmp_t3_at \<kappa> sr packet len 11 0
     else
       let ip1 = ip_hdr\<lparr>ip_ttl := ip_ttl ip_hdr - 1, ip_sum := 0\<rparr> in
       rbind (wr_struct enc_ip packet sizeof_eth ip1) (\<lambda>packet1.
       rbind (ip_checksum (drop sizeof_eth packet1) (uint (ip_hl ip1) * 4)) (\<lambda>c.
       rbind (wr_struct enc_ip packet1 sizeof_eth (ip1\<lparr>ip_sum := htons c\<rparr>)) (\<lambda>packet2.
       case lpm_lookup (routing_table sr) (ip_dst ip1) of
         None \<Rightarrow> send_icmp_t3_at \<kappa> sr packet2 len 3 0
       | Some rt \<Rightarrow>
           (case sr_get_interface (if_list sr) (rt_interface rt) of
              None \<Rightarrow> Inr sr
            | Some out_iface \<Rightarrow>
                let next_hop = (if rt_gw rt \<noteq> 0 then rt_gw rt else ip_dst ip1) in
                (case sr_arpcache_lookup (cache sr) next_hop of
                   Some arp_entry \<Rightarrow>
                     rbind (wr_struct enc_eth packet2 0
                       \<lparr>ether_dhost = ae_mac arp_entry, ether_shost = if_addr out_iface,
                        ether_type = htons ethertype_ip\<rparr>) (\<lambda>packet3.
                     rbind (sr_send_packet sr packet3 len (if_name out_iface)) (\<lambda>(_, sr'). Inr sr'))
                 | None \<Rightarrow>
                     rbind (rd_bytes packet2 0 len) (\<lambda>pkt_copy.
                     rbind (rd_struct sizeof_eth dec_eth pkt_copy 0) (\<lambda>eth.
                     rbind (wr_struct enc_eth pkt_copy 0
                       (eth\<lparr>ether_shost := if_addr out_iface, ether_type := htons ethertype_ip\<rparr>))
                       (\<lambda>pkt_copy1. park_at \<kappa> sr next_hop pkt_copy1 len (if_name out_iface))))))))))"

definition handle_ip_packet_at ::
    "schedule \<Rightarrow> sr_instance \<Rightarrow> byte list \<Rightarrow> nat \<Rightarrow> string \<Rightarrow> sr_instance res" where
  "handle_ip_packet_at \<kappa> sr packet len interface =
     (if len < sizeof_eth + sizeof_ip then Inr sr
      else
        rbind (rd_struct sizeof_ip dec_ip packet sizeof_eth) (\<lambda>ip_hdr.
          case sr_get_interface_by_ip (if_list sr) (ip_dst ip_hdr) of
            Some iface \<Rightarrow>
              if ip_p ip_hdr = ip_protocol_icmp then
                rbind (rd8 packet 34) (\<lambda>icmp_ty.
                  if icmp_ty = 8 then send_icmp_echo_reply sr packet len interface
                  else Inr sr)
              else send_icmp_t3_at \<kappa> sr packet len 3 3
          | None \<Rightarrow> forward_ip_packet_at \<kappa> sr packet len))"

fun send_waiting_at :: "schedule \<Rightarrow> sr_instance \<Rightarrow> mac \<Rightarrow> sr_packet list \<Rightarrow> sr_instance res" where
  "send_waiting_at \<kappa> sr sha [] = timer_rounds (\<kappa> 0) sr"
| "send_waiting_at \<kappa> sr sha (pkt # rest) =
     rbind (timer_rounds (\<kappa> 0) sr) (\<lambda>sr0.
       case sr_get_interface (if_list sr0) (pk_iface pkt) of
         None \<Rightarrow> Inl NullDeref
       | Some out_iface \<Rightarrow>
           rbind (wr_struct enc_eth (pk_buf pkt) 0
             \<lparr>ether_dhost = sha, ether_shost = if_addr out_iface,
              ether_type = htons ethertype_ip\<rparr>) (\<lambda>buf.
           rbind (sr_send_packet sr0 buf (pk_len pkt) (pk_iface pkt)) (\<lambda>(_, sr').
             send_waiting_at (\<lambda>i. \<kappa> (Suc i)) sr' sha rest)))"

definition handle_arp_packet_at ::
    "schedule \<Rightarrow> sr_instance \<Rightarrow> byte list \<Rightarrow> nat \<Rightarrow> string \<Rightarrow> sr_instance res" where
  "handle_arp_packet_at \<kappa> sr packet len interface =
     (if len < sizeof_eth + sizeof_arp then Inr sr
      else
        rbind (rd_struct sizeof_arp dec_arp packet sizeof_eth) (\<lambda>arp_hdr.
          let op = ntohs (ar_op arp_hdr) in
          if op = arp_op_request then
            (case sr_get_interface_by_ip (if_list sr) (ar_tip arp_hdr) of
               Some iface \<Rightarrow> send_arp_reply sr packet len interface
             | None \<Rightarrow> Inr sr)
          else if op = arp_op_reply then
            (case arpcache_insert_now sr (ar_sha arp_hdr) (ar_sip arp_hdr) of
               (None, sr1) \<Rightarrow> Inr sr1
             | (Some req, sr1) \<Rightarrow>
                 rbind (send_waiting_at \<kappa> sr1 (ar_sha arp_hdr) (rq_packets req)) (\<lambda>sr2.
                   Inr (sr2\<lparr>cache := sr_arpreq_destroy (cache sr2) (rq_addr req)\<rparr>)))
          else Inr sr))"

definition sr_handlepacket_at ::
    "schedule \<Rightarrow> sr_instance \<Rightarrow> byte list \<Rightarrow> nat \<Rightarrow> string \<Rightarrow> sr_instance res" where
  "sr_handlepacket_at \<kappa> sr packet len interface =
     (if len < sizeof_eth then Inr sr
      else
        rbind (rd_struct sizeof_eth dec_eth packet 0) (\<lambda>eth_hdr.
          let ether_ty = ntohs (ether_type eth_hdr) in
          if ether_ty = ethertype_arp then handle_arp_packet_at \<kappa> sr packet len interface
          else if ether_ty = ethertype_ip then handle_ip_packet_at \<kappa> sr packet len interface
          else Inr sr))"

section \<open>The schedule without rounds\<close>

lemma send_arp_request_cache: "send_arp_request sr nh n = Inr sr' \<Longrightarrow> cache sr' = cache sr"
  using send_arp_request_safe [of sr nh n] by (simp add: same_core_def)

lemma request_if_new_quiet: "request_if_new_at (\<lambda>_. 0) sr a nh n = request_if_new sr a nh n"
proof (cases "send_arp_request sr nh n")
  case (Inr sr')
  then show ?thesis
    by (auto simp: request_if_new_at_def request_if_new_def time_now_eq
        dest: send_arp_request_cache split: option.split)
qed (simp add: request_if_new_at_def request_if_new_def split: option.split)

lemma park_quiet:
  "park_at (\<lambda>_. 0) sr nh p len n =
     rbind (sr_arpcache_queuereq (cache sr) nh p len n) (\<lambda>(req, c').
       request_if_new (sr\<lparr>cache := c'\<rparr>) req nh n)"
  by (simp add: park_at_def request_if_new_quiet)

lemma send_waiting_quiet: "send_waiting_at (\<lambda>_. 0) sr sha ps = send_waiting sr sha ps"
  by (induction ps arbitrary: sr) (simp_all cong: option.case_cong)

lemma t3_quiet: "send_icmp_t3_at (\<lambda>_. 0) sr p len ty co = send_icmp_t3 sr p len ty co"
  unfolding send_icmp_t3_at_def send_icmp_t3_def park_quiet ..

lemma forward_quiet: "forward_ip_packet_at (\<lambda>_. 0) sr p len = forward_ip_packet sr p len"
  unfolding forward_ip_packet_at_def forward_ip_packet_def park_quiet t3_quiet ..

lemma ip_quiet: "handle_ip_packet_at (\<lambda>_. 0) sr p len n = handle_ip_packet sr p len n"
  unfolding handle_ip_packet_at_def handle_ip_packet_def t3_quiet forward_quiet ..

lemma arp_quiet: "handle_arp_packet_at (\<lambda>_. 0) sr p len n = handle_arp_packet sr p len n"
  unfolding handle_arp_packet_at_def handle_arp_packet_def send_waiting_quiet ..

lemma handlepacket_quiet: "sr_handlepacket_at (\<lambda>_. 0) sr p len n = sr_handlepacket sr p len n"
  unfolding sr_handlepacket_at_def sr_handlepacket_def ip_quiet arp_quiet ..

section \<open>Interference\<close>

definition safe_step :: "sr_instance \<Rightarrow> sr_instance res \<Rightarrow> bool" where
  "safe_step sr m \<longleftrightarrow> (\<exists>sr'. m = Inr sr' \<and> sr_wf sr' \<and> same_config sr sr' \<and> emits sr sr')"

lemma safe_step_Inr [simp]: "safe_step sr (Inr sr') \<longleftrightarrow> sr_wf sr' \<and> same_config sr sr' \<and> emits sr sr'"
  by (simp add: safe_step_def)

lemma safe_stepI: "keeps sr m \<Longrightarrow> emitting sr m \<Longrightarrow> safe_step sr m"
  by (auto simp: safe_step_def keeps_def emitting_def rpost_iff)

lemma safe_seq:
  assumes "safe_step sr m"
    and "\<And>sr1. m = Inr sr1 \<Longrightarrow> sr_wf sr1 \<Longrightarrow> same_config sr sr1 \<Longrightarrow> safe_step sr1 (f sr1)"
  shows "safe_step sr (rbind m f)"
proof -
  from assms(1) obtain sr1 where m: "m = Inr sr1" "sr_wf sr1" "same_config sr sr1" "emits sr sr1"
    by (auto simp: safe_step_def)
  from assms(2) [OF this(1-3)] obtain sr2 where "f sr1 = Inr sr2" "sr_wf sr2" "same_config sr1 sr2" "emits sr1 sr2"
    by (auto simp: safe_step_def)
  with m show ?thesis by (auto simp: safe_step_def intro: same_config_trans emits_trans)
qed

lemma safe_send:
  "sr_wf sr \<Longrightarrow> len \<le> length buf \<Longrightarrow> len \<le> max_frame \<Longrightarrow>
     safe_step sr (rbind (sr_send_packet sr buf len n) (\<lambda>(_, sr'). Inr sr'))"
  by (intro safe_stepI keeps_send emitting_send)

lemma safe_rounds: "sr_wf sr \<Longrightarrow> safe_step sr (timer_rounds k sr)"
proof (induction k arbitrary: sr)
  case (Suc k)
  have "safe_step sr (arpcache_timeout_round sr)"
    using Suc.prems by (intro safe_stepI timeout_round_safe emitting_round)
  then show ?case using Suc.IH by (simp add: safe_seq)
qed simp

text \<open>
  What rounds may do to the requests that a handler holds a pointer to: the number of transmissions
  grows by at most one per round, and a request with fewer than five stays.
\<close>

definition spared :: "nat \<Rightarrow> sr_instance \<Rightarrow> bool" where
  "spared k sr \<longleftrightarrow> (\<forall>r \<in> set (requests (cache sr)). unat (rq_times_sent r) + k \<le> 5)"

definition survive :: "sr_instance \<Rightarrow> sr_instance \<Rightarrow> bool" where
  "survive sr sr' \<longleftrightarrow> (\<forall>a. deref_req a (requests (cache sr)) \<noteq> None \<longrightarrow> deref_req a (requests (cache sr')) \<noteq> None)"

lemma spared_deref:
  assumes "sr_wf sr"
  shows "spared k sr \<longleftrightarrow> (\<forall>a r. deref_req a (requests (cache sr)) = Some r \<longrightarrow> unat (rq_times_sent r) + k \<le> 5)"
proof -
  have "deref_req (rq_addr r) (requests (cache sr)) = Some r" if "r \<in> set (requests (cache sr))" for r
    using assms that by (intro deref_unique) (simp_all add: sr_wf_def cache_ok_def arpcache_wf_def)
  moreover have "r \<in> set (requests (cache sr))" if "deref_req a (requests (cache sr)) = Some r" for a r
    using that req_by_addr.search_hit by blast
  ultimately show ?thesis unfolding spared_def by blast
qed

lemma arpreq_step_spared:
  assumes "unat (rq_times_sent r) < 5"
  shows "\<exists>r'. arpreq_step now r = Some r' \<and> unat (rq_times_sent r') \<le> unat (rq_times_sent r) + 1"
  using assms by (auto simp: arpreq_step_def word_le_nat_alt unat_word_ariths)

lemma sweep_loop_spared:
  assumes "sr_wf sr" "distinct as"
    and "\<forall>a \<in> set as. \<exists>r. deref_req a (requests (cache sr)) = Some r \<and> unat (rq_times_sent r) < 5"
    and "sweep_loop sr as = Inr sr'"
  shows "rel_option (\<lambda>r r'. unat (rq_times_sent r') \<le> unat (rq_times_sent r) + (if b \<in> set as then 1 else 0))
    (deref_req b (requests (cache sr))) (deref_req b (requests (cache sr')))"
  using assms
proof (induction as arbitrary: sr)
  case Nil
  then show ?case by (simp add: option.rel_refl)
next
  case (Cons a as)
  then obtain r where r: "deref_req a (requests (cache sr)) = Some r" "unat (rq_times_sent r) < 5" by auto
  from handle_arpreq_eq [OF Cons.prems(1) r(1)] obtain sr1 now where h: "handle_arpreq sr a = Inr sr1" "sr_wf sr1"
    and d: "\<And>b. deref_req b (requests (cache sr1)) =
      (if b = a then arpreq_step now r else deref_req b (requests (cache sr)))" by blast
  have IH: "rel_option (\<lambda>r r'. unat (rq_times_sent r') \<le> unat (rq_times_sent r) + (if b \<in> set as then 1 else 0))
    (deref_req b (requests (cache sr1))) (deref_req b (requests (cache sr')))"
    using Cons.prems h d by (intro Cons.IH) auto
  show ?case
  proof (cases "b = a")
    case True
    with arpreq_step_spared [OF r(2), of now] IH Cons.prems(2) r(1) show ?thesis
      by (auto simp: d option_rel_Some1)
  qed (use IH in \<open>simp add: d\<close>)
qed

lemma sweep_loop_others:
  assumes "sr_wf sr" "distinct as" "\<forall>a \<in> set as. deref_req a (requests (cache sr)) \<noteq> None"
  shows "\<exists>sr'. sweep_loop sr as = Inr sr' \<and>
    (\<forall>b. b \<notin> set as \<longrightarrow> deref_req b (requests (cache sr')) = deref_req b (requests (cache sr)))"
  using assms
proof (induction as arbitrary: sr)
  case (Cons a as)
  then obtain r where r: "deref_req a (requests (cache sr)) = Some r" by auto
  from handle_arpreq_safe [OF Cons.prems(1) this] obtain sr1 where h: "handle_arpreq sr a = Inr sr1" "sr_wf sr1"
    "\<And>b. b \<noteq> a \<Longrightarrow> deref_req b (requests (cache sr1)) = deref_req b (requests (cache sr))"
    by (auto simp: rpost_iff)
  have "\<forall>b \<in> set as. deref_req b (requests (cache sr1)) \<noteq> None"
    using Cons.prems(2,3) h(3) by (metis distinct.simps(2) list.set_intros(2))
  with Cons.IH [OF h(2)] Cons.prems(2) h show ?case by auto
qed simp

lemma round_spared:
  assumes "sr_wf sr" "spared (Suc k) sr" "arpcache_timeout_round sr = Inr sr'"
  shows "sr_wf sr' \<and> spared k sr' \<and> survive sr sr'"
proof -
  let ?sr1 = "sr\<lparr>env_ticks := Suc (env_ticks sr),
    cache := arpcache_expire (fst (env_clock sr (env_ticks sr))) (cache sr)\<rparr>"
  let ?as = "map rq_addr (requests (cache sr))"
  have wf: "sr_wf sr'" using timeout_round_safe [OF assms(1)] assms(3) by (simp add: keeps_def)
  have wf1: "sr_wf ?sr1" using assms(1) by (simp add: sr_wf_def cache_ok_expire)
  have d: "distinct ?as" using assms(1) by (simp add: sr_wf_def cache_ok_def arpcache_wf_def)
  have t: "deref_req b (requests (cache sr)) = Some r \<Longrightarrow> unat (rq_times_sent r) + Suc k \<le> 5" for b r
    using assms(2) by (simp add: spared_deref [OF assms(1)])
  have "\<exists>r. deref_req a (requests (cache sr)) = Some r" if "a \<in> set ?as" for a
    using that req_by_addr.search_None_iff [of a "requests (cache sr)"] by (cases "deref_req a (requests (cache sr))") auto
  then have "\<forall>a \<in> set ?as. \<exists>r. deref_req a (requests (cache ?sr1)) = Some r \<and> unat (rq_times_sent r) < 5"
    using t by fastforce
  from sweep_loop_spared [OF wf1 d this]
  have rel: "rel_option (\<lambda>r r'. unat (rq_times_sent r') \<le> unat (rq_times_sent r) + (if b \<in> set ?as then 1 else 0))
    (deref_req b (requests (cache sr))) (deref_req b (requests (cache sr')))" for b
    using assms(3) by (simp add: arpcache_timeout_round_def time_now_eq sr_arpcache_sweepreqs_def)
  have "survive sr sr'"
    unfolding survive_def using rel by (metis option.rel_distinct(2) option.exhaust)
  moreover have "spared k sr'"
    unfolding spared_deref [OF wf]
  proof (intro allI impI)
    fix b r' assume "deref_req b (requests (cache sr')) = Some r'"
    with rel [of b] obtain r where "deref_req b (requests (cache sr)) = Some r"
      "unat (rq_times_sent r') \<le> unat (rq_times_sent r) + 1"
      by (auto simp: option_rel_Some2 split: if_splits)
    with t [of b r] show "unat (rq_times_sent r') + k \<le> 5" by simp
  qed
  ultimately show ?thesis using wf by blast
qed

lemma rounds_spared:
  assumes "sr_wf sr" "spared (k + j) sr" "timer_rounds k sr = Inr sr'"
  shows "sr_wf sr' \<and> spared j sr' \<and> survive sr sr'"
  using assms
proof (induction k arbitrary: sr)
  case (Suc k)
  then obtain sr1 where "arpcache_timeout_round sr = Inr sr1" "timer_rounds k sr1 = Inr sr'"
    by (auto simp: rbind_eq_Inr)
  with Suc.IH [of sr1] round_spared [of sr "k + j" sr1] Suc.prems(1,2) show ?case
    by (auto simp: survive_def)
qed (simp add: survive_def)

section \<open>Safety of the handlers\<close>

lemma emits_config: "emits sr sr' \<Longrightarrow> if_list sr' = if_list sr"
  by (simp add: emits_def)

lemma safe_upd [simp]:
  "safe_step (sr\<lparr>cache := c\<rparr>) m = safe_step sr m" "safe_step (sr\<lparr>env_ticks := k\<rparr>) m = safe_step sr m"
  by (simp_all add: safe_step_def)

lemma safe_arp_request: "sr_wf sr \<Longrightarrow> safe_step sr (send_arp_request sr nh n)"
  by (intro safe_stepI keepsI_core send_arp_request_safe emitting_arp_request)

lemma safe_request_at:
  assumes "sr_wf sr" "spared (\<kappa> 2) sr" "deref_req a (requests (cache sr)) = Some r"
  shows "safe_step sr (request_if_new_at \<kappa> sr a nh n)"
proof -
  define finish where "finish = (\<lambda>sr1. case time_now sr1 of (now, sr2) \<Rightarrow>
      (case deref_req a (requests (cache sr2)) of None \<Rightarrow> Inl UseAfterFree
       | Some _ \<Rightarrow> Inr (sr2\<lparr>cache := upd_req a (\<lambda>r. r\<lparr>rq_sent := now, rq_times_sent := 1\<rparr>) (cache sr2)\<rparr>)))"
  have fin: "safe_step sr1 (finish sr1)" if "sr_wf sr1" "deref_req a (requests (cache sr1)) \<noteq> None" for sr1
  proof -
    have "cache_ok (if_list sr1) (upd_req a (\<lambda>r. r\<lparr>rq_sent := t, rq_times_sent := 1\<rparr>) (cache sr1))" for t
      using that(1) unfolding sr_wf_def by (rule cache_ok_upd) (simp_all add: req_ok_def)
    with that(2) show ?thesis by (auto simp: finish_def time_now_eq sr_wf_def)
  qed
  have "safe_step sr0 (rbind (timer_rounds (\<kappa> 2) sr0) finish)"
    if s: "send_arp_request sr nh n = Inr sr0" and wf: "sr_wf sr0" for sr0
  proof (rule safe_seq [OF safe_rounds [OF wf]])
    fix sr1 assume r: "timer_rounds (\<kappa> 2) sr0 = Inr sr1" and "sr_wf sr1"
    have c: "cache sr0 = cache sr" using s by (rule send_arp_request_cache)
    with rounds_spared [OF wf, of "\<kappa> 2" 0 sr1] r assms(2) have "survive sr0 sr1" by (simp add: spared_def)
    with assms(3) c have "deref_req a (requests (cache sr1)) \<noteq> None" by (auto simp: survive_def)
    with \<open>sr_wf sr1\<close> show "safe_step sr1 (finish sr1)" by (rule fin)
  qed
  then have "safe_step sr (rbind (send_arp_request sr nh n) (\<lambda>sr0. rbind (timer_rounds (\<kappa> 2) sr0) finish))"
    by (rule safe_seq [OF safe_arp_request [OF assms(1)]])
  then show ?thesis using assms(1,3) by (simp add: request_if_new_at_def finish_def)
qed

lemma queued_spared:
  assumes "spared k sr" "k \<le> 5" "0 < len" "len \<le> length packet"
    "sr_arpcache_queuereq (cache sr) nh packet len n = Inr (a, c')"
  shows "spared k (sr\<lparr>cache := c'\<rparr>)"
proof -
  obtain b c1 where g: "get_or_alloc_req (cache sr) nh = (b, c1)" by (cases "get_or_alloc_req (cache sr) nh")
  have "unat (rq_times_sent r) + k \<le> 5" if "r \<in> set (requests c1)" for r
    using g that assms(1,2) by (auto simp: get_or_alloc_req_def spared_def split: option.splits)
  with g assms(3-5) show ?thesis
    by (auto simp: spared_def queuereq_eq upd_req_def split: if_splits)
qed

lemma safe_park_at:
  assumes "sr_wf sr" "spared (\<kappa> 0 + (\<kappa> 1 + \<kappa> 2)) sr" "\<kappa> 1 + \<kappa> 2 \<le> 5"
    "len = length packet" "42 \<le> len" "len \<le> max_frame" "sr_get_interface (if_list sr) n = Some i"
  shows "safe_step sr (park_at \<kappa> sr nh packet len n)"
  unfolding park_at_def
proof (rule safe_seq [OF safe_rounds [OF assms(1)]])
  fix sr0 assume r0: "timer_rounds (\<kappa> 0) sr = Inr sr0" and wf0: "sr_wf sr0" and same: "same_config sr sr0"
  have sp0: "spared (\<kappa> 1 + \<kappa> 2) sr0" using rounds_spared [OF assms(1,2) r0] by simp
  obtain a c' r where q: "sr_arpcache_queuereq (cache sr0) nh packet len n = Inr (a, c')"
    "cache_ok (if_list sr0) c'" "deref_req a (requests c') = Some r"
    using cache_ok_queue [of "if_list sr0" "cache sr0" len packet n nh] assms(4-7) wf0 same
    by (auto simp: sr_wf_def same_config_def)
  let ?sr = "sr0\<lparr>cache := c'\<rparr>"
  have wf: "sr_wf ?sr" using q(2) by (simp add: sr_wf_def)
  have sp: "spared (\<kappa> 1 + \<kappa> 2) ?sr"
    using assms(4,5) by (intro queued_spared [OF sp0 assms(3) _ _ q(1)]) linarith+
  have "safe_step ?sr (rbind (timer_rounds (\<kappa> 1) ?sr) (\<lambda>sr1. request_if_new_at \<kappa> sr1 a nh n))"
  proof (rule safe_seq [OF safe_rounds [OF wf]])
    fix sr1 assume r1: "timer_rounds (\<kappa> 1) ?sr = Inr sr1" and wf1: "sr_wf sr1"
    with rounds_spared [OF wf sp r1] q(3) obtain r1
      where "spared (\<kappa> 2) sr1" "deref_req a (requests (cache sr1)) = Some r1" by (auto simp: survive_def)
    then show "safe_step sr1 (request_if_new_at \<kappa> sr1 a nh n)" by (intro safe_request_at [OF wf1])
  qed
  then show "safe_step sr0 (rbind (sr_arpcache_queuereq (cache sr0) nh packet len n) (\<lambda>(req, c').
     rbind (timer_rounds (\<kappa> 1) (sr0\<lparr>cache := c'\<rparr>)) (\<lambda>sr1. request_if_new_at \<kappa> sr1 req nh n)))"
    using q(1) by simp
qed

text \<open>No request comes near its last transmission while a handler runs under the schedule.\<close>

definition unhurried :: "schedule \<Rightarrow> sr_instance \<Rightarrow> bool" where
  "unhurried \<kappa> sr \<longleftrightarrow> \<kappa> 1 + \<kappa> 2 \<le> 5 \<and> spared (\<kappa> 0 + (\<kappa> 1 + \<kappa> 2)) sr"

lemma safe_icmp_t3_at:
  assumes wf: "sr_wf sr" "unhurried \<kappa> sr" and len: "42 \<le> length packet"
  shows "safe_step sr (send_icmp_t3_at \<kappa> sr packet len ty co)"
proof -
  obtain h where h: "rd_struct sizeof_ip dec_ip packet sizeof_eth = Inr h" using len by simp
  show ?thesis
  proof (cases "route_to sr (ip_src h)")
    case None
    with wf h show ?thesis by (auto simp: send_icmp_t3_at_def route_to_def split: option.splits)
  next
    case (Some r)
    then obtain rt out where r: "lpm_lookup (routing_table sr) (ip_src h) = Some rt"
      "sr_get_interface (if_list sr) (rt_interface rt) = Some out"
      by (auto simp: route_to_def split: option.splits)
    let ?ip = "t3_ip_hdr (if_ip out) (ip_src h)" and ?ic = "t3_icmp_hdr ty co (mslice packet 14 28)"
    obtain c where c: "ip_checksum (enc_ip ?ip) (uint (ip_hl ?ip) * 4) = Inr c"
      using ip_checksum_safe [of "uint (ip_hl ?ip) * 4" "enc_ip ?ip"] by (auto simp: t3_ip_hdr_def)
    obtain c2 where c2: "ip_checksum (enc_icmp_t3 ?ic) 36 = Inr c2"
      using ip_checksum_safe [of 36 "enc_icmp_t3 ?ic"] len by (auto simp: t3_icmp_hdr_def)
    have [simp]: "length (t3_data ?ic) = 28" using len by (simp add: t3_icmp_hdr_def)
    note park = safe_park_at [where \<kappa> = \<kappa>, OF wf(1) _ _ _ _ _ get_interface_name [OF r(2)]]
    show ?thesis
      using wf len h r c c2
      by (simp add: send_icmp_t3_at_def Let_def safe_send park unhurried_def split: option.split)
  qed
qed

lemma safe_forward_at:
  assumes wf: "sr_wf sr" "unhurried \<kappa> sr" and len: "len = length packet" "42 \<le> len" "len \<le> max_frame"
    and hl: "14 + 4 * unat (ip_hl (dec_ip (mslice packet 14 20))) \<le> len"
  shows "safe_step sr (forward_ip_packet_at \<kappa> sr packet len)"
proof -
  obtain e h pl where p: "packet = enc_eth e @ enc_ip h @ pl"
    using len by (auto intro: frame_ip_cases [of packet])
  let ?h1 = "h\<lparr>ip_ttl := ip_ttl h - 1, ip_sum := 0\<rparr>"
  obtain c where c: "ip_checksum (enc_ip ?h1 @ pl) (uint (ip_hl h) * 4) = Inr c"
    using ip_checksum_safe [of "uint (ip_hl h) * 4" "enc_ip ?h1 @ pl"] hl len p by (auto simp: mslice_def)
  let ?p2 = "enc_eth e @ enc_ip (h\<lparr>ip_ttl := ip_ttl h - 1, ip_sum := htons c\<rparr>) @ pl"
  have t3: "safe_step sr (send_icmp_t3_at \<kappa> sr packet len 11 0)" "safe_step sr (send_icmp_t3_at \<kappa> sr ?p2 len 3 0)"
    using wf len p by (auto intro!: safe_icmp_t3_at)
  show ?thesis
    using wf len p c t3 get_interface_name
    by (auto simp: forward_ip_packet_at_def Let_def mslice_def unhurried_def split: option.split
        intro!: safe_send safe_park_at)
qed

lemma safe_ip_at:
  assumes "sr_wf sr" "unhurried \<kappa> sr" "len = length packet" "42 \<le> len" "len \<le> max_frame"
    "14 + 4 * unat (ip_hl (dec_ip (mslice packet 14 20))) \<le> len"
    "sr_get_interface (if_list sr) interface = Some i"
  shows "safe_step sr (handle_ip_packet_at \<kappa> sr packet len interface)"
  using assms
  by (auto simp: handle_ip_packet_at_def safe_forward_at safe_icmp_t3_at
      intro!: safe_stepI [OF send_icmp_echo_reply_safe] split: option.split)

lemma safe_waiting_at:
  assumes "sr_wf sr" "list_all (queued_ok (if_list sr)) ps"
  shows "safe_step sr (send_waiting_at \<kappa> sr m ps)"
  using assms
proof (induction ps arbitrary: sr \<kappa>)
  case (Cons p ps)
  have "safe_step sr0 (case sr_get_interface (if_list sr0) (pk_iface p) of
      None \<Rightarrow> Inl NullDeref
    | Some out \<Rightarrow> rbind (wr_struct enc_eth (pk_buf p) 0
        \<lparr>ether_dhost = m, ether_shost = if_addr out, ether_type = htons ethertype_ip\<rparr>) (\<lambda>buf.
        rbind (sr_send_packet sr0 buf (pk_len p) (pk_iface p)) (\<lambda>(_, sr').
          send_waiting_at (\<lambda>i. \<kappa> (Suc i)) sr' m ps)))"
    if wf: "sr_wf sr0" and same: "same_config sr sr0" for sr0
  proof -
    have ifs: "if_list sr0 = if_list sr" using same by (simp add: same_config_def)
    from Cons.prems(2) obtain i where i: "sr_get_interface (if_list sr) (pk_iface p) = Some i"
      and len: "pk_len p = length (pk_buf p)" "42 \<le> pk_len p" "pk_len p \<le> max_frame"
      by (auto simp: queued_ok_def)
    then obtain e r where b: "pk_buf p = enc_eth e @ r"
      by (auto intro: frame_eth_cases [of "pk_buf p"])
    let ?f = "enc_eth \<lparr>ether_dhost = m, ether_shost = if_addr i, ether_type = htons ethertype_ip\<rparr> @ r"
    have "safe_step sr0 (rbind (rbind (sr_send_packet sr0 ?f (pk_len p) (pk_iface p)) (\<lambda>(_, sr'). Inr sr'))
        (\<lambda>sr'. send_waiting_at (\<lambda>i. \<kappa> (Suc i)) sr' m ps))"
    proof (rule safe_seq)
      show "safe_step sr0 (rbind (sr_send_packet sr0 ?f (pk_len p) (pk_iface p)) (\<lambda>(_, sr'). Inr sr'))"
        using wf len b by (intro safe_send) simp_all
    next
      fix sr1 assume "sr_wf sr1" "same_config sr0 sr1"
      then show "safe_step sr1 (send_waiting_at (\<lambda>i. \<kappa> (Suc i)) sr1 m ps)"
        using Cons ifs by (simp add: same_config_def)
    qed
    with i b ifs show ?thesis by (simp add: rbind_assoc case_prod_unfold)
  qed
  then show ?case using safe_seq [OF safe_rounds [OF Cons.prems(1)]] by simp
qed (simp add: safe_rounds)

lemma safe_arp_at:
  assumes wf: "sr_wf sr" and len: "len = length packet"
  shows "safe_step sr (handle_arp_packet_at \<kappa> sr packet len interface)"
proof (cases "len < 42")
  case True
  with wf show ?thesis by (simp add: handle_arp_packet_at_def)
next
  case False
  with len obtain h where h: "rd_struct sizeof_arp dec_arp packet sizeof_eth = Inr h" by simp
  obtain req c k where i: "sr_arpcache_insert (cache sr) (ar_sha h) (ar_sip h) (fst (env_clock sr (env_ticks sr))) =
      (req, c)" and n: "arpcache_insert_now sr (ar_sha h) (ar_sip h) = (req, sr\<lparr>env_ticks := k, cache := c\<rparr>)"
    by (rule insert_now_cases)
  let ?sr1 = "sr\<lparr>env_ticks := k\<rparr>"
  from cache_ok_insert [OF _ i, of "if_list sr"] wf
  have c: "sr_wf (?sr1\<lparr>cache := c\<rparr>)" and r: "\<And>r. req = Some r \<Longrightarrow> req_ok (if_list sr) r"
    by (auto simp: sr_wf_def)
  have "safe_step (?sr1\<lparr>cache := c\<rparr>) (rbind (send_waiting_at \<kappa> (?sr1\<lparr>cache := c\<rparr>) (ar_sha h) (rq_packets q))
      (\<lambda>sr2. Inr (sr2\<lparr>cache := sr_arpreq_destroy (cache sr2) (rq_addr q)\<rparr>)))" if "req = Some q" for q
    using r [OF that]
    by (intro safe_seq [OF safe_waiting_at [OF c]]) (auto simp: req_ok_def sr_wf_def cache_ok_destroy)
  then have reply: "safe_step sr (case req of None \<Rightarrow> Inr (?sr1\<lparr>cache := c\<rparr>)
     | Some req \<Rightarrow> rbind (send_waiting_at \<kappa> (?sr1\<lparr>cache := c\<rparr>) (ar_sha h) (rq_packets req)) (\<lambda>sr2.
         Inr (sr2\<lparr>cache := sr_arpreq_destroy (cache sr2) (rq_addr req)\<rparr>)))"
    using c by (auto split: option.split)
  have "safe_step sr (send_arp_reply sr packet len interface)"
    using wf len False by (intro safe_stepI keepsI_core send_arp_reply_safe emitting_arp_reply) auto
  then show ?thesis
    using wf len False h n reply
    by (simp add: handle_arp_packet_at_def Let_def split: option.split option.split_asm)
qed

lemma handlepacket_at_safe:
  assumes "sr_wf sr" "unhurried \<kappa> sr" "deliverable sr packet interface"
  shows "safe_step sr (sr_handlepacket_at \<kappa> sr packet (length packet) interface)"
proof -
  obtain i where "sr_get_interface (if_list sr) interface = Some i"
    using assms(3) by (auto simp: deliverable_def)
  with assms show ?thesis
    by (auto simp: sr_handlepacket_at_def Let_def deliverable_def intro!: safe_arp_at safe_ip_at)
qed

lemma arp_at_safe:
  assumes "sr_wf sr" "deliverable sr packet interface"
    "ether_type (dec_eth (mslice packet 0 14)) = htons ethertype_arp"
  shows "safe_step sr (sr_handlepacket_at \<kappa> sr packet (length packet) interface)"
  using assms by (auto simp: sr_handlepacket_at_def Let_def deliverable_def intro!: safe_arp_at)

section \<open>Properties\<close>

text \<open>
  Claim C3: a packet handler that timer rounds interrupt. On a well-formed router and a deliverable
  frame, with timer rounds at the places where the handler does not hold the lock of the ARP cache,
  the handler ends without a fault, in a well-formed router with the same configuration, and all that
  it and the timer have written carries the MAC of its interface, provided that no outstanding request,
  be it the one that the handler uses or another, can have more than five transmissions at the end of all rounds of the handler, and at most five
  of these rounds happen while the handler holds a pointer to the request it queued for. For an ARP frame any number of rounds is fine.
\<close>

theorem interrupted_handler_safe:
  assumes "sr_wf sr" and "deliverable sr packet interface"
    and "ether_type (dec_eth (mslice packet 0 14)) = htons ethertype_arp \<or>
      \<kappa> 1 + \<kappa> 2 \<le> 5 \<and>
      (\<forall>r \<in> set (requests (cache sr)). unat (rq_times_sent r) + (\<kappa> 0 + (\<kappa> 1 + \<kappa> 2)) \<le> 5)"
  shows "\<exists>sr' ms. sr_handlepacket_at \<kappa> sr packet (length packet) interface = Inr sr' \<and> sr_wf sr' \<and>
    same_config sr sr' \<and> wire sr' = wire sr @ ms \<and> list_all (sent_ok (if_list sr)) ms"
proof -
  have "safe_step sr (sr_handlepacket_at \<kappa> sr packet (length packet) interface)"
    using assms by (auto simp: unhurried_def spared_def intro: arp_at_safe handlepacket_at_safe)
  then show ?thesis by (auto simp: safe_step_def emits_def)
qed

section \<open>The bound is needed\<close>

lemma sweep_loop_gives_up:
  assumes "sr_wf sr" "distinct as" "\<forall>b \<in> set as. deref_req b (requests (cache sr)) \<noteq> None" "a \<in> set as"
    "deref_req a (requests (cache sr)) = Some r" "5 \<le> rq_times_sent r"
    "\<forall>k \<ge> env_ticks sr. fst (env_clock sr k) - rq_sent r \<ge> 1"
  shows "\<exists>sr'. sweep_loop sr as = Inr sr' \<and> deref_req a (requests (cache sr')) = None"
  using assms
proof (induction as arbitrary: sr)
  case (Cons b as)
  then obtain q where q: "deref_req b (requests (cache sr)) = Some q" by auto
  from handle_arpreq_eq [OF Cons.prems(1) this] obtain sr1 where h: "handle_arpreq sr b = Inr sr1" "sr_wf sr1"
      "same_config sr sr1" "env_ticks sr < env_ticks sr1"
    and d: "\<And>c. deref_req c (requests (cache sr1)) =
      (if c = b then arpreq_step (fst (env_clock sr (env_ticks sr))) q else deref_req c (requests (cache sr)))"
    by blast
  have live: "\<forall>c \<in> set as. deref_req c (requests (cache sr1)) \<noteq> None"
    using Cons.prems(2,3) by (auto simp: d)
  show ?case
  proof (cases "a = b")
    case True
    obtain sr' where s: "sweep_loop sr1 as = Inr sr'"
      "\<And>c. c \<notin> set as \<Longrightarrow> deref_req c (requests (cache sr')) = deref_req c (requests (cache sr1))"
      using sweep_loop_others [OF h(2) _ live] Cons.prems(2) by auto
    have "arpreq_step (fst (env_clock sr (env_ticks sr))) q = None"
      using Cons.prems(5-7) q True by (auto simp: arpreq_step_def dest: spec [of _ "env_ticks sr"])
    with s h(1) Cons.prems(2) True d show ?thesis by auto
  next
    case False
    have "env_clock sr1 = env_clock sr" using h(3) by (simp add: same_config_def)
    with Cons.IH [OF h(2) _ live] Cons.prems False h(1,4) d show ?thesis by auto
  qed
qed simp

lemma round_gives_up:
  assumes "sr_wf sr" "deref_req a (requests (cache sr)) = Some r" "5 \<le> rq_times_sent r"
    "\<forall>k \<ge> env_ticks sr. fst (env_clock sr k) - rq_sent r \<ge> 1"
  shows "\<exists>sr'. arpcache_timeout_round sr = Inr sr' \<and> deref_req a (requests (cache sr')) = None"
proof -
  let ?sr1 = "sr\<lparr>env_ticks := Suc (env_ticks sr),
    cache := arpcache_expire (fst (env_clock sr (env_ticks sr))) (cache sr)\<rparr>"
  let ?as = "map rq_addr (requests (cache sr))"
  have wf1: "sr_wf ?sr1" using assms(1) by (simp add: sr_wf_def cache_ok_expire)
  have d: "distinct ?as" using assms(1) by (simp add: sr_wf_def cache_ok_def arpcache_wf_def)
  have live: "\<forall>b \<in> set ?as. deref_req b (requests (cache ?sr1)) \<noteq> None"
    by (auto simp: req_by_addr.search_None_iff)
  have a: "a \<in> set ?as" using assms(2) req_by_addr.search_hit by fastforce
  show ?thesis
    using sweep_loop_gives_up [OF wf1 d live a, of r] assms(2-4)
    by (simp add: arpcache_timeout_round_def time_now_eq sr_arpcache_sweepreqs_def)
qed

lemma handlepacket_at_miss:
  assumes "good_ip e h pl" "ip_decision sr h pl = Forward out nh" "sr_arpcache_lookup (cache sr) nh = None"
  shows "sr_handlepacket_at \<kappa> sr (ip_frame e h pl) (length (ip_frame e h pl)) interface =
    park_at \<kappa> sr nh (enc_eth (ip_eth (ether_dhost e) out) @ enc_ip (forwarded h pl) @ pl) (34 + length pl)
      (if_name out)"
proof -
  let ?h0 = "h\<lparr>ip_ttl := ip_ttl h - 1, ip_sum := 0\<rparr>"
  from assms(2) obtain rt where d: "sr_get_interface_by_ip (if_list sr) (ip_dst h) = None" "\<not> ip_ttl h \<le> 1"
      "lpm_lookup (routing_table sr) (ip_dst h) = Some rt"
      "sr_get_interface (if_list sr) (rt_interface rt) = Some out" "nh = next_hop rt (ip_dst h)"
    by (auto simp: ip_decision_def split: if_splits option.splits)
  obtain c where c: "ip_checksum (enc_ip ?h0 @ pl) (int (4 * unat (ip_hl h))) = Inr c"
    "htons c = csum (take (4 * unat (ip_hl h)) (enc_ip ?h0 @ pl))"
    using ip_checksum_csum [of "4 * unat (ip_hl h)" "enc_ip ?h0 @ pl"] assms(1) by (auto simp: good_ip_def)
  have f: "forwarded h pl = ?h0\<lparr>ip_sum := htons c\<rparr>"
    unfolding forwarded_def Let_def by (simp only: c(2))
  have "forward_ip_packet_at \<kappa> sr (enc_eth e @ enc_ip h @ pl) (34 + length pl) = park_at \<kappa> sr nh
      (enc_eth (ip_eth (ether_dhost e) out) @ enc_ip (forwarded h pl) @ pl) (34 + length pl) (if_name out)"
    using d assms(3) c(1)
    by (simp add: forward_ip_packet_at_def Let_def hl_int f next_hop_def ip_eth_upd mslice_def
        cong: option.case_cong if_cong)
  with assms(1) d(1) show ?thesis
    by (simp add: sr_handlepacket_at_def handle_ip_packet_at_def good_ip_def ip_frame_def protocol_consts)
qed

text \<open>
  Claim C12: the bound of the previous property is needed. When a packet has to wait for a next hop
  whose request has been sent five times and is due, and one timer round happens between
  \<^verbatim>\<open>sr_arpcache_queuereq\<close> and the test of \<^verbatim>\<open>req->times_sent\<close>, the round gives the request up and
  frees it, and \<^verbatim>\<open>sr_handlepacket\<close> uses the freed memory.
\<close>

theorem interrupted_handler_race:
  assumes "sr_wf sr" and "good_ip e h pl" and "ip_decision sr h pl = Forward out nh"
    and "sr_arpcache_lookup (cache sr) nh = None" and "find_req nh (requests (cache sr)) = Some r"
    and "5 \<le> rq_times_sent r" and "\<forall>k \<ge> env_ticks sr. fst (env_clock sr k) - rq_sent r \<ge> 1"
    and "\<kappa> 0 = 0" and "\<kappa> 1 = 1"
  shows "sr_handlepacket_at \<kappa> sr (ip_frame e h pl) (length (ip_frame e h pl)) interface = Inl UseAfterFree"
proof -
  define frame where "frame = enc_eth (ip_eth (ether_dhost e) out) @ enc_ip (forwarded h pl) @ pl"
  have len: "34 + length pl = length frame" "42 \<le> length frame" "length frame \<le> max_frame"
    using assms(2) by (simp_all add: frame_def good_ip_def)
  have out: "sr_get_interface (if_list sr) (if_name out) = Some out"
    using assms(3) get_interface_name by (auto simp: ip_decision_def split: if_splits option.splits)
  let ?f = "\<lambda>r. r\<lparr>rq_packets := \<lparr>pk_buf = frame, pk_len = length frame, pk_iface = strncpy (if_name out) 32\<rparr> #
    rq_packets r\<rparr>"
  let ?sr = "sr\<lparr>cache := upd_req (rq_addr r) ?f (cache sr)\<rparr>"
  have q: "sr_arpcache_queuereq (cache sr) nh frame (length frame) (if_name out) = Inr (rq_addr r, cache ?sr)"
    using assms(5) len(2) by (subst queuereq_eq) (auto simp: get_or_alloc_req_def)
  have wf: "sr_wf ?sr"
    using cache_ok_queue [of "if_list sr" "cache sr" "length frame" frame "if_name out" nh] assms(1) q len out
    by (auto simp: sr_wf_def)
  have "r \<in> set (requests (cache sr))" using assms(5) req_by_ip.search_hit by blast
  then have "deref_req (rq_addr r) (requests (cache sr)) = Some r"
    using assms(1) by (intro deref_unique) (simp_all add: sr_wf_def cache_ok_def arpcache_wf_def)
  then have d: "deref_req (rq_addr r) (requests (cache ?sr)) = Some (?f r)" by (simp add: deref_upd_req)
  from round_gives_up [OF wf d] assms(6,7) obtain sr1
    where "arpcache_timeout_round ?sr = Inr sr1" "deref_req (rq_addr r) (requests (cache sr1)) = None" by auto
  then have "park_at \<kappa> sr nh frame (length frame) (if_name out) = Inl UseAfterFree"
    using assms(8,9) q by (simp add: park_at_def request_if_new_at_def)
  then show ?thesis
    unfolding handlepacket_at_miss [OF assms(2-4)] frame_def [symmetric] len(1) .
qed

section \<open>Examples\<close>

abbreviation (input) ex_schedule :: schedule where
  "ex_schedule \<equiv> (\<lambda>i. if i = 1 then 2 else 1)"

theorem interrupted_handler_safe_witness:
  "\<exists>sr' ms. sr_handlepacket_at ex_schedule ex_sr (ip_frame ex_eth_hdr (ex_ip_hdr ex_host ex_unknown) ex_pl) 42
      ''eth1'' = Inr sr' \<and> sr_wf sr' \<and> same_config ex_sr sr' \<and> wire sr' = ms \<and>
    list_all (sent_ok [ex_if1, ex_if2]) ms"
proof -
  let ?f = "ip_frame ex_eth_hdr (ex_ip_hdr ex_host ex_unknown) ex_pl"
  have "mslice ?f 14 20 = enc_ip (ex_ip_hdr ex_host ex_unknown)"
    unfolding ip_frame_def by (rule mslice_at_append) simp_all
  then have "deliverable ex_sr ?f ''eth1''"
    by (simp add: deliverable_def ip_frame_def ex_pl_def ex_ip_hdr_def)
  from interrupted_handler_safe [OF ex_sr_wf this, of ex_schedule] show ?thesis
    by (simp add: ip_frame_def ex_pl_def)
qed

theorem interrupted_handler_race_witness:
  "sr_handlepacket_at (\<lambda>i. i) ex_last_try (ip_frame ex_eth_hdr (ex_ip_hdr ex_host ex_unknown) ex_pl) 42
     ''eth1'' = Inl UseAfterFree"
proof -
  have "ip_decision ex_last_try (ex_ip_hdr ex_host ex_unknown) ex_pl = Forward ex_if2 ex_unknown"
    by (simp add: ip_decision_def ex_last_try_state ex_routes ex_hops next_hop_def)
  moreover have "sr_arpcache_lookup (cache ex_last_try) ex_unknown = None"
    using ex_lookup [of ex_unknown] by (simp add: sr_arpcache_lookup_def ex_last_try_state)
  ultimately show ?thesis
    using interrupted_handler_race [where \<kappa> = "\<lambda>i. i" and interface = "''eth1''",
        OF ex_last_try_state(1) ex_good _ _ ex_last_try_state(7)]
    by (simp add: ex_last_try_state ex_pl_def)
qed

end
