(* ===== verification/InterleavedSystem.thy ===== *)
theory InterleavedSystem
  imports Interleaving
begin

text \<open>
  The running router with both threads at the granularity of the cache lock: a state machine whose
  steps are frames, each with the timer rounds that happen inside its handler, and timer rounds between
  handlers. It extends the machine of the theory on the system, where a handler is one step.
\<close>

datatype timed_event = PacketAt schedule "byte list" string | TimerAt

fun handle_event_at :: "sr_instance \<Rightarrow> timed_event \<Rightarrow> sr_instance res" where
  "handle_event_at sr (PacketAt \<kappa> packet interface) = sr_handlepacket_at \<kappa> sr packet (length packet) interface"
| "handle_event_at sr TimerAt = arpcache_timeout_round sr"

text \<open>
  An ARP frame may be interrupted in any way, another one by rounds that do not let a request
  expire.
\<close>

fun admissible_at :: "sr_instance \<Rightarrow> timed_event \<Rightarrow> bool" where
  "admissible_at sr (PacketAt \<kappa> packet interface) = (deliverable sr packet interface \<and>
     (ether_type (dec_eth (mslice packet 0 14)) = htons ethertype_arp \<or> unhurried \<kappa> sr))"
| "admissible_at sr TimerAt = True"

inductive timed_reach :: "sr_instance \<Rightarrow> sr_instance \<Rightarrow> bool" for sr0 where
  timed_init: "timed_reach sr0 (sr_init sr0)"
| timed_step: "timed_reach sr0 sr \<Longrightarrow> admissible_at sr ev \<Longrightarrow> handle_event_at sr ev = Inr sr' \<Longrightarrow> timed_reach sr0 sr'"

inductive_cases timed_reachE: "timed_reach sr0 sr"

lemma event_at_safe:
  assumes "sr_wf sr" "admissible_at sr ev"
  shows "safe_step sr (handle_event_at sr ev)"
proof (cases ev)
  case (PacketAt \<kappa> packet interface)
  with assms show ?thesis by (auto intro: arp_at_safe handlepacket_at_safe)
next
  case TimerAt
  with assms(1) show ?thesis by (simp add: safe_stepI timeout_round_safe emitting_round)
qed

lemma timed_inv:
  assumes "timed_reach sr0 sr" "wire sr0 = []"
  shows "sr_wf sr \<and> same_config sr0 sr \<and> wire_ok sr"
  using assms
proof (induction rule: timed_reach.induct)
  case timed_init
  then show ?case by (simp add: sr_init_def sr_wf_def cache_ok_init wire_ok_def)
next
  case (timed_step sr ev sr')
  then have wf: "sr_wf sr" "same_config sr0 sr" "wire_ok sr" by auto
  from event_at_safe [OF wf(1) timed_step.hyps(2)] timed_step.hyps(3)
  have s: "sr_wf sr'" "same_config sr sr'" "emits sr sr'" by simp_all
  then have "wire_ok sr'" using wf(3) by (auto simp: emits_def wire_ok_def)
  with s wf(2) show ?case using same_config_trans by blast
qed


text \<open>The states that the machine with whole handlers reaches are among them.\<close>

lemma uninterrupted:
  assumes "sr_wf sr"
  shows "unhurried (\<lambda>_. 0) sr"
  using assms by (auto simp: unhurried_def spared_def sr_wf_def cache_ok_def req_ok_def list_all_iff word_le_nat_alt)

lemma reachable_timed:
  assumes "reachable sr0 sr" "wire sr0 = []"
  shows "timed_reach sr0 sr"
  using assms
proof (induction rule: reachable.induct)
  case (reach_step sr ev sr')
  then have wf: "sr_wf sr" using reachable_inv by blast
  from reach_step.hyps(2) have ev: "admissible sr ev" "handle_event sr ev = Inr sr'" by (auto elim: router_stepE)
  let ?ev = "case ev of Packet f n \<Rightarrow> PacketAt (\<lambda>_. 0) f n | Timer \<Rightarrow> TimerAt"
  have "admissible_at sr ?ev" "handle_event_at sr ?ev = Inr sr'"
    using ev uninterrupted [OF wf] by (cases ev; simp add: handlepacket_quiet)+
  with reach_step show ?case by (blast intro: timed_step)
qed (rule timed_init)

section \<open>Properties\<close>

text \<open>
  Claim C4: the router with its two threads never fails and keeps its invariant. In every state that
  it reaches from its initialisation through any sequence of frames, each handled with timer rounds
  between the uses of the cache lock, and further timer rounds, every such event, as long as it lets
  no request expire under a handler, is handled without a fault and leads to such a state, in which the queue invariant
  holds, interfaces and routes are the configured ones, and every message ever written is a VNS packet
  message for an existing interface whose Ethernet source is that interface.
\<close>

theorem interleaved_router_runs:
  assumes "timed_reach sr0 sr" and "wire sr0 = []" and "admissible_at sr ev"
  shows "\<exists>sr'. handle_event_at sr ev = Inr sr' \<and> timed_reach sr0 sr' \<and> sr_wf sr' \<and>
    if_list sr' = if_list sr0 \<and> routing_table sr' = routing_table sr0 \<and>
    list_all (\<lambda>msg. \<exists>n i e body. sr_get_interface (if_list sr0) n = Some i \<and>
       ether_shost e = if_addr i \<and> msg = vns_frame n (enc_eth e @ body)) (wire sr')"
proof -
  have "sr_wf sr" using timed_inv [OF assms(1,2)] by simp
  then obtain sr' where h: "handle_event_at sr ev = Inr sr'"
    using event_at_safe [OF _ assms(3)] by (auto simp: safe_step_def)
  with timed_step [OF assms(1,3)] have r: "timed_reach sr0 sr'" by blast
  from timed_inv [OF this assms(2)] have inv: "sr_wf sr'" "same_config sr0 sr'" "wire_ok sr'" by simp_all
  have "list_all (\<lambda>msg. \<exists>n i e body. sr_get_interface (if_list sr0) n = Some i \<and>
       ether_shost e = if_addr i \<and> msg = vns_frame n (enc_eth e @ body)) (wire sr')"
  proof (rule list.pred_mono_strong)
    show "list_all (sent_ok (if_list sr0)) (wire sr')" using inv by (simp add: wire_ok_def same_config_def)
  next
    fix msg assume "sent_ok (if_list sr0) msg"
    then show "\<exists>n i e body. sr_get_interface (if_list sr0) n = Some i \<and> ether_shost e = if_addr i \<and>
      msg = vns_frame n (enc_eth e @ body)" unfolding sent_ok_def by blast
  qed
  with h r inv show ?thesis by (simp add: same_config_def)
qed

theorem interleaved_router_runs_witness:
  "\<exists>sr'. handle_event_at (sr_init ex_sr) (PacketAt (\<lambda>i. 1) (ip_frame ex_eth_hdr (ex_ip_hdr ex_host ex_unknown) ex_pl)
     ''eth1'') = Inr sr' \<and> sr_wf sr'"
proof -
  let ?f = "ip_frame ex_eth_hdr (ex_ip_hdr ex_host ex_unknown) ex_pl"
  have "mslice ?f 14 20 = enc_ip (ex_ip_hdr ex_host ex_unknown)"
    unfolding ip_frame_def by (rule mslice_at_append) simp_all
  then have "deliverable (sr_init ex_sr) ?f ''eth1''"
    by (simp add: deliverable_def ip_frame_def ex_pl_def ex_ip_hdr_def sr_init_def)
  moreover have "unhurried (\<lambda>i. 1) (sr_init ex_sr)"
    by (simp add: unhurried_def spared_def sr_init_def sr_arpcache_init_def)
  ultimately have "admissible_at (sr_init ex_sr) (PacketAt (\<lambda>i. 1) ?f ''eth1'')" by simp
  from interleaved_router_runs [OF timed_init _ this] show ?thesis by auto
qed

end
