(* ===== verification/CacheSpec.thy ===== *)
theory CacheSpec
  imports ArpCache
begin

text \<open>
  What the ARP cache promises, without its table, its list of requests and their addresses: a partial
  map from IP addresses to MACs with the time they were learned, and for every IP address the packets that
  wait for it. The abstraction of a cache is what its users can observe, and every operation commutes
  with it as long as an address is learned only while it is unknown and the table has room, which is when the
  router asks for it. Outside of that the code deviates: \<open>lookup_insert\<close> gives its
  behaviour then.
\<close>

section \<open>Specification\<close>

record cache_spec =
  known :: "u32 \<Rightarrow> (mac \<times> int) option"
  waiting :: "u32 \<Rightarrow> sr_packet list"

definition spec_empty :: cache_spec where
  "spec_empty = \<lparr>known = (\<lambda>_. None), waiting = (\<lambda>_. [])\<rparr>"

definition spec_learn :: "mac \<Rightarrow> u32 \<Rightarrow> int \<Rightarrow> cache_spec \<Rightarrow> cache_spec" where
  "spec_learn m ip now s = s\<lparr>known := (known s)(ip \<mapsto> (m, now)), waiting := (waiting s)(ip := [])\<rparr>"

definition spec_queue :: "u32 \<Rightarrow> sr_packet \<Rightarrow> cache_spec \<Rightarrow> cache_spec" where
  "spec_queue ip p s = s\<lparr>waiting := (waiting s)(ip := p # waiting s ip)\<rparr>"

definition spec_drop :: "u32 \<Rightarrow> cache_spec \<Rightarrow> cache_spec" where
  "spec_drop ip s = s\<lparr>waiting := (waiting s)(ip := [])\<rparr>"

definition spec_age :: "int \<Rightarrow> cache_spec \<Rightarrow> cache_spec" where
  "spec_age now s = s\<lparr>known := (\<lambda>ip. case known s ip of None \<Rightarrow> None
     | Some (m, t) \<Rightarrow> if now - t > SR_ARPCACHE_TO then None else Some (m, t))\<rparr>"

section \<open>Abstraction\<close>

definition cache_abs :: "sr_arpcache \<Rightarrow> cache_spec" where
  "cache_abs c = \<lparr>known = (\<lambda>ip. map_option (\<lambda>e. (ae_mac e, ae_added e)) (sr_arpcache_lookup c ip)),
     waiting = pending_pkts c\<rparr>"

text \<open>No address has two valid entries.\<close>

definition unique_entries :: "sr_arpcache \<Rightarrow> bool" where
  "unique_entries c \<longleftrightarrow> distinct (map ae_ip (filter ae_valid (entries c)))"

lemma lookup_unique:
  assumes "unique_entries c"
  shows "sr_arpcache_lookup c ip = Some e \<longleftrightarrow> e \<in> set (entries c) \<and> ae_valid e \<and> ae_ip e = ip"
proof
  assume e: "e \<in> set (entries c) \<and> ae_valid e \<and> ae_ip e = ip"
  then obtain e' where l: "sr_arpcache_lookup c ip = Some e'"
    using lookup_None_iff [of c ip] by (cases "sr_arpcache_lookup c ip") auto
  with e assms show "sr_arpcache_lookup c ip = Some e"
    using lookup_SomeD [OF l] by (auto simp: unique_entries_def distinct_map dest: inj_onD)
qed (rule lookup_SomeD)

lemma unique_lookup_cong:
  assumes "entries c' = entries c"
  shows "unique_entries c' = unique_entries c" "known (cache_abs c') = known (cache_abs c)"
  using assms by (simp_all add: unique_entries_def cache_abs_def sr_arpcache_lookup_def)

section \<open>The operations\<close>

lemma abs_init: "cache_abs (sr_arpcache_init c) = spec_empty" "unique_entries (sr_arpcache_init c)"
  by (simp_all add: cache_abs_def spec_empty_def sr_arpcache_init_def lookup_None_iff pending_pkts_def fun_eq_iff
      unique_entries_def)

lemma abs_learn:
  assumes "arpcache_wf c" "unique_entries c" "has_room c" "sr_arpcache_lookup c ip = None"
  shows "cache_abs (snd (sr_arpcache_insert c m ip now)) = spec_learn m ip now (cache_abs c)"
    "unique_entries (snd (sr_arpcache_insert c m ip now))"
proof -
  show "cache_abs (snd (sr_arpcache_insert c m ip now)) = spec_learn m ip now (cache_abs c)"
    using insert_lookup_fresh [OF assms(3,4)] pending_insert [OF assms(1)]
    by (simp add: cache_abs_def spec_learn_def fun_eq_iff)
  obtain pre x post where es: "entries c = pre @ x # post" "\<not> ae_valid x" "length pre = first_free (entries c)"
    using first_free_split assms(3) unfolding has_room_def by blast
  then have "entries (snd (sr_arpcache_insert c m ip now)) =
      pre @ \<lparr>ae_mac = m, ae_ip = ip, ae_added = now, ae_valid = True\<rparr> # post"
    using assms(3) es(3) by (simp add: sr_arpcache_insert_def has_room_def Let_def es(1) list_update_append split: prod.splits)
  with assms(2,4) es(1,2) show "unique_entries (snd (sr_arpcache_insert c m ip now))"
    by (auto simp: unique_entries_def lookup_None_iff)
qed

lemma abs_queue:
  assumes "arpcache_wf c" "0 < len" "len \<le> length packet"
  shows "\<exists>a c'. sr_arpcache_queuereq c ip packet len iface = Inr (a, c') \<and> arpcache_wf c' \<and> entries c' = entries c \<and>
    cache_abs c' = spec_queue ip \<lparr>pk_buf = take len packet, pk_len = len, pk_iface = strncpy iface 32\<rparr> (cache_abs c)"
proof -
  from queuereq_spec [OF assms refl] obtain a c' where q: "sr_arpcache_queuereq c ip packet len iface = Inr (a, c')"
    "arpcache_wf c'" "pending_pkts c' ip = \<lparr>pk_buf = take len packet, pk_len = len, pk_iface = strncpy iface 32\<rparr> # pending_pkts c ip"
    "\<And>ip'. ip' \<noteq> ip \<Longrightarrow> find_req ip' (requests c') = find_req ip' (requests c)" "entries c' = entries c" by metis
  moreover have "pending_pkts c' = (pending_pkts c)(ip := pending_pkts c' ip)"
    using q(4) by (auto simp: fun_eq_iff pending_pkts_def)
  ultimately show ?thesis
    by (intro exI [of _ a] exI [of _ c']) (simp add: cache_abs_def spec_queue_def sr_arpcache_lookup_def)
qed

lemma pending_destroy:
  assumes "arpcache_wf c" "deref_req a (requests c) = Some r"
  shows "pending_pkts (sr_arpreq_destroy c a) = (pending_pkts c)(rq_ip r := [])"
proof
  fix ip
  have d: "distinct (map rq_ip (requests c))" "distinct (map rq_addr (requests c))"
    using assms(1) by (simp_all add: arpcache_wf_def)
  have r: "r \<in> set (requests c)" "rq_addr r = a" using assms(2) req_by_addr.search_hit by metis+
  have "find_req ip (filter (\<lambda>q. rq_addr q \<noteq> a) (requests c)) =
      (if ip = rq_ip r then None else find_req ip (requests c))"
  proof (cases "find_req ip (requests c)")
    case None
    then have "ip \<notin> rq_ip ` set (requests c)" by (simp add: find_req_None_iff)
    then have "find_req ip (filter (\<lambda>q. rq_addr q \<noteq> a) (requests c)) = None" by (auto simp: find_req_None_iff)
    with None show ?thesis by simp
  next
    case (Some q)
    then have q: "q \<in> set (requests c)" "rq_ip q = ip" using req_by_ip.search_hit by metis+
    show ?thesis
    proof (cases "ip = rq_ip r")
      case True
      have "rq_ip p \<noteq> ip" if "p \<in> set (requests c)" "rq_addr p \<noteq> a" for p
        using that d(1) r True by (auto simp: distinct_map dest: inj_onD)
      then have "ip \<notin> rq_ip ` set (filter (\<lambda>q. rq_addr q \<noteq> a) (requests c))" by fastforce
      then have "find_req ip (filter (\<lambda>q. rq_addr q \<noteq> a) (requests c)) = None" by (simp only: find_req_None_iff not_False_eq_True)
      with True show ?thesis by simp
    next
      case False
      then have "rq_addr q \<noteq> a" using q r d(2) by (auto simp: distinct_map dest: inj_onD)
      moreover have "distinct (map rq_ip (filter (\<lambda>q. rq_addr q \<noteq> a) (requests c)))"
        using d(1) by (rule distinct_map_filter_req)
      ultimately show ?thesis using find_unique [of _ q] q Some False by simp
    qed
  qed
  then show "pending_pkts (sr_arpreq_destroy c a) ip = ((pending_pkts c)(rq_ip r := [])) ip"
    using assms(1) by (simp add: pending_pkts_def sr_arpreq_destroy_def unlink_addr_eq d(2))
qed

lemma abs_drop:
  assumes "arpcache_wf c" "deref_req a (requests c) = Some r"
  shows "cache_abs (sr_arpreq_destroy c a) = spec_drop (rq_ip r) (cache_abs c)"
  using pending_destroy [OF assms]
  by (simp add: cache_abs_def spec_drop_def sr_arpcache_lookup_def sr_arpreq_destroy_def)

lemma abs_age:
  assumes "unique_entries c"
  shows "cache_abs (arpcache_expire now c) = spec_age now (cache_abs c)" "unique_entries (arpcache_expire now c)"
proof -
  have v: "filter ae_valid (map (expire_entry now) es) =
      filter (\<lambda>e. now - ae_added e \<le> SR_ARPCACHE_TO) (filter ae_valid es)" for es
    by (induction es) (auto simp: expire_entry_def)
  show u: "unique_entries (arpcache_expire now c)"
    using assms unfolding unique_entries_def arpcache_expire_def
    by (simp add: v distinct_map_filter_req del: filter_filter)
  have "set (filter ae_valid (entries (arpcache_expire now c))) =
      {e \<in> set (entries c). ae_valid e \<and> now - ae_added e \<le> SR_ARPCACHE_TO}"
    by (auto simp: arpcache_expire_def v)
  then have "sr_arpcache_lookup (arpcache_expire now c) ip = Some e \<longleftrightarrow>
      sr_arpcache_lookup c ip = Some e \<and> now - ae_added e \<le> SR_ARPCACHE_TO" for ip e
    using lookup_unique [OF u] lookup_unique [OF assms] by (auto simp: set_eq_iff)
  then have "sr_arpcache_lookup (arpcache_expire now c) ip = (case sr_arpcache_lookup c ip of None \<Rightarrow> None
      | Some e \<Rightarrow> if now - ae_added e > SR_ARPCACHE_TO then None else Some e)" for ip
    by (cases "sr_arpcache_lookup c ip") (auto simp: not_less intro: option.exhaust [of "sr_arpcache_lookup (arpcache_expire now c) ip"])
  moreover have "pending_pkts (arpcache_expire now c) = pending_pkts c"
    by (simp add: fun_eq_iff pending_pkts_def arpcache_expire_def)
  ultimately show "cache_abs (arpcache_expire now c) = spec_age now (cache_abs c)"
    by (auto simp: cache_abs_def spec_age_def fun_eq_iff split: option.split)
qed

lemma abs_update:
  assumes "\<And>r. rq_ip (f r) = rq_ip r" "\<And>r. rq_packets (f r) = rq_packets r"
  shows "cache_abs (upd_req a f c) = cache_abs c"
proof -
  have "pending_pkts (upd_req a f c) ip = pending_pkts c ip" for ip
    using assms by (simp add: pending_pkts_def find_upd_req split: option.split)
  then show ?thesis by (simp add: cache_abs_def fun_eq_iff sr_arpcache_lookup_def upd_req_def)
qed

section \<open>Refinement\<close>

text \<open>The uses that the specification covers, and what it says about them.\<close>

fun covered :: "sr_arpcache \<Rightarrow> cache_op \<Rightarrow> bool" where
  "covered c (Learn m ip now) = (has_room c \<and> sr_arpcache_lookup c ip = None)"
| "covered c (Queue ip packet len iface) = (0 < len \<and> len \<le> length packet)"
| "covered c (Drop a) = (deref_req a (requests c) \<noteq> None)"
| "covered c (Age now) = True"
| "covered c (Sent a now k) = True"

fun spec_op :: "sr_arpcache \<Rightarrow> cache_op \<Rightarrow> cache_spec \<Rightarrow> cache_spec" where
  "spec_op c (Learn m ip now) s = spec_learn m ip now s"
| "spec_op c (Queue ip packet len iface) s =
     spec_queue ip \<lparr>pk_buf = take len packet, pk_len = len, pk_iface = strncpy iface 32\<rparr> s"
| "spec_op c (Drop a) s = (case deref_req a (requests c) of None \<Rightarrow> s | Some r \<Rightarrow> spec_drop (rq_ip r) s)"
| "spec_op c (Age now) s = spec_age now s"
| "spec_op c (Sent a now k) s = s"

text \<open>A cache that implements a state of the specification.\<close>

definition implements :: "sr_arpcache \<Rightarrow> cache_spec \<Rightarrow> bool" where
  "implements c s \<longleftrightarrow> arpcache_wf c \<and> unique_entries c \<and> cache_abs c = s"

text \<open>
  Claim C29: the ARP cache refines its specification. An initialised cache implements the empty one, and
  each operation, used as the specification allows, leads from a cache that implements a state to a
  cache that implements the state that the specification gives: learning maps the address and releases
  its packets, queueing puts a packet in front of those that wait for the same address (the specification follows the
  code here; the documentation describes a first in, first out queue), destroying a request
  drops the packets of its address, and the timer forgets exactly the addresses learned more than
  15 seconds ago. A lookup in a cache that implements a state is a lookup in its map.
\<close>

theorem cache_refines_spec:
  assumes "implements c s" and "covered c op"
  shows "implements (apply_op op c) (spec_op c op s) \<and> implements (sr_arpcache_init c) spec_empty \<and>
    map_option (\<lambda>e. (ae_mac e, ae_added e)) (sr_arpcache_lookup c ip) = known s ip"
proof -
  have c: "arpcache_wf c" "unique_entries c" "cache_abs c = s" using assms(1) by (simp_all add: implements_def)
  have "implements (apply_op op c) (spec_op c op s)"
  proof (cases op)
    case (Learn m ip now)
    with assms(2) c abs_learn [OF c(1,2), of ip m now] show ?thesis by (simp add: implements_def wf_insert)
  next
    case (Queue ip packet len iface)
    with assms(2) abs_queue [OF c(1), of len packet ip iface] obtain a c' where
      "sr_arpcache_queuereq c ip packet len iface = Inr (a, c')" "arpcache_wf c'" "entries c' = entries c"
      "cache_abs c' = spec_op c op (cache_abs c)" by auto
    with Queue c unique_lookup_cong(1) [of c' c] show ?thesis by (simp add: implements_def)
  next
    case (Drop a)
    with assms(2) obtain r where "deref_req a (requests c) = Some r" by auto
    moreover have "unique_entries (sr_arpreq_destroy c a) = unique_entries c"
      by (rule unique_lookup_cong) (simp add: sr_arpreq_destroy_def)
    ultimately show ?thesis using Drop abs_drop [OF c(1)] c by (simp add: implements_def wf_destroy)
  next
    case (Age now)
    with abs_age [OF c(2)] c show ?thesis by (simp add: implements_def wf_expire)
  next
    case (Sent a now k)
    let ?c' = "upd_req a (\<lambda>r. r\<lparr>rq_sent := now, rq_times_sent := k\<rparr>) c"
    have "unique_entries ?c' = unique_entries c" by (rule unique_lookup_cong) (simp add: upd_req_def)
    with Sent abs_update [of _ a c] c show ?thesis by (simp add: implements_def wf_upd_req)
  qed
  moreover have "known s ip = map_option (\<lambda>e. (ae_mac e, ae_added e)) (sr_arpcache_lookup c ip)"
    using c(3) by (auto simp: cache_abs_def)
  ultimately show ?thesis using abs_init wf_init by (simp add: implements_def)
qed

lemma first_free_replicate: "\<not> ae_valid e \<Longrightarrow> first_free (replicate n e) = 0"
  by (cases n) simp_all

theorem cache_refines_spec_witness:
  "implements (snd (sr_arpcache_insert (sr_arpcache_init ex_cache) (MAC 2 0 0 0 0 1) 7 90))
     (spec_learn (MAC 2 0 0 0 0 1) 7 90 spec_empty)"
proof -
  have "implements (sr_arpcache_init ex_cache) spec_empty" using abs_init wf_init by (simp add: implements_def)
  moreover have "covered (sr_arpcache_init ex_cache) (Learn (MAC 2 0 0 0 0 1) 7 90)"
    by (simp add: has_room_def lookup_None_iff sr_arpcache_init_def first_free_replicate)
  ultimately show ?thesis using cache_refines_spec [of "sr_arpcache_init ex_cache" spec_empty "Learn (MAC 2 0 0 0 0 1) 7 90"] by simp
qed

end
