(* ===== verification/Network.thy ===== *)
theory Network
  imports VnsSession
begin

text \<open>
  A network of routers. Every node runs the router; the network carries the packet messages that a
  node has written to the client at the other end of the link, at any later time, in any order,
  any number of times or never. Hosts inject frames, and the timers of the nodes run at any time.
  A node handles a frame as the client does: \<open>frame_result\<close>, which the theory on sessions shows to be
  the effect of a packet command.
\<close>

section \<open>Frames that can be relayed\<close>

definition relay_ok :: "byte list \<Rightarrow> bool" where
  "relay_ok f \<longleftrightarrow> 42 \<le> length f \<and> length f \<le> 9976 \<and>
     14 + 4 * unat (ip_hl (dec_ip (mslice f 14 20))) \<le> length f"

definition relay_msg :: "sr_if list \<Rightarrow> byte list \<Rightarrow> bool" where
  "relay_msg ifs m \<longleftrightarrow> (\<exists>n i e body. sr_get_interface ifs n = Some i \<and> ether_shost e = if_addr i \<and>
     relay_ok (enc_eth e @ body) \<and> m = vns_frame n (enc_eth e @ body))"

definition queue_relay :: "sr_arpcache \<Rightarrow> bool" where
  "queue_relay c \<longleftrightarrow> (\<forall>ip. \<forall>p \<in> set (pending_pkts c ip). relay_ok (pk_buf p))"

definition node_ok :: "sr_instance \<Rightarrow> bool" where
  "node_ok sr \<longleftrightarrow> sr_wf sr \<and> queue_relay (cache sr)"

definition node_step :: "sr_instance \<Rightarrow> sr_instance \<Rightarrow> bool" where
  "node_step sr sr' \<longleftrightarrow> node_ok sr' \<and> same_config sr sr' \<and>
     (\<exists>ms. wire sr' = wire sr @ ms \<and> list_all (relay_msg (if_list sr)) ms)"

lemma queue_relay_init [simp]: "queue_relay (sr_arpcache_init c)"
  by (simp add: queue_relay_def pending_pkts_def sr_arpcache_init_def)

lemma relay_ok_ip:
  "relay_ok (enc_eth e @ enc_ip h @ pl) \<longleftrightarrow> 8 \<le> length pl \<and> length pl \<le> 9942 \<and>
     4 * unat (ip_hl h) \<le> 20 + length pl"
  by (auto simp: relay_ok_def mslice_def)

lemma relay_ok_arp:
  assumes "ar_hrd a = htons arp_hrd_ethernet"
  shows "relay_ok (enc_eth e @ enc_arp a)"
proof -
  have "ip_hl (dec_ip (mslice (enc_eth e @ enc_arp a) 14 20)) = 0"
    using assms by (simp add: mslice_def enc_arp_def dec_ip_def protocol_consts byte_simps enc16_def)
  then show ?thesis by (simp add: relay_ok_def)
qed

lemma relay_msgI:
  "sr_get_interface ifs n = Some i \<Longrightarrow> ether_shost e = if_addr i \<Longrightarrow> relay_ok (enc_eth e @ body) \<Longrightarrow>
     relay_msg ifs (vns_frame n (enc_eth e @ body))"
  unfolding relay_msg_def by blast

lemma arp_request_relay:
  "sr_get_interface ifs n = Some i \<Longrightarrow> relay_msg ifs (vns_frame n (arp_request_frame i nh))"
  unfolding arp_request_frame_def by (rule relay_msgI) (simp_all add: relay_ok_arp)

lemma node_step_refl [simp]: "node_step sr sr = node_ok sr"
  by (simp add: node_step_def)

lemma node_step_trans: "node_step a b \<Longrightarrow> node_step b c \<Longrightarrow> node_step a c"
  by (auto simp: node_step_def same_config_def)

section \<open>One node\<close>

lemma relay_ok_eth: "relay_ok (enc_eth e @ body) = relay_ok (enc_eth e' @ body)"
  by (simp add: relay_ok_def mslice_def)

lemma node_transmit:
  "node_ok sr \<Longrightarrow> relay_msg (if_list sr) (vns_frame n f) \<Longrightarrow> node_step sr (transmit sr f n)"
  by (simp add: node_step_def node_ok_def sr_wf_def same_config_def)

lemma node_await:
  assumes "node_ok sr" "sr_get_interface (if_list sr) (if_name out) = Some out" "relay_ok frame"
  shows "node_step sr (await sr out nh frame)"
proof -
  have wf: "sr_wf sr" "arpcache_wf (cache sr)" using assms(1) by (simp_all add: node_ok_def sr_wf_def cache_ok_def)
  note spec = await_spec [OF wf(2), where out = out and nh = nh and frame = frame]
  have "queue_relay (cache (await sr out nh frame))"
    unfolding queue_relay_def
  proof (intro allI ballI)
    fix ip p assume p: "p \<in> set (pending_pkts (cache (await sr out nh frame)) ip)"
    show "relay_ok (pk_buf p)"
    proof (cases "ip = nh")
      case True
      with p spec(2) assms(1,3) show ?thesis by (auto simp: parked_def node_ok_def queue_relay_def)
    next
      case False
      with p spec(3) [OF False] assms(1) show ?thesis
        by (auto simp: node_ok_def queue_relay_def pending_pkts_def)
    qed
  qed
  moreover have "sr_wf (await sr out nh frame)" "same_config sr (await sr out nh frame)"
    using await_wf [OF wf(1) _ _ assms(2), of frame nh] assms(3) by (simp_all add: relay_ok_def)
  ultimately show ?thesis
    using spec(5) arp_request_relay [OF assms(2), of nh]
    by (auto simp: node_step_def node_ok_def split: option.splits if_splits)
qed

lemma node_deliver:
  assumes "node_ok sr" "sr_get_interface (if_list sr) (if_name out) = Some out" "relay_ok (enc_eth e @ body)"
  shows "node_step sr (deliver sr out nh d body)"
proof -
  have r: "relay_ok (enc_eth (ip_eth m out) @ body)" for m using assms(3) relay_ok_eth by blast
  have "relay_msg (if_list sr) (vns_frame (if_name out) (enc_eth (ip_eth m out) @ body))" for m
    using assms(2) r by (intro relay_msgI) (simp_all add: ip_eth_def)
  with node_transmit [OF assms(1)] node_await [OF assms(1,2) r] show ?thesis
    by (simp add: deliver_def split: option.split)
qed

lemma node_icmp_error:
  assumes "node_ok sr" "length data = 28"
  shows "node_step sr (icmp_error sr dst ty co data)"
proof (cases "route_to sr dst")
  case (Some r)
  then obtain out nh where r: "r = (out, nh)" "sr_get_interface (if_list sr) (if_name out) = Some out"
    using get_interface_name by (cases r) (auto simp: route_to_def split: option.splits)
  have "relay_ok (enc_eth e @ icmp_error_body out dst ty co data)" for e
    using assms(2) by (simp add: icmp_error_body_def Let_def relay_ok_ip t3_icmp_hdr_def t3_ip_hdr_def)
  with Some r node_deliver [OF assms(1) r(2)] show ?thesis by (simp add: icmp_error_def)
qed (use assms(1) in \<open>simp add: icmp_error_def\<close>)

lemma node_perform:
  assumes ok: "node_ok sr" and good: "good_ip e h pl" "length pl \<le> 9942"
    and i: "sr_get_interface (if_list sr) interface = Some iface"
  shows "node_step sr (perform sr e h pl interface (ip_decision sr h pl))"
proof -
  have body: "relay_ok (enc_eth e' @ enc_ip h' @ pl)" if "ip_hl h' = ip_hl h" for e' h'
    using good that by (simp add: relay_ok_ip good_ip_def)
  show ?thesis
  proof (cases "ip_decision sr h pl")
    case Discard
    with ok show ?thesis by (simp add: perform_def)
  next
    case Echo_Reply
    let ?ip = "h\<lparr>ip_src := ip_dst h, ip_dst := ip_src h, ip_ttl := 64, ip_sum := 0\<rparr>"
    have "8 \<le> length pl" using good by (simp add: good_ip_def)
    then have "relay_ok (echo_reply_frame iface e h pl)"
      unfolding echo_reply_frame_def Let_def using good by (simp add: relay_ok_ip good_ip_def)
    then have "relay_msg (if_list sr) (vns_frame interface (echo_reply_frame iface e h pl))"
      unfolding echo_reply_frame_def Let_def using i by (intro relay_msgI) simp_all
    with Echo_Reply i node_transmit [OF ok] show ?thesis by (simp add: perform_def)
  next
    case (Error_Message ty co data)
    then have "length data = 28"
      using good by (auto simp: ip_decision_def good_ip_def min_def split: if_splits option.splits)
    with Error_Message node_icmp_error [OF ok] show ?thesis by (simp add: perform_def)
  next
    case (Forward out nh)
    then have "sr_get_interface (if_list sr) (if_name out) = Some out"
      using get_interface_name by (auto simp: ip_decision_def split: if_splits option.splits)
    moreover have "ip_hl (forwarded h pl) = ip_hl h" by (simp add: forwarded_def Let_def)
    ultimately show ?thesis using Forward node_deliver [OF ok _ body] by (simp add: perform_def)
  qed
qed

lemma node_log: "node_ok sr \<Longrightarrow> node_step sr (log_frame sr f)"
  by (simp add: node_step_def node_ok_def sr_wf_def same_config_def)

lemma node_arp_reply:
  assumes ok: "node_ok sr" and op: "ar_op a = htons arp_op_reply"
  shows "\<exists>sr'. handle_arp_packet sr (enc_eth e @ enc_arp a @ pad) (42 + length pad) interface = Inr sr' \<and>
    node_step sr sr'"
proof -
  have wf: "sr_wf sr" "arpcache_wf (cache sr)" using ok by (simp_all add: node_ok_def sr_wf_def cache_ok_def)
  from handle_arp_reply [OF wf(1) op, of e pad interface] obtain sr' where
    h: "handle_arp_packet sr (enc_eth e @ enc_arp a @ pad) (42 + length pad) interface = Inr sr'"
      "same_config sr sr'"
      "cache sr' = snd (sr_arpcache_insert (cache sr) (ar_sha a) (ar_sip a) (fst (env_clock sr (env_ticks sr))))"
      "wire sr' = wire sr @ map (resolved_msg (if_list sr) (ar_sha a)) (pending_pkts (cache sr) (ar_sip a))" by blast
  have "sr_wf sr'"
    using handle_arp_packet_safe [OF wf(1) refl, of "enc_eth e @ enc_arp a @ pad" interface] h(1)
    by (simp add: keeps_def)
  moreover have "queue_relay (cache sr')"
    using ok wf(2) by (simp add: h(3) queue_relay_def pending_insert node_ok_def)
  moreover have "relay_msg (if_list sr) (resolved_msg (if_list sr) m p)"
    if "p \<in> set (pending_pkts (cache sr) ip)" for p ip m
  proof -
    from that obtain r where r: "find_req ip (requests (cache sr)) = Some r" "p \<in> set (rq_packets r)"
      by (cases "find_req ip (requests (cache sr))") (auto simp: pending_pkts_def)
    then have "r \<in> set (requests (cache sr))" using req_by_ip.search_hit by blast
    with wf(1) r(2) obtain out where out: "sr_get_interface (if_list sr) (pk_iface p) = Some out"
      by (auto simp: sr_wf_def cache_ok_def req_ok_def list_all_iff queued_ok_def)
    have rel: "relay_ok (pk_buf p)" using ok that by (auto simp: node_ok_def queue_relay_def)
    then obtain e0 body where b: "pk_buf p = enc_eth e0 @ body"
      by (auto simp: relay_ok_def intro: frame_eth_cases [of "pk_buf p"])
    have "relay_ok (enc_eth (ip_eth m out) @ body)" using rel b relay_ok_eth by metis
    with out b show ?thesis by (simp add: resolved_msg_def relay_msgI ip_eth_def)
  qed
  ultimately show ?thesis
    using h(1,2,4) by (auto simp: node_step_def node_ok_def list_all_iff)
qed

lemma node_arp:
  assumes ok: "node_ok sr" and i: "sr_get_interface (if_list sr) interface = Some iface"
    and e: "ether_type e = htons ethertype_arp"
  shows "\<exists>sr'. sr_handlepacket sr (arp_frame e a pad) (length (arp_frame e a pad)) interface = Inr sr' \<and> node_step sr sr'"
proof -
  consider "ar_op a = htons arp_op_request" | "ar_op a = htons arp_op_reply"
    | "ar_op a \<noteq> htons arp_op_request" "ar_op a \<noteq> htons arp_op_reply" by blast
  then show ?thesis
  proof cases
    case 1
    have "relay_msg (if_list sr) (vns_frame interface (arp_reply_frame j e a))" if "if_addr j = if_addr iface" for j
      unfolding arp_reply_frame_def using i that by (intro relay_msgI) (simp_all add: relay_ok_arp)
    with arp_request_eq [OF e 1 i, of pad] node_transmit [OF ok] node_log [OF ok] ok show ?thesis
      by (auto split: option.split)
  next
    case 2
    with node_arp_reply [OF ok 2, of e pad interface] e show ?thesis by (simp add: dispatch_arp)
  next
    case 3
    then have "ntohs (ar_op a) \<noteq> arp_op_request" "ntohs (ar_op a) \<noteq> arp_op_reply"
      by (metis htons_htons)+
    with e ok show ?thesis by (simp add: dispatch_arp handle_arp_packet_def Let_def)
  qed
qed

lemma node_handlepacket:
  assumes ok: "node_ok sr" and f: "relay_ok f" and i: "sr_get_interface (if_list sr) interface = Some iface"
  shows "\<exists>sr'. sr_handlepacket sr f (length f) interface = Inr sr' \<and> node_step sr sr'"
proof -
  obtain e body where b: "f = enc_eth e @ body" using f by (auto simp: relay_ok_def intro: frame_eth_cases [of f])
  consider "ether_type e = htons ethertype_arp" | "ether_type e = htons ethertype_ip"
    | "ether_type e \<noteq> htons ethertype_arp" "ether_type e \<noteq> htons ethertype_ip" by blast
  then show ?thesis
  proof cases
    case 1
    obtain e' a pad where f': "f = arp_frame e' a pad"
      using f by (auto simp: relay_ok_def arp_frame_def intro: frame_arp_cases [of f])
    then have "enc_eth e' = enc_eth e" using b by (simp add: arp_frame_def append_eq_append_conv_if)
    then have "e' = e" by (metis eth.dec_enc)
    with node_arp [OF ok i 1, of a pad] f' show ?thesis by simp
  next
    case 2
    obtain e' h pl where f': "f = ip_frame e' h pl"
      using f by (auto simp: relay_ok_def ip_frame_def intro: frame_ip_cases [of f])
    then have "enc_eth e' = enc_eth e" using b by (simp add: ip_frame_def append_eq_append_conv_if)
    then have "e' = e" by (metis eth.dec_enc)
    moreover have "8 \<le> length pl" "length pl \<le> 9942" "4 * unat (ip_hl h) \<le> 20 + length pl"
      using f f' by (simp_all add: ip_frame_def relay_ok_ip)
    ultimately have "good_ip e h pl" "length pl \<le> 9942" using 2 by (simp_all add: good_ip_def)
    with handlepacket_ip [OF _ i, of e h pl] node_perform [OF ok _ _ i] ok f' \<open>e' = e\<close> show ?thesis
      by (simp add: node_ok_def sr_wf_def cache_ok_def)
  next
    case 3
    then have "ntohs (ether_type e) \<noteq> ethertype_arp" "ntohs (ether_type e) \<noteq> ethertype_ip"
      by (metis htons_htons)+
    with b ok show ?thesis by (simp add: sr_handlepacket_def Let_def)
  qed
qed

text \<open>The timer only resends requests and reports about waiting packets.\<close>

lemma queue_relay_set:
  assumes "arpcache_wf c"
  shows "queue_relay c \<longleftrightarrow> (\<forall>r \<in> set (requests c). \<forall>p \<in> set (rq_packets r). relay_ok (pk_buf p))"
proof -
  have "pending_pkts c (rq_ip r) = rq_packets r" if "r \<in> set (requests c)" for r
    using assms that find_unique [of "requests c" r] by (simp add: arpcache_wf_def pending_pkts_def)
  moreover have "pending_pkts c ip = [] \<or> (\<exists>r \<in> set (requests c). pending_pkts c ip = rq_packets r)" for ip
    using req_by_ip.search_hit by (auto simp: pending_pkts_def split: option.split)
  ultimately show ?thesis
    unfolding queue_relay_def by (metis empty_iff list.set(1))
qed

lemma node_arpreq_msgs:
  assumes "node_ok sr" "r \<in> set (requests (cache sr))"
  shows "list_all (relay_msg (if_list sr)) (arpreq_msgs sr now r)"
proof -
  have q: "req_ok (if_list sr) r" using assms by (auto simp: node_ok_def sr_wf_def cache_ok_def)
  then obtain p ps i where p: "rq_packets r = p # ps" "sr_get_interface (if_list sr) (pk_iface p) = Some i"
    by (cases "rq_packets r") (auto simp: req_ok_def queued_ok_def)
  have retry: "relay_msg (if_list sr) (retry_msg sr r)"
    using p arp_request_relay [OF get_interface_name [OF p(2)]] by (simp add: retry_msg_def)
  have "relay_msg (if_list sr) (vns_frame (if_name out) frame)"
    if "unreachable_for sr p = Some (out, frame)" "p \<in> set (rq_packets r)" for p out frame
  proof -
    let ?data = "mslice (pk_buf p) 14 28"
    have "42 \<le> length (pk_buf p)" using q that(2) by (auto simp: req_ok_def list_all_iff queued_ok_def)
    then have len: "length ?data = 28" by simp
    from that(1) obtain m i src where f: "frame = enc_eth (ip_eth m out) @ unreachable_body i src ?data"
      "sr_get_interface (if_list sr) (if_name out) = Some out"
      using get_interface_name
      by (auto simp: unreachable_for_def route_to_def Let_def split: option.splits)
    have "relay_ok (enc_eth (ip_eth m out) @ unreachable_body i src ?data)"
      using len by (simp add: unreachable_body_def Let_def relay_ok_ip t3_icmp_hdr_def t3_ip_hdr_def)
    with f show ?thesis by (auto intro!: relay_msgI simp: ip_eth_def)
  qed
  then have "list_all (relay_msg (if_list sr)) (unreachable_msgs sr (rq_packets r))"
    by (auto simp: unreachable_msgs_def list_all_iff split: option.splits)
  with retry show ?thesis by (simp add: arpreq_msgs_def)
qed

lemma node_arpreq:
  assumes ok: "node_ok sr" and r: "deref_req a (requests (cache sr)) = Some r"
  shows "\<exists>sr'. handle_arpreq sr a = Inr sr' \<and> node_step sr sr' \<and>
    (\<forall>b. b \<noteq> a \<longrightarrow> deref_req b (requests (cache sr')) = deref_req b (requests (cache sr)))"
proof -
  let ?now = "fst (env_clock sr (env_ticks sr))"
  have wf: "sr_wf sr" "arpcache_wf (cache sr)" using ok by (simp_all add: node_ok_def sr_wf_def cache_ok_def)
  from handle_arpreq_eq [OF wf(1) r] obtain sr' where h: "handle_arpreq sr a = Inr sr'" "sr_wf sr'"
      "same_config sr sr'" "wire sr' = wire sr @ arpreq_msgs sr ?now r"
    and d: "\<And>b. deref_req b (requests (cache sr')) =
      (if b = a then arpreq_step ?now r else deref_req b (requests (cache sr)))" by blast
  have mem: "q \<in> set (requests (cache sr))" if "deref_req b (requests (cache sr)) = Some q" for b q
    using that req_by_addr.search_hit by blast
  have rel: "\<forall>p \<in> set (rq_packets q). relay_ok (pk_buf p)" if "q \<in> set (requests (cache sr))" for q
    using ok that by (simp add: node_ok_def queue_relay_set [OF wf(2)])
  have "\<forall>p \<in> set (rq_packets q). relay_ok (pk_buf p)" if "q \<in> set (requests (cache sr'))" for q
  proof -
    have "deref_req (rq_addr q) (requests (cache sr')) = Some q"
      using h(2) that by (intro deref_unique) (simp_all add: sr_wf_def cache_ok_def arpcache_wf_def)
    then consider "deref_req (rq_addr q) (requests (cache sr)) = Some q" | "arpreq_step ?now r = Some q"
      by (auto simp: d split: if_splits)
    then show ?thesis
    proof cases
      case 2
      then have "rq_packets q = rq_packets r" by (auto simp: arpreq_step_def split: if_splits)
      with rel [OF mem [OF r]] show ?thesis by simp
    qed (use rel mem in blast)
  qed
  moreover have "arpcache_wf (cache sr')" using h(2) by (simp add: sr_wf_def cache_ok_def)
  ultimately have "node_ok sr'" using h(2) by (simp add: node_ok_def queue_relay_set)
  with h node_arpreq_msgs [OF ok mem [OF r]] d show ?thesis by (auto simp: node_step_def)
qed

lemma node_sweep:
  assumes "node_ok sr" "distinct as" "\<forall>a \<in> set as. deref_req a (requests (cache sr)) \<noteq> None"
  shows "\<exists>sr'. sweep_loop sr as = Inr sr' \<and> node_step sr sr'"
  using assms
proof (induction as arbitrary: sr)
  case (Cons a as)
  then obtain r where "deref_req a (requests (cache sr)) = Some r" by auto
  from node_arpreq [OF Cons.prems(1) this] obtain sr1 where h: "handle_arpreq sr a = Inr sr1" "node_step sr sr1"
    "\<And>b. b \<noteq> a \<Longrightarrow> deref_req b (requests (cache sr1)) = deref_req b (requests (cache sr))" by blast
  have "\<forall>b \<in> set as. deref_req b (requests (cache sr1)) \<noteq> None"
    using Cons.prems(2,3) h(3) by (metis distinct.simps(2) list.set_intros(2))
  then obtain sr' where "sweep_loop sr1 as = Inr sr'" "node_step sr1 sr'"
    using Cons.IH [of sr1] Cons.prems(2) h(2) by (auto simp: node_step_def)
  with h(1) node_step_trans [OF h(2)] show ?case by simp
qed simp

lemma node_timer:
  assumes "node_ok sr"
  shows "\<exists>sr'. arpcache_timeout_round sr = Inr sr' \<and> node_step sr sr'"
proof -
  let ?sr1 = "sr\<lparr>env_ticks := Suc (env_ticks sr),
    cache := arpcache_expire (fst (env_clock sr (env_ticks sr))) (cache sr)\<rparr>"
  have "node_ok ?sr1"
    using assms by (simp add: node_ok_def sr_wf_def cache_ok_expire queue_relay_def pending_pkts_def)
  moreover have "distinct (map rq_addr (requests (cache ?sr1)))"
    using assms by (simp add: node_ok_def sr_wf_def cache_ok_def arpcache_wf_def)
  moreover have "\<forall>a \<in> set (map rq_addr (requests (cache ?sr1))). deref_req a (requests (cache ?sr1)) \<noteq> None"
    by (auto simp: req_by_addr.search_None_iff)
  ultimately obtain sr' where "sweep_loop ?sr1 (map rq_addr (requests (cache ?sr1))) = Inr sr'" "node_step ?sr1 sr'"
    using node_sweep by blast
  then show ?thesis
    by (auto simp: arpcache_timeout_round_def time_now_eq sr_arpcache_sweepreqs_def node_step_def same_config_def)
qed

lemma node_frame:
  assumes ok: "node_ok sr" and f: "relay_ok f" and i: "sr_get_interface (if_list sr) n = Some iface"
  shows "\<exists>sr'. frame_result sr f n = Inr sr' \<and> node_step sr sr'"
proof -
  have l: "node_step sr (log_frame sr f)" using node_log [OF ok] .
  then obtain sr' where "sr_handlepacket (log_frame sr f) f (length f) n = Inr sr'" "node_step (log_frame sr f) sr'"
    using node_handlepacket [of "log_frame sr f" f n iface] f i by (auto simp: node_step_def)
  with l ok i show ?thesis by (auto simp: frame_result_def intro: node_step_trans)
qed

section \<open>The network\<close>

type_synonym network = "nat \<Rightarrow> sr_instance"

text \<open>A topology gives, for an interface of a node, the node and interface at the other end of its link.\<close>

type_synonym topology = "nat \<Rightarrow> string \<Rightarrow> (nat \<times> string) option"

text \<open>
  \<open>Carry i n f\<close>: the network carries a frame that node \<open>i\<close> has sent on its interface \<open>n\<close>;
  \<open>Inject j m f\<close>: a host sends a frame to interface \<open>m\<close> of node \<open>j\<close>; \<open>Expire j\<close>: a round of the
  timer of node \<open>j\<close>.
\<close>

datatype net_event = Carry nat string "byte list" | Inject nat string "byte list" | Expire nat

definition receive :: "network \<Rightarrow> nat \<Rightarrow> string \<Rightarrow> byte list \<Rightarrow> network res" where
  "receive ns j m f = rbind (frame_result (ns j) f m) (\<lambda>sr'. Inr (ns(j := sr')))"

fun net_result :: "topology \<Rightarrow> network \<Rightarrow> net_event \<Rightarrow> network res" where
  "net_result link ns (Carry i n f) = (case link i n of None \<Rightarrow> Inr ns | Some (j, m) \<Rightarrow> receive ns j m f)"
| "net_result link ns (Inject j m f) = receive ns j m f"
| "net_result link ns (Expire j) = rbind (arpcache_timeout_round (ns j)) (\<lambda>sr'. Inr (ns(j := sr')))"

fun net_enabled :: "network \<Rightarrow> net_event \<Rightarrow> bool" where
  "net_enabled ns (Carry i n f) = (vns_frame n f \<in> set (wire (ns i)))"
| "net_enabled ns (Inject j m f) = (relay_ok f \<and> sr_get_interface (if_list (ns j)) m \<noteq> None)"
| "net_enabled ns (Expire j) = True"

inductive net_reach :: "topology \<Rightarrow> network \<Rightarrow> network \<Rightarrow> bool" for link ns0 where
  net_init: "net_reach link ns0 (\<lambda>i. sr_init (ns0 i))"
| net_step: "net_reach link ns0 ns \<Longrightarrow> net_enabled ns ev \<Longrightarrow> net_result link ns ev = Inr ns' \<Longrightarrow>
    net_reach link ns0 ns'"

inductive_cases net_reachE: "net_reach link ns0 ns"

definition links_ok :: "topology \<Rightarrow> network \<Rightarrow> bool" where
  "links_ok link ns \<longleftrightarrow> (\<forall>i n j m. link i n = Some (j, m) \<longrightarrow> sr_get_interface (if_list (ns j)) m \<noteq> None)"

definition net_inv :: "network \<Rightarrow> network \<Rightarrow> bool" where
  "net_inv ns0 ns \<longleftrightarrow> (\<forall>i. node_ok (ns i) \<and> same_config (ns0 i) (ns i) \<and>
     list_all (relay_msg (if_list (ns0 i))) (wire (ns i)))"

lemma vns_frame_inject: "vns_frame n f = vns_frame n' f' \<Longrightarrow> f = f'"
proof -
  assume "vns_frame n f = vns_frame n' f'"
  then have "drop 24 (vns_frame n f) = drop 24 (vns_frame n' f')" by simp
  then show "f = f'" by (simp add: vns_frame_def)
qed

lemma carried_relay:
  assumes "list_all (relay_msg ifs) w" "vns_frame n f \<in> set w"
  shows "relay_ok f"
  using assms by (auto simp: list_all_iff relay_msg_def dest!: vns_frame_inject)

lemma net_inv_upd:
  assumes "net_inv ns0 ns" "node_step (ns j) sr'"
  shows "net_inv ns0 (ns(j := sr'))"
proof -
  have "if_list (ns j) = if_list (ns0 j)" using assms(1) by (simp add: net_inv_def same_config_def)
  with assms show ?thesis
    by (auto simp: net_inv_def node_step_def same_config_def)
qed

lemma receive_ok:
  assumes "net_inv ns0 ns" "relay_ok f" "sr_get_interface (if_list (ns j)) m \<noteq> None"
  shows "\<exists>ns'. receive ns j m f = Inr ns' \<and> net_inv ns0 ns'"
proof -
  from assms(1) have "node_ok (ns j)" by (simp add: net_inv_def)
  with assms(2,3) obtain sr' where "frame_result (ns j) f m = Inr sr'" "node_step (ns j) sr'"
    using node_frame by blast
  with net_inv_upd [OF assms(1)] show ?thesis by (simp add: receive_def)
qed

lemma net_event_ok:
  assumes inv: "net_inv ns0 ns" and "links_ok link ns0" "net_enabled ns ev"
  shows "\<exists>ns'. net_result link ns ev = Inr ns' \<and> net_inv ns0 ns'"
proof (cases ev)
  case (Carry i n f)
  have r: "relay_ok f"
    using inv assms(3) Carry carried_relay [of "if_list (ns0 i)" "wire (ns i)"] by (simp add: net_inv_def)
  show ?thesis
  proof (cases "link i n")
    case None
    with Carry inv show ?thesis by simp
  next
    case (Some jm)
    then obtain j m where jm: "link i n = Some (j, m)" by (cases jm) simp
    then have "sr_get_interface (if_list (ns j)) m \<noteq> None"
      using assms(2) inv by (auto simp: links_ok_def net_inv_def same_config_def)
    with Carry jm receive_ok [OF inv r] show ?thesis by simp
  qed
next
  case (Inject j m f)
  with assms(3) receive_ok [OF inv] show ?thesis by simp
next
  case (Expire j)
  have "node_ok (ns j)" using inv by (simp add: net_inv_def)
  with node_timer [of "ns j"] net_inv_upd [OF inv] Expire show ?thesis by auto
qed

lemma net_reach_inv:
  assumes "net_reach link ns0 ns" "links_ok link ns0" "\<forall>i. wire (ns0 i) = []"
  shows "net_inv ns0 ns"
  using assms
proof (induction rule: net_reach.induct)
  case net_init
  then show ?case
    by (simp add: net_inv_def node_ok_def sr_wf_def sr_init_def cache_ok_init)
next
  case (net_step ns ev ns')
  with net_event_ok [of ns0 ns link ev] show ?case by auto
qed

text \<open>
  Claim C5: no router of a network fails on what another one sends. In any network of routers, linked in any way, in every
  state that it reaches from initialised routers through any sequence of frames carried over links
  (again, late, out of order or not at all), frames that hosts inject and timer rounds, every further
  such event is handled by its node without a fault. The frames that hosts inject are limited to
  those of 42 to 9976 bytes in which an IP header does not extend beyond the frame; the routers do
  fail on others. What a router emits needs no such limit: it is a frame that its
  neighbours handle safely. Every node stays well-formed and keeps its configuration, and every
  message on the wire carries the MAC of the interface it was sent on.
\<close>

theorem network_safe:
  assumes "net_reach link ns0 ns" and "links_ok link ns0" and "\<forall>i. wire (ns0 i) = []" and "net_enabled ns ev"
  shows "\<exists>ns'. net_result link ns ev = Inr ns' \<and> net_reach link ns0 ns' \<and>
    (\<forall>i. sr_wf (ns' i) \<and> same_config (ns0 i) (ns' i) \<and>
       (\<forall>msg \<in> set (wire (ns' i)). \<exists>n k e body. sr_get_interface (if_list (ns0 i)) n = Some k \<and>
          ether_shost e = if_addr k \<and> msg = vns_frame n (enc_eth e @ body)))"
proof -
  from net_event_ok [OF net_reach_inv [OF assms(1-3)] assms(2,4)] obtain ns'
    where r: "net_result link ns ev = Inr ns'" "net_inv ns0 ns'" by blast
  then have "\<exists>n k e body. sr_get_interface (if_list (ns0 i)) n = Some k \<and> ether_shost e = if_addr k \<and>
      msg = vns_frame n (enc_eth e @ body)" if "msg \<in> set (wire (ns' i))" for i msg
    using that by (simp add: net_inv_def list_all_iff) (meson relay_msg_def)
  with r net_step [OF assms(1,4) r(1)] show ?thesis
    by (intro exI [of _ ns']) (simp add: net_inv_def node_ok_def)
qed

text \<open>Two routers, of which the second is the next hop of the first.\<close>

definition ex_peer_if :: sr_if where
  "ex_peer_if = \<lparr>if_name = ''eth0'', if_addr = MAC 6 0 0 0 0 1, if_ip = ex_unknown, if_speed = 0\<rparr>"

definition ex_net :: network where
  "ex_net i = (if i = 0 then ex_sr else ex_sr\<lparr>if_list := [ex_peer_if], cache := sr_arpcache_init (cache ex_sr)\<rparr>)"

definition ex_link :: topology where
  "ex_link i n = (if i = 0 \<and> n = ''eth2'' then Some (1, ''eth0'')
     else if i = 1 \<and> n = ''eth0'' then Some (0, ''eth2'') else None)"

lemma ex_peer: "sr_get_interface [ex_peer_if] ''eth0'' = Some ex_peer_if"
  by (simp add: ex_peer_if_def)

section \<open>Resolving a neighbour\<close>

lemma filter_frames:
  "ether_type e = htons ethertype_ip \<Longrightarrow> \<not> arp_for_other i (enc_eth e @ body)"
  "ar_op a = htons arp_op_reply \<Longrightarrow> \<not> arp_for_other i (enc_eth e @ enc_arp a @ pad)"
  "ar_tip a = if_ip i \<Longrightarrow> \<not> arp_for_other i (enc_eth e @ enc_arp a @ pad)"
  by (simp_all add: arp_for_other_def mslice_def protocol_consts)

text \<open>The three steps: the router parks the packet and asks, the neighbour answers, the packet leaves.\<close>

lemma resolve_ask:
  assumes "sr_wf sr" "sr_get_interface (if_list sr) n = Some iface" "good_ip e h pl"
    "ip_decision sr h pl = Forward out nh" "sr_arpcache_lookup (cache sr) nh = None"
    "find_req nh (requests (cache sr)) = None"
  shows "\<exists>sr1. frame_result sr (ip_frame e h pl) n = Inr sr1 \<and> same_config sr sr1 \<and>
    wire sr1 = wire sr @ [vns_frame (if_name out) (arp_request_frame out nh)] \<and>
    pending_pkts (cache sr1) nh = [parked out (ip_frame (ip_eth (ether_dhost e) out) (forwarded h pl) pl)]"
proof -
  let ?sr = "log_frame sr (ip_frame e h pl)" and ?f = "ip_frame (ip_eth (ether_dhost e) out) (forwarded h pl) pl"
  have c: "arpcache_wf (cache sr)" using assms(1) by (simp add: sr_wf_def cache_ok_def)
  have "ip_decision ?sr h pl = ip_decision sr h pl" by (simp add: ip_decision_def cong: option.case_cong)
  with c assms have "frame_result sr (ip_frame e h pl) n = Inr (await ?sr out nh ?f)"
    using handlepacket_ip [of ?sr n iface e h pl]
    by (simp add: frame_result_def filter_frames good_ip_def ip_frame_def perform_def deliver_def)
  moreover have "same_config sr (await ?sr out nh ?f)"
    by (simp add: await_def Let_def same_config_def time_now_eq split: prod.split)
  ultimately show ?thesis
    using await_spec(2,5) [of ?sr, where out = out and nh = nh and frame = ?f] c assms(6) by (simp add: pending_pkts_def)
qed

lemma resolve_answer:
  assumes "sr_get_interface (if_list sr) m = Some bi" "sr_get_interface_by_ip (if_list sr) nh = Some bi"
  shows "\<exists>sr1 e a. frame_result sr (arp_request_frame out nh) m = Inr sr1 \<and> same_config sr sr1 \<and>
    wire sr1 = wire sr @ [vns_frame m (arp_frame e a [])] \<and> ether_type e = htons ethertype_arp \<and>
    ar_op a = htons arp_op_reply \<and> ar_sha a = if_addr bi \<and> ar_sip a = nh \<and> ether_dhost e = if_addr out"
proof -
  have ip: "if_ip bi = nh" using assms(2) by_ip.search_hit by fastforce
  define e a where "e = \<lparr>ether_dhost = MAC 0xFF 0xFF 0xFF 0xFF 0xFF 0xFF, ether_shost = if_addr out,
      ether_type = htons ethertype_arp\<rparr>"
    and "a = \<lparr>ar_hrd = htons arp_hrd_ethernet, ar_pro = htons ethertype_ip, ar_hln = 6, ar_pln = 4,
      ar_op = htons arp_op_request, ar_sha = if_addr out, ar_sip = if_ip out, ar_tha = MAC 0 0 0 0 0 0, ar_tip = nh\<rparr>"
  have f: "arp_request_frame out nh = arp_frame e a []"
    by (simp add: arp_request_frame_def arp_frame_def e_def a_def)
  have "\<not> arp_for_other bi (arp_frame e a [])"
    unfolding arp_frame_def using ip by (intro filter_frames(3)) (simp add: a_def)
  moreover have "sr_handlepacket (log_frame sr (arp_frame e a [])) (arp_frame e a []) (length (arp_frame e a [])) m =
      Inr (transmit (log_frame sr (arp_frame e a [])) (arp_reply_frame bi e a) m)"
    using arp_request_eq [of e a "log_frame sr (arp_frame e a [])" m bi "[]"] assms by (simp add: e_def a_def)
  ultimately have "frame_result sr (arp_request_frame out nh) m =
      Inr (transmit (log_frame sr (arp_frame e a [])) (arp_reply_frame bi e a) m)"
    using assms(1) by (simp add: f frame_result_def)
  moreover define e' a' where "e' = e\<lparr>ether_dhost := if_addr out, ether_shost := if_addr bi\<rparr>"
    and "a' = a\<lparr>ar_op := htons arp_op_reply, ar_sha := if_addr bi, ar_sip := nh, ar_tha := if_addr out, ar_tip := if_ip out\<rparr>"
  moreover have "arp_reply_frame bi e a = arp_frame e' a' []"
    using ip by (simp add: arp_reply_frame_def arp_frame_def e_def a_def e'_def a'_def)
  ultimately show ?thesis
    by (intro exI [of _ "transmit (log_frame sr (arp_frame e a [])) (arp_reply_frame bi e a) m"] exI [of _ e']
        exI [of _ a']) (simp add: same_config_def e_def)
qed

lemma resolve_release:
  assumes "sr_wf sr" "sr_get_interface (if_list sr) n = Some i" "ether_type e = htons ethertype_arp"
    "ar_op a = htons arp_op_reply"
  shows "\<exists>sr1. frame_result sr (arp_frame e a pad) n = Inr sr1 \<and> same_config sr sr1 \<and>
    wire sr1 = wire sr @ map (resolved_msg (if_list sr) (ar_sha a)) (pending_pkts (cache sr) (ar_sip a)) \<and>
    pending_pkts (cache sr1) (ar_sip a) = []"
proof -
  let ?sr = "log_frame sr (arp_frame e a pad)"
  have c: "arpcache_wf (cache sr)" using assms(1) by (simp add: sr_wf_def cache_ok_def)
  have wf: "sr_wf ?sr" using assms(1) by (simp add: sr_wf_def)
  have "frame_result sr (arp_frame e a pad) n =
      handle_arp_packet ?sr (enc_eth e @ enc_arp a @ pad) (42 + length pad) n"
    using assms(2-4) by (simp add: frame_result_def dispatch_arp) (simp add: arp_frame_def filter_frames)
  with handle_arp_reply [OF wf assms(4), of e pad n] c show ?thesis
    by (auto simp: pending_insert same_config_def)
qed

lemma ex_links: "links_ok ex_link ex_net"
  by (simp add: links_ok_def ex_link_def ex_net_def ex_peer_if_def)

text \<open>A host injects a packet, the first router asks for its next hop, and the link carries the request.\<close>

theorem network_safe_witness:
  "\<exists>ns1 ns2. net_result ex_link (\<lambda>i. sr_init (ex_net i))
      (Inject 0 ''eth1'' (ip_frame ex_eth_hdr (ex_ip_hdr ex_host ex_unknown) ex_pl)) = Inr ns1 \<and>
    net_result ex_link ns1 (Carry 0 ''eth2'' (arp_request_frame ex_if2 ex_unknown)) = Inr ns2 \<and>
    sr_wf (ns2 0) \<and> sr_wf (ns2 1) \<and> wire (ns2 0) \<noteq> []"
proof -
  let ?ns = "\<lambda>i. sr_init (ex_net i)" and ?h = "ex_ip_hdr ex_host ex_unknown"
  let ?inject = "Inject 0 ''eth1'' (ip_frame ex_eth_hdr ?h ex_pl)" and ?carry = "Carry 0 ''eth2'' (arp_request_frame ex_if2 ex_unknown)"
  have quiet: "\<forall>i. wire (ex_net i) = []" by (simp add: ex_net_def)
  have init: "sr_init sr = sr\<lparr>cache := sr_arpcache_init (cache sr)\<rparr>" for sr by (simp add: sr_init_def)
  have good: "good_ip ex_eth_hdr ?h ex_pl" by (rule ex_good) simp
  have e1: "net_enabled ?ns ?inject"
    using good by (simp add: ip_frame_def relay_ok_ip good_ip_def init ex_net_def)
  from network_safe [OF net_init ex_links quiet e1] obtain ns1 where n1: "net_result ex_link ?ns ?inject = Inr ns1"
    "net_reach ex_link ex_net ns1" by blast
  have wf: "sr_wf (?ns 0)" by (simp add: sr_wf_def init cache_ok_init ex_net_def)
  have i: "sr_get_interface (if_list (?ns 0)) ''eth1'' = Some ex_if1" by (simp add: init ex_net_def)
  have "ip_decision (ex_sr\<lparr>cache := c\<rparr>) ?h ex_pl = ip_decision ex_sr ?h ex_pl" for c
    by (simp add: ip_decision_def cong: option.case_cong)
  then have d: "ip_decision (?ns 0) ?h ex_pl = Forward ex_if2 ex_unknown" by (simp add: init ex_net_def ex_decision)
  have c: "sr_arpcache_lookup (cache (?ns 0)) ex_unknown = None" "find_req ex_unknown (requests (cache (?ns 0))) = None"
    by (simp_all add: init lookup_None_iff sr_arpcache_init_def)
  from resolve_ask [OF wf i good d c] n1(1) have w: "wire (ns1 0) = [vns_frame ''eth2'' (arp_request_frame ex_if2 ex_unknown)]"
    by (auto simp: receive_def init ex_net_def)
  then have e2: "net_enabled ns1 ?carry" by simp
  from network_safe [OF n1(2) ex_links quiet e2] obtain ns2 where n2: "net_result ex_link ns1 ?carry = Inr ns2"
    "\<forall>i. sr_wf (ns2 i)" by blast
  have "ns2 0 = ns1 0" using n2(1) by (auto simp: ex_link_def receive_def rbind_eq_Inr)
  then have "wire (ns2 0) \<noteq> []" using w by simp
  with n1(1) n2 show ?thesis by blast
qed

text \<open>
  Claim C8: two routers resolve each other. When router \<open>a\<close> of a network receives an IP packet for a
  next hop whose MAC it does not know, and the neighbour at the other end of the link owns that
  address, then three events complete the delivery: \<open>a\<close> handles the packet and broadcasts an ARP
  request, the network carries the request to \<open>b\<close>, which answers it, and carries the answer back,
  on which \<open>a\<close> sends the packet to the MAC of \<open>b\<close>'s interface, with the time to live decremented and
  the payload unchanged. Each of the events is enabled when its turn comes, and nothing else is sent.
\<close>

theorem neighbour_resolution:
  assumes "a \<noteq> b" and "node_ok (ns a)" and "node_ok (ns b)"
    and "link a (if_name out) = Some (b, m)" and "link b m = Some (a, if_name out)"
    and "sr_get_interface (if_list (ns a)) n = Some iface" and "good_ip e h pl" and "length pl \<le> 9942"
    and "ip_decision (ns a) h pl = Forward out nh" and "sr_arpcache_lookup (cache (ns a)) nh = None"
    and "find_req nh (requests (cache (ns a))) = None"
    and "sr_get_interface (if_list (ns b)) m = Some bi" and "sr_get_interface_by_ip (if_list (ns b)) nh = Some bi"
  shows "\<exists>ns1 ns2 ns3 request reply h'.
    net_enabled ns (Inject a n (ip_frame e h pl)) \<and> net_result link ns (Inject a n (ip_frame e h pl)) = Inr ns1 \<and>
    net_enabled ns1 (Carry a (if_name out) request) \<and> net_result link ns1 (Carry a (if_name out) request) = Inr ns2 \<and>
    net_enabled ns2 (Carry b m reply) \<and> net_result link ns2 (Carry b m reply) = Inr ns3 \<and>
    wire (ns3 a) = wire (ns a) @ [vns_frame (if_name out) request, vns_frame (if_name out)
      (ip_frame \<lparr>ether_dhost = if_addr bi, ether_shost = if_addr out, ether_type = htons ethertype_ip\<rparr> h' pl)] \<and>
    wire (ns3 b) = wire (ns b) @ [vns_frame m reply] \<and>
    ip_ttl h' = ip_ttl h - 1 \<and> h'\<lparr>ip_ttl := ip_ttl h, ip_sum := ip_sum h\<rparr> = h \<and>
    pending_pkts (cache (ns3 a)) nh = []"
proof -
  let ?p = "parked out (ip_frame (ip_eth (ether_dhost e) out) (forwarded h pl) pl)"
  have wf: "sr_wf (ns a)" using assms(2) by (simp add: node_ok_def)
  have out: "sr_get_interface (if_list (ns a)) (if_name out) = Some out"
    using assms(9) get_interface_name by (auto simp: ip_decision_def split: if_splits option.splits)
  have rel: "relay_ok (ip_frame e h pl)" using assms(7,8) by (simp add: ip_frame_def relay_ok_ip good_ip_def)
  from resolve_ask [OF wf assms(6,7,9-11)] obtain a1 where a1: "frame_result (ns a) (ip_frame e h pl) n = Inr a1"
    "same_config (ns a) a1" "wire a1 = wire (ns a) @ [vns_frame (if_name out) (arp_request_frame out nh)]"
    "pending_pkts (cache a1) nh = [?p]" by blast
  have wf1: "sr_wf a1" using node_frame [OF assms(2) rel assms(6)] a1(1) by (simp add: node_step_def node_ok_def)
  from resolve_answer [OF assms(12,13), of out] obtain b1 e' ar where b1:
    "frame_result (ns b) (arp_request_frame out nh) m = Inr b1"
    "wire b1 = wire (ns b) @ [vns_frame m (arp_frame e' ar [])]" "ether_type e' = htons ethertype_arp"
    "ar_op ar = htons arp_op_reply" "ar_sha ar = if_addr bi" "ar_sip ar = nh" by blast
  have i1: "sr_get_interface (if_list a1) (if_name out) = Some out" using out a1(2) by (simp add: same_config_def)
  from resolve_release [OF wf1 i1 b1(3,4), of "[]"] obtain a2 where a2:
    "frame_result a1 (arp_frame e' ar []) (if_name out) = Inr a2"
    "wire a2 = wire a1 @ [resolved_msg (if_list a1) (if_addr bi) ?p]" "pending_pkts (cache a2) nh = []"
    using a1(4) b1(5,6) by auto
  have "resolved_msg (if_list a1) (if_addr bi) ?p = vns_frame (if_name out) (ip_frame \<lparr>ether_dhost = if_addr bi,
      ether_shost = if_addr out, ether_type = htons ethertype_ip\<rparr> (forwarded h pl) pl)"
    using i1 by (simp add: resolved_msg_def parked_def ip_frame_def ip_eth_def)
  moreover have "ip_ttl (forwarded h pl) = ip_ttl h - 1" "(forwarded h pl)\<lparr>ip_ttl := ip_ttl h, ip_sum := ip_sum h\<rparr> = h"
    by (simp_all add: forwarded_def Let_def)
  ultimately show ?thesis
    using assms(1,4-6) rel a1 b1 a2
    by (intro exI [of _ "ns(a := a1)"] exI [of _ "ns(a := a1, b := b1)"] exI [of _ "ns(a := a2, b := b1)"]
        exI [of _ "arp_request_frame out nh"] exI [of _ "arp_frame e' ar []"] exI [of _ "forwarded h pl"])
      (simp add: receive_def fun_upd_twist)
qed

lemma ex_net_ok: "node_ok (ex_net i)"
  using ex_sr_wf by (simp add: ex_net_def node_ok_def sr_wf_def cache_ok_init) (simp add: queue_relay_def pending_pkts_def)

theorem neighbour_resolution_witness:
  "\<exists>ns1 ns2 ns3 request reply.
    net_result ex_link ex_net (Inject 0 ''eth1'' (ip_frame ex_eth_hdr (ex_ip_hdr ex_host ex_unknown) ex_pl)) = Inr ns1 \<and>
    net_result ex_link ns1 (Carry 0 (if_name ex_if2) request) = Inr ns2 \<and>
    net_result ex_link ns2 (Carry 1 ''eth0'' reply) = Inr ns3 \<and>
    length (wire (ns3 0)) = 2 \<and> length (wire (ns3 1)) = 1"
proof -
  let ?h = "ex_ip_hdr ex_host ex_unknown"
  have d: "ip_decision (ex_net 0) ?h ex_pl = Forward ex_if2 ex_unknown" by (simp add: ex_net_def ex_decision)
  have link_facts: "ex_link 0 (if_name ex_if2) = Some (1, ''eth0'')" "ex_link 1 ''eth0'' = Some (0, if_name ex_if2)"
    by (simp_all add: ex_link_def)
  have b: "sr_get_interface (if_list (ex_net 1)) ''eth0'' = Some ex_peer_if"
      "sr_get_interface_by_ip (if_list (ex_net 1)) ex_unknown = Some ex_peer_if"
    by (simp_all add: ex_net_def ex_peer_if_def)
  have a: "sr_get_interface (if_list (ex_net 0)) ''eth1'' = Some ex_if1"
      "sr_arpcache_lookup (cache (ex_net 0)) ex_unknown = None" "find_req ex_unknown (requests (cache (ex_net 0))) = None"
    by (simp_all add: ex_net_def ex_lookup)
  have side: "(0 :: nat) \<noteq> 1" "ip_hl ?h = 5" "length ex_pl \<le> 9942" by simp_all
  from neighbour_resolution [OF side(1) ex_net_ok ex_net_ok link_facts a(1) ex_good [OF side(2)] side(3) d a(2,3) b]
  obtain ns1 ns2 ns3 request reply where
    "net_result ex_link ex_net (Inject 0 ''eth1'' (ip_frame ex_eth_hdr ?h ex_pl)) = Inr ns1"
    "net_result ex_link ns1 (Carry 0 (if_name ex_if2) request) = Inr ns2"
    "net_result ex_link ns2 (Carry 1 ''eth0'' reply) = Inr ns3"
    "length (wire (ns3 0)) = length (wire (ex_net 0)) + 2" "length (wire (ns3 1)) = length (wire (ex_net 1)) + 1"
    by (elim exE conjE) simp
  then show ?thesis
    by (intro exI [of _ ns1] exI [of _ ns2] exI [of _ ns3] exI [of _ request] exI [of _ reply] conjI)
      (assumption | simp add: ex_net_def)+
qed

end
