(* ===== verification/Delivery.thy ===== *)
theory Delivery
  imports Network
begin

text \<open>
  Packets on a path of routers. A walk gives, router by router, the link that the route to a
  destination uses, where every router knows the MAC of its next hop. A packet follows the walk, one
  event of the network per router, as far as its time to live allows, and where it
  runs out the router answers the source.
\<close>

section \<open>Runs\<close>

fun net_run :: "topology \<Rightarrow> network \<Rightarrow> net_event list \<Rightarrow> network \<Rightarrow> bool" where
  "net_run link ns [] ns' = (ns' = ns)"
| "net_run link ns (ev # evs) ns' =
     (net_enabled ns ev \<and> (\<exists>ns1. net_result link ns ev = Inr ns1 \<and> net_run link ns1 evs ns'))"

lemma net_run_append:
  "net_run link ns (evs @ evs') ns' \<longleftrightarrow> (\<exists>ns1. net_run link ns evs ns1 \<and> net_run link ns1 evs' ns')"
  by (induction evs arbitrary: ns) auto

lemma net_run_reach: "net_reach link ns0 ns \<Longrightarrow> net_run link ns evs ns' \<Longrightarrow> net_reach link ns0 ns'"
  by (induction evs arbitrary: ns) (auto intro: net_step)

section \<open>One router\<close>

text \<open>The router sends packets for \<open>dst\<close> on \<open>out\<close> to a neighbour whose MAC it knows.\<close>

definition forwards_via :: "sr_instance \<Rightarrow> u32 \<Rightarrow> sr_if \<Rightarrow> mac \<Rightarrow> bool" where
  "forwards_via sr dst out m \<longleftrightarrow> sr_get_interface_by_ip (if_list sr) dst = None \<and>
     (\<exists>nh entry. route_to sr dst = Some (out, nh) \<and> sr_arpcache_lookup (cache sr) nh = Some entry \<and> ae_mac entry = m)"

lemma route_to_name: "route_to sr dst = Some (out, nh) \<Longrightarrow> sr_get_interface (if_list sr) (if_name out) = Some out"
  using get_interface_name by (auto simp: route_to_def split: option.splits)

lemma handle_ip_frame:
  assumes "node_ok sr" "sr_get_interface (if_list sr) n = Some iface" "good_ip e h pl"
  shows "frame_result sr (ip_frame e h pl) n =
    Inr (perform (log_frame sr (ip_frame e h pl)) e h pl n (ip_decision sr h pl))"
proof -
  let ?sr = "log_frame sr (ip_frame e h pl)"
  have "arpcache_wf (cache ?sr)" using assms(1) by (simp add: node_ok_def sr_wf_def cache_ok_def)
  moreover have "ip_decision ?sr h pl = ip_decision sr h pl"
    by (simp add: ip_decision_def cong: option.case_cong)
  moreover have "\<not> arp_for_other iface (ip_frame e h pl)"
    unfolding ip_frame_def using assms(3) by (intro filter_frames) (simp add: good_ip_def)
  ultimately show ?thesis
    using handlepacket_ip [of ?sr n iface e h pl] assms(2,3) by (simp add: frame_result_def)
qed

lemma forward_hop:
  assumes "node_ok sr" "sr_get_interface (if_list sr) n = Some iface" "good_ip e h pl" "1 < ip_ttl h"
    "forwards_via sr (ip_dst h) out m"
  shows "frame_result sr (ip_frame e h pl) n = Inr (transmit (log_frame sr (ip_frame e h pl))
    (ip_frame (ip_eth m out) (forwarded h pl) pl) (if_name out))"
proof -
  from assms(5) obtain nh entry where f: "sr_get_interface_by_ip (if_list sr) (ip_dst h) = None"
    "route_to sr (ip_dst h) = Some (out, nh)" "sr_arpcache_lookup (cache sr) nh = Some entry" "ae_mac entry = m"
    by (auto simp: forwards_via_def)
  have "ip_decision sr h pl = Forward out nh"
    using f(1,2) assms(4) by (auto simp: ip_decision_def route_to_def split: option.splits)
  with handle_ip_frame [OF assms(1-3)] f(3,4) show ?thesis
    by (simp add: perform_def deliver_def ip_frame_def)
qed

lemma expired_hop:
  assumes "node_ok sr" "sr_get_interface (if_list sr) n = Some iface" "good_ip e h pl" "ip_ttl h \<le> 1"
    "sr_get_interface_by_ip (if_list sr) (ip_dst h) = None"
  shows "frame_result sr (ip_frame e h pl) n =
    Inr (icmp_error (log_frame sr (ip_frame e h pl)) (ip_src h) 11 0 (take 28 (enc_ip h @ pl)))"
  using handle_ip_frame [OF assms(1-3)] assms(4,5) by (simp add: ip_decision_def perform_def)

section \<open>Walks\<close>

text \<open>
  \<open>walk link ns dst i n hops\<close>: a packet for \<open>dst\<close> that arrives at interface \<open>n\<close> of router \<open>i\<close> is routed
  through the routers and interfaces of \<open>hops\<close>, in this order.
\<close>

fun walk :: "topology \<Rightarrow> network \<Rightarrow> u32 \<Rightarrow> nat \<Rightarrow> string \<Rightarrow> (nat \<times> string) list \<Rightarrow> bool" where
  "walk link ns dst i n [] = (node_ok (ns i) \<and> sr_get_interface (if_list (ns i)) n \<noteq> None)"
| "walk link ns dst i n ((j, m) # hops) =
     (node_ok (ns i) \<and> sr_get_interface (if_list (ns i)) n \<noteq> None \<and>
      (\<exists>out d. forwards_via (ns i) dst out d \<and> link i (if_name out) = Some (j, m)) \<and> walk link ns dst j m hops)"

lemma walk_cong:
  "(\<And>k. k \<in> insert i (fst ` set hops) \<Longrightarrow> ns k = ns' k) \<Longrightarrow> walk link ns dst i n hops = walk link ns' dst i n hops"
  by (induction hops arbitrary: i n) auto

lemma walk_node: "walk link ns dst i n hops \<Longrightarrow> node_ok (ns i) \<and> sr_get_interface (if_list (ns i)) n \<noteq> None"
  by (cases "(link, ns, dst, i, n, hops)" rule: walk.cases) auto

lemma walk_last:
  "walk link ns dst i n hops \<Longrightarrow> (j, m) = last ((i, n) # hops) \<Longrightarrow>
     node_ok (ns j) \<and> sr_get_interface (if_list (ns j)) m \<noteq> None"
  by (induction hops arbitrary: i n) (auto split: if_splits)

text \<open>The events after the one that lets the packet arrive at the first router.\<close>

lemma packet_walks:
  assumes "walk link ns (ip_dst h) i n hops" "distinct (i # map fst hops)" "good_ip e h pl"
    "length hops < unat (ip_ttl h)"
    "net_enabled ns ev" "net_result link ns ev = receive ns i n (ip_frame e h pl)"
  shows "\<exists>evs ns' ev' e' h' j m. length evs = length hops \<and> net_run link ns evs ns' \<and> (j, m) = last ((i, n) # hops) \<and>
    net_enabled ns' ev' \<and> net_result link ns' ev' = receive ns' j m (ip_frame e' h' pl) \<and>
    (evs @ [ev']) ! 0 = ev \<and>
    ns' j = ns j \<and> good_ip e' h' pl \<and> unat (ip_ttl h') = unat (ip_ttl h) - length hops \<and>
    h'\<lparr>ip_ttl := ip_ttl h, ip_sum := ip_sum h\<rparr> = h"
  using assms
proof (induction hops arbitrary: ns i n e h ev)
  case Nil
  then show ?case
    by (intro exI [of _ "[]"] exI [of _ ns] exI [of _ ev] exI [of _ e] exI [of _ h] exI [of _ i] exI [of _ n]) simp
next
  case (Cons hop hops)
  obtain j m where hop: "hop = (j, m)" by (cases hop)
  from Cons.prems(1) hop obtain iface out d where node: "node_ok (ns i)"
      "sr_get_interface (if_list (ns i)) n = Some iface"
    and via: "forwards_via (ns i) (ip_dst h) out d" "link i (if_name out) = Some (j, m)"
    and rest: "walk link ns (ip_dst h) j m hops" by auto
  have ttl: "1 < ip_ttl h" "unat (ip_ttl h - 1) = unat (ip_ttl h) - 1"
    using Cons.prems(4) by (simp_all add: word_less_nat_alt unat_sub word_le_nat_alt)
  let ?f = "ip_frame e h pl" and ?f' = "ip_frame (ip_eth d out) (forwarded h pl) pl"
  let ?sr = "transmit (log_frame (ns i) ?f) ?f' (if_name out)"
  let ?ns = "ns(i := ?sr)"
  have res: "net_result link ns ev = Inr ?ns"
    using forward_hop [OF node Cons.prems(3) ttl(1) via(1)] Cons.prems(6) by (simp add: receive_def)
  let ?ev = "Carry i (if_name out) ?f'"
  have en: "net_enabled ?ns ?ev" by simp
  have rs: "net_result link ?ns ?ev = receive ?ns j m ?f'" using via(2) by simp
  have fw: "ip_dst (forwarded h pl) = ip_dst h" "ip_hl (forwarded h pl) = ip_hl h"
    "ip_ttl (forwarded h pl) = ip_ttl h - 1"
    "(forwarded h pl)\<lparr>ip_ttl := ip_ttl h, ip_sum := ip_sum h\<rparr> = h"
    by (simp_all add: forwarded_def Let_def)
  have good: "good_ip (ip_eth d out) (forwarded h pl) pl"
    using Cons.prems(3) fw(2) by (simp add: good_ip_def ip_eth_def)
  have "walk link ?ns (ip_dst h) j m hops = walk link ns (ip_dst h) j m hops"
    by (rule walk_cong) (use Cons.prems(2) hop in auto)
  with rest fw(1) have "walk link ?ns (ip_dst (forwarded h pl)) j m hops" by simp
  moreover have "distinct (j # map fst hops)" "length hops < unat (ip_ttl (forwarded h pl))"
    using Cons.prems(2,4) hop fw(3) ttl(2) by auto
  ultimately obtain evs ns' ev' e' h' j' m' where ih: "length evs = length hops" "net_run link ?ns evs ns'"
    "(j', m') = last ((j, m) # hops)" "net_enabled ns' ev'"
    "net_result link ns' ev' = receive ns' j' m' (ip_frame e' h' pl)" "ns' j' = ?ns j'" "good_ip e' h' pl"
    "unat (ip_ttl h') = unat (ip_ttl (forwarded h pl)) - length hops"
    "h'\<lparr>ip_ttl := ip_ttl (forwarded h pl), ip_sum := ip_sum (forwarded h pl)\<rparr> = forwarded h pl"
    using Cons.IH [OF _ _ good _ en rs] by blast
  have "(j', m') \<in> set (hop # hops)" unfolding ih(3) hop by (rule last_in_set) simp
  then have "j' \<in> set (map fst (hop # hops))" by force
  then have "j' \<noteq> i" using Cons.prems(2) by auto
  moreover have "h'\<lparr>ip_ttl := ip_ttl h, ip_sum := ip_sum h\<rparr> =
      (h'\<lparr>ip_ttl := ip_ttl (forwarded h pl), ip_sum := ip_sum (forwarded h pl)\<rparr>)\<lparr>ip_ttl := ip_ttl h, ip_sum := ip_sum h\<rparr>"
    by simp
  then have "h'\<lparr>ip_ttl := ip_ttl h, ip_sum := ip_sum h\<rparr> = h" unfolding ih(9) fw(4) .
  moreover have "net_run link ns (ev # evs) ns'" using Cons.prems(5) res ih(2) by auto
  ultimately show ?case
    using ih hop fw(3) ttl(2) by (intro exI [of _ "ev # evs"] exI [of _ ns'] exI [of _ ev'] exI [of _ e'] exI [of _ h']
        exI [of _ j'] exI [of _ m']) auto
qed

section \<open>Properties\<close>

text \<open>
  Claim C6: delivery along a path. When every router of a walk routes the destination of a packet to
  the next one and knows its MAC, and the packet has more hops left than the walk is long, then one
  event per router carries it, hop by hop, to the last router, in whatever state the network is: each
  event is enabled when its turn comes and is handled without a fault, and in the end the last router
  handles, in the state it had from the start, a frame with the same payload and the same header except
  that the time to live is lower by the number of hops and the checksum is new.
\<close>

theorem path_delivery:
  assumes "walk link ns (ip_dst h) i n hops" and "distinct (i # map fst hops)"
    and "good_ip e h pl" and "length pl \<le> 9942" and "length hops < unat (ip_ttl h)"
  shows "\<exists>evs ns' ev e' h' j m. (evs @ [ev]) ! 0 = Inject i n (ip_frame e h pl) \<and> length evs = length hops \<and>
    net_run link ns evs ns' \<and> net_enabled ns' ev \<and> (j, m) = last ((i, n) # hops) \<and>
    net_result link ns' ev = rbind (frame_result (ns j) (ip_frame e' h' pl) m) (\<lambda>sr'. Inr (ns'(j := sr'))) \<and>
    unat (ip_ttl h') = unat (ip_ttl h) - length hops \<and> h'\<lparr>ip_ttl := ip_ttl h, ip_sum := ip_sum h\<rparr> = h"
proof -
  have "net_enabled ns (Inject i n (ip_frame e h pl))"
    using walk_node [OF assms(1)] assms(3,4) by (simp add: ip_frame_def relay_ok_ip good_ip_def)
  from packet_walks [OF assms(1-3,5) this net_result.simps(2)] obtain evs ns' ev' e' h' j m where
    "length evs = length hops" "net_run link ns evs ns'" "(j, m) = last ((i, n) # hops)" "net_enabled ns' ev'"
    "net_result link ns' ev' = receive ns' j m (ip_frame e' h' pl)"
    "(evs @ [ev']) ! 0 = Inject i n (ip_frame e h pl)" "ns' j = ns j"
    "unat (ip_ttl h') = unat (ip_ttl h) - length hops" "h'\<lparr>ip_ttl := ip_ttl h, ip_sum := ip_sum h\<rparr> = h" by blast
  then show ?thesis
    by (intro exI [of _ evs] exI [of _ ns'] exI [of _ ev'] exI [of _ e'] exI [of _ h'] exI [of _ j] exI [of _ m])
      (simp add: receive_def)
qed

text \<open>What a router sends when it has an ICMP error for the source of a packet.\<close>

definition error_msgs :: "sr_instance \<Rightarrow> u32 \<Rightarrow> byte \<Rightarrow> byte \<Rightarrow> byte list \<Rightarrow> byte list list" where
  "error_msgs sr src ty co data =
     (case route_to sr src of
        None \<Rightarrow> []
      | Some (out, nh) \<Rightarrow>
          (case sr_arpcache_lookup (cache sr) nh of
             Some entry \<Rightarrow> [vns_frame (if_name out) (enc_eth (ip_eth (ae_mac entry) out) @ icmp_error_body out src ty co data)]
           | None \<Rightarrow> if request_sent (cache sr) nh then [] else [vns_frame (if_name out) (arp_request_frame out nh)]))"

lemma icmp_error_wire:
  assumes "arpcache_wf (cache sr)"
  shows "wire (icmp_error sr src ty co data) = wire sr @ error_msgs sr src ty co data"
  using await_spec(5) [OF assms]
  by (auto simp: icmp_error_def error_msgs_def deliver_def request_sent_def split: option.split)

text \<open>
  Claim C7: a packet does not travel further than its time to live. When it reaches the router at the
  end of a walk with its last hop used up and that router is not its destination, it is not sent on. What
  this event makes the router send depends on its way to the source: without a route to
  the source nothing; with a route whose next hop has a known MAC only the time exceeded message that
  quotes the packet as received; and with one whose MAC is not known only an ARP request for the next
  hop, unless one is outstanding, while the message waits for the answer.
\<close>

theorem hop_limit:
  assumes "walk link ns (ip_dst h) i n hops" and "distinct (i # map fst hops)"
    and "good_ip e h pl" and "length pl \<le> 9942" and "unat (ip_ttl h) = Suc (length hops)"
    and "(j, m) = last ((i, n) # hops)" and "sr_get_interface_by_ip (if_list (ns j)) (ip_dst h) = None"
  shows "\<exists>evs ns' h'. evs ! 0 = Inject i n (ip_frame e h pl) \<and> length evs = Suc (length hops) \<and>
    net_run link ns evs ns' \<and> ip_ttl h' = 1 \<and> h'\<lparr>ip_ttl := ip_ttl h, ip_sum := ip_sum h\<rparr> = h \<and>
    wire (ns' j) = wire (ns j) @ (case route_to (ns j) (ip_src h) of
        None \<Rightarrow> []
      | Some (out, nh) \<Rightarrow>
          (case sr_arpcache_lookup (cache (ns j)) nh of
             Some entry \<Rightarrow> [vns_frame (if_name out) (enc_eth (ip_eth (ae_mac entry) out) @
               icmp_error_body out (ip_src h) 11 0 (take 28 (enc_ip h' @ pl)))]
           | None \<Rightarrow> if request_sent (cache (ns j)) nh then [] else [vns_frame (if_name out) (arp_request_frame out nh)]))"
proof -
  have "net_enabled ns (Inject i n (ip_frame e h pl))"
    using walk_node [OF assms(1)] assms(3,4) by (simp add: ip_frame_def relay_ok_ip good_ip_def)
  from packet_walks [OF assms(1-3) _ this net_result.simps(2)] assms(5,6) obtain evs ns' ev' e' h' where w:
    "length evs = length hops" "net_run link ns evs ns'" "net_enabled ns' ev'"
    "net_result link ns' ev' = receive ns' j m (ip_frame e' h' pl)"
    "(evs @ [ev']) ! 0 = Inject i n (ip_frame e h pl)" "ns' j = ns j" "good_ip e' h' pl"
    "unat (ip_ttl h') = 1" "h'\<lparr>ip_ttl := ip_ttl h, ip_sum := ip_sum h\<rparr> = h"
    by (metis (no_types, lifting) Suc_diff_le diff_self_eq_0 le_refl lessI prod.inject One_nat_def)
  have ttl: "ip_ttl h' = 1" using w(8) by (metis unsigned_1 word_unat_eq_iff)
  have eq: "ip_dst h' = ip_dst h" "ip_src h' = ip_src h" using w(9) by (cases h, cases h', simp)+
  have node: "node_ok (ns j)" "\<exists>iface. sr_get_interface (if_list (ns j)) m = Some iface"
    using walk_last [OF assms(1,6)] by auto
  let ?sr = "log_frame (ns j) (ip_frame e' h' pl)"
  let ?sr' = "icmp_error ?sr (ip_src h) 11 0 (take 28 (enc_ip h' @ pl))"
  have "frame_result (ns j) (ip_frame e' h' pl) m = Inr ?sr'"
    using node expired_hop [OF node(1) _ w(7), of m] assms(7) ttl eq by auto
  moreover have "arpcache_wf (cache ?sr)" using node(1) by (simp add: node_ok_def sr_wf_def cache_ok_def)
  from icmp_error_wire [OF this]
  have "wire ?sr' = wire (ns j) @ error_msgs (ns j) (ip_src h) 11 0 (take 28 (enc_ip h' @ pl))"
    by (simp add: error_msgs_def route_to_def cong: option.case_cong)
  ultimately show ?thesis
    using w ttl unfolding error_msgs_def
    by (intro exI [of _ "evs @ [ev']"] exI [of _ "ns'(j := ?sr')"] exI [of _ h'])
      (auto simp: net_run_append receive_def)
qed

section \<open>Examples\<close>

text \<open>A second router behind the first, with a route back to the sender.\<close>

definition ex_back :: sr_rt where
  "ex_back = \<lparr>rt_dest = ex_host, rt_gw = ex_known, rt_mask = 0xFFFFFFFF, rt_interface = ''eth0''\<rparr>"

definition ex_path :: network where
  "ex_path i = (if i = 0 then ex_sr else ex_sr\<lparr>if_list := [ex_peer_if], routing_table := [ex_back]\<rparr>)"

lemma ex_path_ok: "node_ok (ex_path i)"
  using ex_sr_wf by (simp add: ex_path_def node_ok_def sr_wf_def cache_ok_def queue_relay_def pending_pkts_def)

lemma ex_path_known: "\<exists>entry. sr_arpcache_lookup (cache (ex_path i)) ex_known = Some entry"
  using ex_lookup [of ex_known] by (auto simp: ex_path_def)

lemma ex_path_forward: "\<exists>d. forwards_via (ex_path 0) ex_known ex_if2 d"
  using ex_path_known [of 0]
  by (auto simp: forwards_via_def route_to_def ex_path_def ex_routes ex_hops next_hop_def)

lemma ex_path_back: "\<exists>d. forwards_via (ex_path 1) ex_host ex_peer_if d"
proof -
  have "lpm_lookup [ex_back] ex_host = Some ex_back" by (simp add: lpm_lookup_def ex_back_def byte_simps)
  then have "route_to (ex_path 1) ex_host = Some (ex_peer_if, ex_known)"
    by (simp add: route_to_def ex_path_def ex_back_def next_hop_def ex_peer_if_def byte_simps)
  moreover have "sr_get_interface_by_ip (if_list (ex_path 1)) ex_host = None"
    by (simp add: ex_path_def ex_peer_if_def)
  ultimately show ?thesis using ex_path_known [of 1] by (auto simp: forwards_via_def)
qed

lemma ex_walk: "walk ex_link ex_path ex_known 0 ''eth1'' [(1, ''eth0'')]"
proof -
  have "sr_get_interface (if_list (ex_path 1)) ''eth0'' = Some ex_peer_if"
    by (simp add: ex_path_def ex_peer_if_def)
  moreover have "ex_link 0 (if_name ex_if2) = Some (1, ''eth0'')" by (simp add: ex_link_def)
  moreover have "sr_get_interface (if_list (ex_path 0)) ''eth1'' = Some ex_if1" by (simp add: ex_path_def)
  ultimately show ?thesis using ex_path_ok ex_path_forward by (simp add: exI [of _ ex_if2])
qed

theorem path_delivery_witness:
  "\<exists>evs ns' ev e' h'. evs = [Inject 0 ''eth1'' (ip_frame ex_eth_hdr (ex_ip_hdr ex_host ex_known) ex_pl)] \<and>
    net_run ex_link ex_path evs ns' \<and> net_enabled ns' ev \<and>
    net_result ex_link ns' ev = rbind (frame_result (ex_path 1) (ip_frame e' h' ex_pl) ''eth0'')
      (\<lambda>sr'. Inr (ns'(1 := sr'))) \<and> unat (ip_ttl h') = 63"
proof -
  let ?h = "ex_ip_hdr ex_host ex_known"
  have "walk ex_link ex_path (ip_dst ?h) 0 ''eth1'' [(1, ''eth0'')]" using ex_walk by simp
  from path_delivery [OF this _ ex_good] obtain evs ns' ev e' h' where
    w: "(evs @ [ev]) ! 0 = Inject 0 ''eth1'' (ip_frame ex_eth_hdr ?h ex_pl)" "length evs = 1"
    "net_run ex_link ex_path evs ns'" "net_enabled ns' ev"
    "net_result ex_link ns' ev = rbind (frame_result (ex_path 1) (ip_frame e' h' ex_pl) ''eth0'')
      (\<lambda>sr'. Inr (ns'(1 := sr')))" "unat (ip_ttl h') = 63" by auto
  moreover from w(1,2) have "evs = [Inject 0 ''eth1'' (ip_frame ex_eth_hdr ?h ex_pl)]"
    by (cases evs) auto
  ultimately show ?thesis by blast
qed

theorem hop_limit_witness:
  "\<exists>evs ns' d h'. net_run ex_link ex_path evs ns' \<and>
    evs ! 0 = Inject 0 ''eth1'' (ip_frame ex_eth_hdr ((ex_ip_hdr ex_host ex_known)\<lparr>ip_ttl := 2\<rparr>) ex_pl) \<and>
    wire (ns' 1) = [vns_frame ''eth0'' (enc_eth (ip_eth d ex_peer_if) @
      icmp_error_body ex_peer_if ex_host 11 0 (take 28 (enc_ip h' @ ex_pl)))] \<and> ip_ttl h' = 1"
proof -
  let ?h = "(ex_ip_hdr ex_host ex_known)\<lparr>ip_ttl := 2\<rparr>"
  from ex_path_back obtain nh entry where via: "route_to (ex_path 1) ex_host = Some (ex_peer_if, nh)"
    "sr_arpcache_lookup (cache (ex_path 1)) nh = Some entry" by (auto simp: forwards_via_def)
  have walk: "walk ex_link ex_path (ip_dst ?h) 0 ''eth1'' [(1, ''eth0'')]" using ex_walk by simp
  have good: "good_ip ex_eth_hdr ?h ex_pl" by (rule ex_good) simp
  have own: "sr_get_interface_by_ip (if_list (ex_path 1)) (ip_dst ?h) = None"
    by (simp add: ex_path_def ex_peer_if_def)
  have facts: "wire (ex_path 1) = []" "if_name ex_peer_if = ''eth0''" by (simp_all add: ex_path_def ex_peer_if_def)
  from hop_limit [OF walk _ good _ _ _ own, of "''eth0''"] via facts show ?thesis
    by auto
qed

end
