(* ===== verification/Spec2Isabelle.thy ===== *)
theory Spec2Isabelle
  imports Template Concurrency InterleavedSystem CacheSpec Delivery
begin

text \<open>
  Verification of the simple router, the C program under
  \<^verbatim>\<open>src/simple-router-project/router\<close>.

  \<^bold>\<open>The program.\<close> The router is a user-space client of a VNS server. It reads its options and its
  routing table (\<^verbatim>\<open>sr_main.c\<close>, \<^verbatim>\<open>sr_rt.c\<close>), connects and authenticates with SHA-1
  (\<^verbatim>\<open>sr_vns_comm.c\<close>, \<^verbatim>\<open>sha1.c\<close>), and then handles the server's commands one after the other.
  The hardware description builds the interface list (\<^verbatim>\<open>sr_if.c\<close>). A packet command carries an
  Ethernet frame: it is logged in pcap format (\<^verbatim>\<open>sr_dumper.c\<close>) and handed to
  \<^verbatim>\<open>sr_handlepacket\<close> (\<^verbatim>\<open>sr_router.c\<close>), which answers ARP requests and pings, produces ICMP
  errors and forwards IP packets along the longest matching prefix. The link address of the next hop
  comes from the ARP cache (\<^verbatim>\<open>sr_arpcache.c\<close>); packets for an unresolved address wait in its
  request queue. A second thread expires entries and repeats unanswered requests once a second, and
  gives them up after five transmissions. Frames go out through \<^verbatim>\<open>sr_send_packet\<close>, which checks
  their source address and writes a packet command to the server socket.

  \<^bold>\<open>Theories.\<close> In the order of their imports:

  \<^item> \<^verbatim>\<open>Prelude\<close>: words and memory layout, faults (\<open>res\<close>), reads and writes in buffers with
    bounds, \<open>rpost\<close> as total postcondition; the locales \<open>struct_layout\<close> (a packed struct and its
    bytes) and \<open>list_search\<close> (a linear search).
  \<^item> \<^verbatim>\<open>Protocol\<close>: the headers and constants of \<^verbatim>\<open>sr_protocol.h\<close>, each an interpretation of
    \<open>struct_layout\<close>.
  \<^item> \<^verbatim>\<open>Messages\<close>: the message types and packed structs of \<^verbatim>\<open>vnscommand.h\<close>, also
    interpretations of \<open>struct_layout\<close>.
  \<^item> \<^verbatim>\<open>Checksum\<close>: \<^verbatim>\<open>ip_checksum\<close> of \<^verbatim>\<open>sr_router.c\<close> and \<^verbatim>\<open>cksum\<close> of \<^verbatim>\<open>sr_utils.c\<close>, both
    interpretations of \<open>ones_complement_sum\<close>; they agree, and a stored checksum verifies.
  \<^item> \<^verbatim>\<open>Interfaces\<close>: \<^verbatim>\<open>sr_if.c\<close> and the search by address of \<^verbatim>\<open>sr_router.c\<close>.
  \<^item> \<^verbatim>\<open>RoutingTable\<close>: entries, verification against the interfaces, and \<^verbatim>\<open>lpm_lookup\<close>, which
    returns the matching route with the longest prefix, but never a default route.
  \<^item> \<^verbatim>\<open>ArpCache\<close>: table and request queue of \<^verbatim>\<open>sr_arpcache.c\<close> with requests at addresses, so that
    destroying one leaves its pointers dangling; the locale \<open>arp_interface\<close> is what the packet path
    relies on, and \<open>cache_operations_typed\<close> states the shape that every sequence of operations keeps.
  \<^item> \<^verbatim>\<open>CacheSpec\<close>: an abstract cache, a map of known addresses and a map of waiting packets, and
    the simulation that the cache of \<^verbatim>\<open>sr_arpcache.c\<close> implements it as long as there is room and an
    address is not learned twice; \<open>arpcache_lookup_after_insert\<close> says what a lookup returns otherwise.
  \<^item> \<^verbatim>\<open>Dumper\<close>: the pcap file of \<^verbatim>\<open>sr_dumper.c\<close>.
  \<^item> \<^verbatim>\<open>Instance\<close>: \<^verbatim>\<open>struct sr_instance\<close>, the sending side of \<^verbatim>\<open>sr_vns_comm.c\<close>, and that a logged
    packet can be read back from the log.
  \<^item> \<^verbatim>\<open>ArpSweep\<close>: \<^verbatim>\<open>handle_arpreq\<close>, the sweep and a round of the timer thread.
  \<^item> \<^verbatim>\<open>Router\<close>: \<^verbatim>\<open>sr_init\<close>, \<^verbatim>\<open>sr_handlepacket\<close> and all handlers of \<^verbatim>\<open>sr_router.c\<close>.
  \<^item> \<^verbatim>\<open>RouterSafety\<close>: the invariant \<open>sr_wf\<close>, its preservation, and memory safety.
  \<^item> \<^verbatim>\<open>RouterBehaviour\<close>, \<^verbatim>\<open>PacketPath\<close>: \<open>ip_decision\<close>, a short specification of what has to
    become of an IP packet; the refinement of it by the code; the frames sent on each branch,
    including the branches on which the code reads out of bounds; and the order in which waiting
    packets leave, the newest first, where the repository's documentation describes a first in, first out queue.
  \<^item> \<^verbatim>\<open>ArpRetry\<close>: what the timer does with a request, and that every unanswered request is given up.
  \<^item> \<^verbatim>\<open>WireSafety\<close>, \<^verbatim>\<open>System\<close>: everything written is a packet message with the source address of
    its interface; the router as a state machine that interleaves frames and timer rounds, and its
    reachable states.
  \<^item> \<^verbatim>\<open>Interleaving\<close>: the two threads inside a packet handler. The handlers again, with the places
    between two uses of the cache lock made explicit, at which a schedule lets timer rounds happen.
    Without rounds they are the handlers of the code; as long as no request expires under a handler
    that holds a pointer to it they are safe; otherwise a frame leads to a use after free.
  \<^item> \<^verbatim>\<open>InterleavedSystem\<close>: the state machine of such events and of timer rounds. It contains that
    of \<^verbatim>\<open>System\<close>, and every admissible event is handled without a fault and keeps the invariant.
  \<^item> \<^verbatim>\<open>Sha1\<close>: \<^verbatim>\<open>sha1.c\<close> and a reference definition of SHA-1; the locale \<open>incremental_digest\<close>.
  \<^item> \<^verbatim>\<open>VnsComm\<close>: the receiving side of \<^verbatim>\<open>sr_vns_comm.c\<close>: reading a command, its handlers (each
    an interpretation of \<open>command_handler\<close>: a handler leaves the unread input and the environment
    alone), connecting, and the main loop with its termination.
  \<^item> \<^verbatim>\<open>VnsSession\<close>, \<^verbatim>\<open>VnsCommands\<close>: a session handles the commands of the byte stream in order,
    however the stream is cut into receive results; hardware description, authentication and opening
    of a session; and what happens on end of file, on commands that are too short and on texts
    without a terminating NUL.
  \<^item> \<^verbatim>\<open>Concurrency\<close>: a session with the timer thread running, under every schedule of the two.
  \<^item> \<^verbatim>\<open>Printing\<close>: the printers of \<^verbatim>\<open>sr_utils.c\<close>, \<^verbatim>\<open>sr_if.c\<close>, \<^verbatim>\<open>sr_rt.c\<close> and
    \<^verbatim>\<open>sr_arpcache.c\<close> as functions to the text they print.
  \<^item> \<^verbatim>\<open>RtFile\<close>: \<^verbatim>\<open>sr_load_rt\<close> with the conversions of the C library it uses; a printed table loads
    as itself, and the repository's own table is loaded as an example.
  \<^item> \<^verbatim>\<open>Startup\<close>: \<^verbatim>\<open>sr_main.c\<close>, and the theorem on a complete run of the main thread that composes
    the others, for servable frames.
  \<^item> \<^verbatim>\<open>Template\<close>: the same for a run with a topology template, where the routing table comes from the
    server.
  \<^item> \<^verbatim>\<open>Network\<close>: several routers joined by links that delay, repeat, reorder and lose frames. No
    router of a network ever fails on what another one sends (frames of hosts are limited in size), and
    two routers resolve each other.
  \<^item> \<^verbatim>\<open>Delivery\<close>: paths of routers in a network. A packet is carried along its path, one hop less at
    each router, and where its hops are used up it is replaced by the time exceeded message to its source, if the
    router can send that.

  \<^bold>\<open>State, errors and environment.\<close> A function of the code is a function on its part of the state.
  A fault (access outside of a buffer, use of a null or dangling pointer, of uninitialised memory, a
  failed assertion) is a value \<open>Inl\<close>, so that a theorem which gives an \<open>Inr\<close> result shows that there is
  none. Buffers are lists of bytes with the layout of the little-endian machine; fields in network
  order keep that order in the model, and \<^verbatim>\<open>htons\<close> and its relatives swap bytes. What the program
  observes of its surroundings is in the state: clock readings (\<open>env_clock\<close>), results of
  \<^verbatim>\<open>write\<close> (\<open>env_write\<close>), results of \<^verbatim>\<open>recv\<close> (\<open>inbox\<close>), files, name resolution and
  connecting, and the contents of memory that is read before it is written (\<open>junk\<close> fields). What it
  sends is appended to \<open>wire\<close>. Functions that read from the socket are total; their value is
  \<open>None\<close> when they need input that has not arrived. Where the code prints a string of a message, the
  model reads it, because that access can leave the message.

  \<^bold>\<open>Bounds.\<close> A command has at most 10000 bytes, the limit in the code: a payload of at most 9992, a
  frame of at most 9976, and a hardware description of at most 277 entries. The theorems on the packet
  path allow frames of up to 10000 bytes, and need 42 bytes and a header length inside the frame; both
  conditions are necessary, as \<^verbatim>\<open>short_packet_overread\<close>, \<^verbatim>\<open>header_length_overread\<close> and
  \<^verbatim>\<open>short_icmp_fault\<close> show. The checksum theorems hold up to 131072 bytes, where the 32-bit
  accumulators cannot overflow, and the one on SHA-1 below \<open>2\<^sup>6\<^sup>1\<close> bytes, the range of
  its bit counter. There is no fuel: every loop is structural or has a termination proof.

  \<^bold>\<open>Not modelled.\<close> Messages of a single line that the handlers and the client print; what
  \<^verbatim>\<open>Printing\<close> models is the text of the printing functions, not its place in an output stream.
  Interleavings finer than the lock of the ARP cache: \<^verbatim>\<open>Interleaving\<close> places timer rounds between
  the cache operations of a handler, elsewhere a handler or a timer round is one step; data races on
  the fields of a request that a handler touches without the lock are not distinguished from an
  update at one moment. Failing \<^verbatim>\<open>malloc\<close>, and the release of memory and of the socket, which no later
  step observes. \<^verbatim>\<open>getopt\<close> is the list of options it delivers. The POX controller and the scripts of
  the repository are the emulated network around the router, written in other languages;
  \<^verbatim>\<open>Network\<close> stands for any network, not for them.
\<close>

end
